(* ===== verification/Mig_Prelude.thy ===== *)
theory Mig_Prelude
  imports Main "HOL-Library.Word"
begin

text \<open>
  Shared vocabulary of the development: the machine types of the Go sources, error values,
  sparse files, the fixed-width integer codecs of \<open>encoding/binary\<close>, and the generic list
  lemmas the component theories use.
\<close>

named_theorems go_file \<open>facts about files: content, resizing, positioned writes\<close>
named_theorems codec \<open>facts about the fixed-width integer codecs\<close>

type_synonym byte = "8 word"
type_synonym u16 = "16 word"
type_synonym u32 = "32 word"
type_synonym u64 = "64 word"

text \<open>The value an \<open>int64\<close> (or \<open>int\<close>) computation wraps to.\<close>

definition i64 :: "int \<Rightarrow> int" where
  "i64 x = sint (word_of_int x :: u64)"

lemma i64_id: "- (2 ^ 63) \<le> x \<Longrightarrow> x < 2 ^ 63 \<Longrightarrow> i64 x = x"
  by (simp add: i64_def sint_sbintrunc' signed_take_bit_int_eq_self)

section \<open>Errors\<close>

text \<open>
  A Go \<open>error\<close>: a message given by its format string and arguments, a message wrapped around
  another error (\<open>fmt.Errorf("...: %w", err)\<close>), or the typed error of the Firecracker API
  client. Formatting itself is presentation and stays symbolic; the arguments are kept.
\<close>

datatype gerror = Err string "arg list" | Wrap string "arg list" gerror | ApiError int string
  and arg = AStr string | AInt int | AErr gerror

section \<open>Files\<close>

text \<open>
  A file is a list of cells, one per byte: \<open>Some b\<close> is a byte in a data extent, \<open>None\<close> a byte
  of a hole, which reads as zero. The operations are those of \<open>os.File\<close> that the sources call:
  \<open>ReadAt\<close>, \<open>WriteAt\<close> (negative offsets are errors, writes past the end leave a hole) and
  \<open>Truncate\<close>.
\<close>

type_synonym sfile = "byte option list"

definition content :: "sfile \<Rightarrow> byte list" where
  "content f = map (\<lambda>c. case c of None \<Rightarrow> 0 | Some b \<Rightarrow> b) f"

definition resize :: "nat \<Rightarrow> sfile \<Rightarrow> sfile" where
  "resize n f = take n f @ replicate (n - length f) None"

definition splice :: "sfile \<Rightarrow> nat \<Rightarrow> byte list \<Rightarrow> sfile" where
  "splice f off bs = take off f @ map Some bs @ drop (off + length bs) f"

definition Truncate :: "sfile \<Rightarrow> int \<Rightarrow> gerror + sfile" where
  "Truncate f n = (if n < 0 then Inl (Err ''truncate: invalid argument'' []) else Inr (resize (nat n) f))"

definition ReadAt :: "sfile \<Rightarrow> int \<Rightarrow> int \<Rightarrow> gerror + byte list" where
  "ReadAt f n off =
     (if off < 0 then Inl (Err ''negative offset'' [])
      else if off + n \<le> int (length f) then Inr (take (nat n) (drop (nat off) (content f)))
      else Inl (Err ''EOF'' []))"

definition WriteAt :: "sfile \<Rightarrow> byte list \<Rightarrow> int \<Rightarrow> gerror + sfile" where
  "WriteAt f bs off =
     (if off < 0 then Inl (Err ''negative offset'' [])
      else if bs = [] then Inr f
      else Inr (splice (resize (max (length f) (nat off + length bs)) f) (nat off) bs))"

text \<open>What a receiver holds after laying the data cells of \<open>f\<close> over an older image \<open>g\<close>.\<close>

definition overlay :: "sfile \<Rightarrow> sfile \<Rightarrow> sfile" where
  "overlay g f = map2 (\<lambda>a b. case b of None \<Rightarrow> a | Some v \<Rightarrow> Some v) (resize (length f) g) f"

lemma length_content [simp, go_file]: "length (content f) = length f"
  by (simp add: content_def)

lemma nth_content [go_file]:
  "i < length f \<Longrightarrow> content f ! i = (case f ! i of None \<Rightarrow> 0 | Some b \<Rightarrow> b)"
  by (simp add: content_def)

lemma length_resize [simp, go_file]: "length (resize n f) = n"
  by (simp add: resize_def)

lemma nth_resize [go_file]:
  "i < n \<Longrightarrow> resize n f ! i = (if i < length f then f ! i else None)"
  by (simp add: resize_def nth_append)

lemma resize_same [simp, go_file]: "resize (length f) f = f"
  by (simp add: resize_def)

lemma length_splice [simp, go_file]:
  "off + length bs \<le> length f \<Longrightarrow> length (splice f off bs) = length f"
  by (simp add: splice_def)

lemma nth_splice [go_file]:
  "off + length bs \<le> length f \<Longrightarrow> i < length f \<Longrightarrow>
   splice f off bs ! i = (if off \<le> i \<and> i < off + length bs then Some (bs ! (i - off)) else f ! i)"
  by (auto simp: splice_def nth_append)

lemma length_overlay [simp, go_file]: "length (overlay g f) = length f"
  by (simp add: overlay_def)

lemma nth_overlay [go_file]:
  "i < length f \<Longrightarrow>
   overlay g f ! i = (case f ! i of None \<Rightarrow> if i < length g then g ! i else None | Some v \<Rightarrow> Some v)"
  by (auto simp: overlay_def nth_resize split: option.splits)

lemma WriteAt_inside [go_file]:
  "off + length bs \<le> length f \<Longrightarrow> WriteAt f bs (int off) = Inr (splice f off bs)"
  by (auto simp: WriteAt_def splice_def max_def)

lemma content_overlay_empty: "content (overlay [] f) = content f"
  by (rule nth_equalityI) (auto simp: nth_content nth_overlay split: option.splits)

section \<open>Byte codecs\<close>

text \<open>
  \<open>binary.BigEndian.PutUintN\<close> writes the most significant byte first; the reader folds the
  bytes back. Little endian is the reverse. The number of bytes is a parameter, so one proof
  serves all the widths that the sources use.
\<close>

fun be_put :: "nat \<Rightarrow> 'a::len word \<Rightarrow> byte list" where
  "be_put 0 v = []"
| "be_put (Suc n) v = be_put n (drop_bit 8 v) @ [ucast v]"

definition be_get :: "byte list \<Rightarrow> 'a::len word" where
  "be_get bs = foldl (\<lambda>a b. or (push_bit 8 a) (ucast b)) 0 bs"

definition le_put :: "nat \<Rightarrow> 'a::len word \<Rightarrow> byte list" where
  "le_put n v = rev (be_put n v)"

definition le_get :: "byte list \<Rightarrow> 'a::len word" where
  "le_get bs = be_get (rev bs)"

lemma length_be_put [simp]: "length (be_put n v) = n"
  by (induction n arbitrary: v) auto

lemma length_le_put [simp]: "length (le_put n v) = n"
  by (simp add: le_put_def)

lemma be_get_snoc: "be_get (bs @ [b]) = or (push_bit 8 (be_get bs)) (ucast b)"
  by (simp add: be_get_def)

lemma be_get_put_take: "be_get (be_put n v) = take_bit (8 * n) (v :: 'a::len word)"
proof (induction n arbitrary: v)
  case 0
  then show ?case by (simp add: be_get_def)
next
  case (Suc n)
  show ?case
    by (rule bit_word_eqI)
      (auto simp: be_get_snoc Suc.IH bit_simps algebra_simps)
qed

lemma be_get_put [codec]:
  "LENGTH('a) \<le> 8 * n \<Longrightarrow> be_get (be_put n v) = (v :: 'a::len word)"
  by (simp add: be_get_put_take take_bit_word_eq_self)

lemma be_get_bit: "bit (be_get bs :: 'a::len word) n \<Longrightarrow> n < 8 * length bs"
proof (induction bs arbitrary: n rule: rev_induct)
  case Nil
  then show ?case by (simp add: be_get_def)
next
  case (snoc b bs)
  from snoc.prems have "8 \<le> n \<and> bit (be_get bs :: 'a word) (n - 8) \<or> bit b n"
    by (auto simp: be_get_snoc bit_simps)
  moreover have "bit b n \<Longrightarrow> n < 8"
    using bit_imp_le_length [of b n] by simp
  ultimately show ?case using snoc.IH [of "n - 8"] by auto
qed

lemma be_put_get [codec]:
  "8 * length bs \<le> LENGTH('a) \<Longrightarrow> be_put (length bs) (be_get bs :: 'a::len word) = bs"
proof (induction bs rule: rev_induct)
  case Nil
  then show ?case by simp
next
  case (snoc b bs)
  have "drop_bit 8 (be_get (bs @ [b])) = (be_get bs :: 'a word)"
    using snoc.prems be_get_bit [of bs]
    by (intro bit_word_eqI) (fastforce simp: be_get_snoc bit_simps dest: bit_imp_le_length)
  moreover have "ucast (be_get (bs @ [b]) :: 'a word) = b"
    using snoc.prems by (intro bit_word_eqI) (auto simp: be_get_snoc bit_simps)
  ultimately show ?case using snoc by simp
qed

lemma be_put_get_n:
  "length bs = n \<Longrightarrow> 8 * n \<le> LENGTH('a) \<Longrightarrow> be_put n (be_get bs :: 'a::len word) = bs"
  using be_put_get [of bs] by auto

text \<open>The contract of a fixed-width codec, and what every client of one may use.\<close>

locale fixed_codec =
  fixes put :: "'a \<Rightarrow> byte list"
    and get :: "byte list \<Rightarrow> 'a"
    and width :: nat
  assumes length_put: "length (put v) = width"
    and get_put: "get (put v) = v"
    and put_get: "length bs = width \<Longrightarrow> put (get bs) = bs"
begin

lemma get_eq: "length bs = width \<Longrightarrow> get bs = v \<longleftrightarrow> bs = put v"
  using get_put put_get by metis

lemma take_put: "get (take width (put v @ rest)) = v"
  by (simp add: length_put get_put)

lemma drop_put: "drop width (put v @ rest) = rest"
  by (simp add: length_put)

lemma put_inject: "put v = put v' \<longleftrightarrow> v = v'"
  using get_put by metis

lemma prefix_free: "put v @ xs = put v' @ ys \<longleftrightarrow> v = v' \<and> xs = ys"
  using put_inject length_put by (metis append_eq_append_conv)

end

interpretation be64: fixed_codec "be_put 8 :: u64 \<Rightarrow> byte list" be_get 8
  by unfold_locales (auto simp: be_get_put intro: be_put_get_n)

interpretation be32: fixed_codec "be_put 4 :: u32 \<Rightarrow> byte list" be_get 4
  by unfold_locales (auto simp: be_get_put intro: be_put_get_n)

interpretation be16: fixed_codec "be_put 2 :: u16 \<Rightarrow> byte list" be_get 2
  by unfold_locales (auto simp: be_get_put intro: be_put_get_n)

interpretation le64: fixed_codec "le_put 8 :: u64 \<Rightarrow> byte list" le_get 8
  by unfold_locales (auto simp: le_put_def le_get_def be_get_put be_put_get_n)

end
