(* ===== verification/Timeline.thy ===== *)
theory Timeline
  imports Mig_Prelude
begin

text \<open>
  The package \<open>internal/timeline\<close>: a recorder of named readings of the shared monotonic clock.
  The mutex makes each method atomic, so a method is a function on the list of events; the clock
  is an argument.
\<close>

record Event =
  Name :: string
  NS :: int

record Recorder =
  events :: "Event list"

definition MarkAt :: "string \<Rightarrow> int \<Rightarrow> Recorder \<Rightarrow> Recorder" where
  "MarkAt name ns r = r\<lparr>events := events r @ [\<lparr>Name = name, NS = ns\<rparr>]\<rparr>"

text \<open>\<open>Mark\<close> reads the clock and returns the reading it recorded.\<close>

definition Mark :: "int \<Rightarrow> string \<Rightarrow> Recorder \<Rightarrow> int \<times> Recorder" where
  "Mark now name r = (now, MarkAt name now r)"

definition Events :: "Recorder \<Rightarrow> Event list" where
  "Events r = events r"

text \<open>The scan of \<open>Between\<close>, with its two values and two flags.\<close>

record scan =
  fromNS :: int
  toNS :: int
  haveFrom :: bool
  haveTo :: bool

definition between_step :: "string \<Rightarrow> string \<Rightarrow> Event \<Rightarrow> scan \<Rightarrow> scan" where
  "between_step fromE toE e s =
     (let s1 = (if \<not> haveFrom s \<and> Name e = fromE then s\<lparr>fromNS := NS e, haveFrom := True\<rparr> else s)
      in if \<not> haveTo s1 \<and> Name e = toE then s1\<lparr>toNS := NS e, haveTo := True\<rparr> else s1)"

definition Between :: "string \<Rightarrow> string \<Rightarrow> Recorder \<Rightarrow> int \<times> bool" where
  "Between fromE toE r =
     (let s = fold (between_step fromE toE) (events r)
                \<lparr>fromNS = 0, toNS = 0, haveFrom = False, haveTo = False\<rparr>
      in if \<not> haveFrom s \<or> \<not> haveTo s then (0, False) else (toNS s - fromNS s, True))"

section \<open>First occurrences\<close>

definition first_at :: "string \<Rightarrow> Event list \<Rightarrow> int option" where
  "first_at name es = map_option NS (find (\<lambda>e. Name e = name) es)"

lemma first_at_append:
  "first_at name (es @ es') = (case first_at name es of None \<Rightarrow> first_at name es' | Some t \<Rightarrow> Some t)"
  by (induction es) (auto simp: first_at_def)

lemma first_at_single: "first_at name [e] = (if Name e = name then Some (NS e) else None)"
  by (simp add: first_at_def)

definition got_from :: "scan \<Rightarrow> int option" where
  "got_from s = (if haveFrom s then Some (fromNS s) else None)"

definition got_to :: "scan \<Rightarrow> int option" where
  "got_to s = (if haveTo s then Some (toNS s) else None)"

lemma between_step_got:
  "got_from (between_step fromE toE e s) =
     (case got_from s of None \<Rightarrow> first_at fromE [e] | Some t \<Rightarrow> Some t)"
  "got_to (between_step fromE toE e s) =
     (case got_to s of None \<Rightarrow> first_at toE [e] | Some t \<Rightarrow> Some t)"
  by (simp_all add: between_step_def Let_def got_from_def got_to_def first_at_single)

lemma between_scan:
  "got_from (fold (between_step fromE toE) es \<lparr>fromNS = 0, toNS = 0, haveFrom = False, haveTo = False\<rparr>) =
     first_at fromE es"
  "got_to (fold (between_step fromE toE) es \<lparr>fromNS = 0, toNS = 0, haveFrom = False, haveTo = False\<rparr>) =
     first_at toE es"
proof (induction es rule: rev_induct)
  case Nil
  case 1 show ?case by (simp add: got_from_def first_at_def)
  case 2 show ?case by (simp add: got_to_def first_at_def)
next
  case (snoc e es)
  case 1 show ?case by (simp add: between_step_got snoc first_at_append)
  case 2 show ?case by (simp add: between_step_got snoc first_at_append)
qed

lemma Between_first:
  "Between fromE toE r =
     (case (first_at fromE (events r), first_at toE (events r)) of
        (Some a, Some b) \<Rightarrow> (b - a, True) | _ \<Rightarrow> (0, False))"
  unfolding between_scan [of fromE toE "events r", symmetric]
  by (auto simp: Between_def Let_def got_from_def got_to_def)

text \<open>
  \<open>Between\<close> is the distance of the first occurrences of the two names, or reports a missing
  one; marks recorded afterwards, the peer's included, never change a measured distance.
\<close>

theorem Between_stable:
  assumes "Between fromE toE r = (d, True)"
  shows "(\<exists>a b. first_at fromE (Events r) = Some a \<and> first_at toE (Events r) = Some b \<and> d = b - a) \<and>
    Between fromE toE (MarkAt name ns r) = (d, True)"
  using assms
  by (auto simp: Between_first Events_def MarkAt_def first_at_append split: option.splits)

theorem Between_stable_witness:
  "Between ''a'' ''b'' (MarkAt ''a'' 9 (MarkAt ''b'' 5 (MarkAt ''a'' 2 \<lparr>events = []\<rparr>))) = (3, True)"
  using Between_stable [of "''a''" "''b''" "MarkAt ''b'' 5 (MarkAt ''a'' 2 \<lparr>events = []\<rparr>)" 3 "''a''" 9]
  by (simp add: Between_def MarkAt_def between_step_def Let_def)

end
