(* ===== verification/Go_Strings.thy ===== *)
theory Go_Strings
  imports Mig_Prelude
begin

text \<open>
  The functions of Go's \<open>strings\<close> and \<open>strconv\<close> that several components use, on byte strings.
\<close>

text \<open>
  \<open>strings.Fields\<close> on the ASCII kernel command line, \<open>strings.CutPrefix\<close> and
  \<open>strconv.Atoi\<close>: an optional sign and decimal digits; a syntax error yields 0, a value out of
  the range of \<open>int\<close> the nearest end of it, both with an error.
\<close>

definition is_space :: "char \<Rightarrow> bool" where
  "is_space c \<longleftrightarrow> c \<in> {CHR '' '', CHR 0x09, CHR 0x0A, CHR 0x0B, CHR 0x0C, CHR 0x0D}"

fun fields_loop :: "string \<Rightarrow> string \<Rightarrow> string list" where
  "fields_loop cur [] = (if cur = [] then [] else [cur])"
| "fields_loop cur (c # cs) =
     (if is_space c then (if cur = [] then fields_loop [] cs else cur # fields_loop [] cs)
      else fields_loop (cur @ [c]) cs)"

definition Fields :: "string \<Rightarrow> string list" where
  "Fields s = fields_loop [] s"

definition has_prefix :: "string \<Rightarrow> string \<Rightarrow> bool" where
  "has_prefix s pre \<longleftrightarrow> take (length pre) s = pre"

definition CutPrefix :: "string \<Rightarrow> string \<Rightarrow> string option" where
  "CutPrefix s pre = (if take (length pre) s = pre then Some (drop (length pre) s) else None)"

definition digit_val :: "char \<Rightarrow> int option" where
  "digit_val c = (let n = int (of_char c :: nat) - 48 in if 0 \<le> n \<and> n \<le> 9 then Some n else None)"

fun digits_val :: "int \<Rightarrow> string \<Rightarrow> int option" where
  "digits_val acc [] = Some acc"
| "digits_val acc (c # cs) =
     (case digit_val c of None \<Rightarrow> None | Some d \<Rightarrow> digits_val (acc * 10 + d) cs)"

definition Atoi :: "string \<Rightarrow> int \<times> bool" where
  "Atoi s =
     (let neg = (s \<noteq> [] \<and> hd s = CHR ''-'');
          ds = (if s \<noteq> [] \<and> (hd s = CHR ''-'' \<or> hd s = CHR ''+'') then tl s else s)
      in case (if ds = [] then None else digits_val 0 ds) of
           None \<Rightarrow> (0, False)
         | Some n \<Rightarrow>
             (let v = (if neg then - n else n)
              in if v < - (2 ^ 63) then (- (2 ^ 63), False)
                 else if v > 2 ^ 63 - 1 then (2 ^ 63 - 1, False)
                 else (v, True)))"

text \<open>The decimal form that \<open>fmt\<close> prints for \<open>%d\<close>.\<close>

definition digit_char :: "nat \<Rightarrow> char" where
  "digit_char d = char_of (48 + d)"

fun nat_dec :: "nat \<Rightarrow> string" where
  "nat_dec n = (if n < 10 then [digit_char n] else nat_dec (n div 10) @ [digit_char (n mod 10)])"

declare nat_dec.simps [simp del]

definition Itoa :: "int \<Rightarrow> string" where
  "Itoa n = (if n < 0 then CHR ''-'' # nat_dec (nat (- n)) else nat_dec (nat n))"

lemma digit_val_char: "d < 10 \<Longrightarrow> digit_val (digit_char d) = Some (int d)"
  by (simp add: digit_val_def digit_char_def Let_def)

lemma digits_val_append:
  "digits_val acc (xs @ ys) = (case digits_val acc xs of None \<Rightarrow> None | Some v \<Rightarrow> digits_val v ys)"
  by (induction xs arbitrary: acc) (auto split: option.splits)

lemma digits_val_dec: "digits_val 0 (nat_dec n) = Some (int n)"
proof (induction n rule: nat_dec.induct)
  case (1 n)
  show ?case
  proof (cases "n < 10")
    case True
    then show ?thesis by (simp add: nat_dec.simps [of n] digit_val_char)
  next
    case False
    have "int (n div 10) * 10 + int (n mod 10) = int n"
      using div_mult_mod_eq [of n 10] by (metis of_nat_add of_nat_mult of_nat_numeral)
    with False show ?thesis
      using 1 by (simp add: nat_dec.simps [of n] digits_val_append digit_val_char)
  qed
qed

lemma nat_dec_inject: "nat_dec m = nat_dec n \<longleftrightarrow> m = n"
  using digits_val_dec by (metis of_nat_eq_iff option.inject)

lemma nat_dec_digits: "c \<in> set (nat_dec n) \<Longrightarrow> \<exists>d<10. c = digit_char d"
proof (induction n rule: nat_dec.induct)
  case (1 n)
  then show ?case
    by (subst (asm) (2) nat_dec.simps) (auto split: if_splits intro: exI [of _ "n mod 10"])
qed

section \<open>Paths\<close>

text \<open>
  \<open>path/filepath\<close> on Unix: \<open>Clean\<close> drops empty and \<open>.\<close> components and resolves \<open>..\<close>
  against the component before it; \<open>Join\<close> of two elements cleans their concatenation with a
  slash, ignoring an empty one.
\<close>

fun split_slash :: "string \<Rightarrow> string \<Rightarrow> string list" where
  "split_slash cur [] = [cur]"
| "split_slash cur (c # cs) = (if c = CHR ''/'' then cur # split_slash [] cs else split_slash (cur @ [c]) cs)"

definition clean_step :: "bool \<Rightarrow> string list \<Rightarrow> string \<Rightarrow> string list" where
  "clean_step rooted st cmp =
     (if cmp = '''' \<or> cmp = ''.'' then st
      else if cmp = ''..'' then
        (if st \<noteq> [] \<and> last st \<noteq> ''..'' then butlast st else if rooted then st else st @ [cmp])
      else st @ [cmp])"

fun join_slash :: "string list \<Rightarrow> string" where
  "join_slash [] = ''''"
| "join_slash [c] = c"
| "join_slash (c # d # cs) = c @ ''/'' @ join_slash (d # cs)"

definition is_rooted :: "string \<Rightarrow> bool" where
  "is_rooted p \<longleftrightarrow> p \<noteq> [] \<and> hd p = CHR ''/''"

definition Clean :: "string \<Rightarrow> string" where
  "Clean p =
     (let comps = foldl (clean_step (is_rooted p)) [] (split_slash [] p)
      in if is_rooted p then ''/'' @ join_slash comps else if comps = [] then ''.'' else join_slash comps)"

definition Join :: "string \<Rightarrow> string \<Rightarrow> string" where
  "Join d n = (if d = '''' then (if n = '''' then '''' else Clean n)
     else if n = '''' then Clean d else Clean (d @ ''/'' @ n))"

text \<open>A plain file name: one component that \<open>Clean\<close> keeps.\<close>

definition plain_name :: "string \<Rightarrow> bool" where
  "plain_name n \<longleftrightarrow> n \<noteq> '''' \<and> n \<noteq> ''.'' \<and> n \<noteq> ''..'' \<and> CHR ''/'' \<notin> set n"

lemma split_slash_plain: "CHR ''/'' \<notin> set n \<Longrightarrow> split_slash cur n = [cur @ n]"
  by (induction n arbitrary: cur) auto

lemma split_slash_append:
  "CHR ''/'' \<notin> set n \<Longrightarrow> split_slash cur (d @ CHR ''/'' # n) = split_slash cur d @ [n]"
  by (induction d arbitrary: cur) (auto simp: split_slash_plain)

lemma join_slash_snoc: "join_slash (cs @ [n]) = (if cs = [] then n else join_slash cs @ ''/'' @ n)"
  by (induction cs rule: join_slash.induct) auto

text \<open>What \<open>Join d\<close> puts in front of a plain name.\<close>

definition dir_prefix :: "string \<Rightarrow> string" where
  "dir_prefix d =
     (if d = '''' then ''''
      else let comps = foldl (clean_step (is_rooted d)) [] (split_slash [] d)
           in (if is_rooted d then ''/'' else '''') @ (if comps = [] then '''' else join_slash comps @ ''/''))"

lemma Join_plain: "plain_name n \<Longrightarrow> Join d n = dir_prefix d @ n"
proof (cases "d = ''''")
  case True
  assume "plain_name n"
  then show ?thesis
    using True by (cases n)
      (auto simp: plain_name_def Join_def dir_prefix_def Clean_def is_rooted_def split_slash_plain clean_step_def)
next
  case False
  assume n: "plain_name n"
  have "is_rooted (d @ ''/'' @ n) = is_rooted d"
    using False by (simp add: is_rooted_def)
  then show ?thesis
    using n False
    by (auto simp: Join_def Clean_def dir_prefix_def plain_name_def split_slash_append clean_step_def
        join_slash_snoc Let_def)
qed

lemma Join_inject: "plain_name m \<Longrightarrow> plain_name n \<Longrightarrow> Join d m = Join d n \<longleftrightarrow> m = n"
  by (simp add: Join_plain)

end
