(* ===== verification/Guestd.thy ===== *)
theory Guestd
  imports Go_Strings "HOL-Library.Signed_Division"
begin

unbundle bit_operations_syntax

text \<open>
  The guest workload \<open>cmd/guestd\<close>: the self-describing memory pages of the scribbler, the
  splitmix64 keystream that fills them, the command line and the \<open>/dirty\<close> control. Slices out
  of range and \<open>rng.Intn(0)\<close> panic in Go; a panic is the value \<open>None\<close>. The pseudo-random
  generator is the parameter \<open>rng\<close>, read once per draw.
\<close>

definition pageSize :: nat where
  "pageSize = 4096"

section \<open>Keystream\<close>

record keystream =
  state :: u64

definition ks_next :: "keystream \<Rightarrow> u64 \<times> keystream" where
  "ks_next k =
     (let st = state k + 0x9e3779b97f4a7c15;
          z = st;
          z = (z XOR drop_bit 30 z) * 0xbf58476d1ce4e5b9;
          z = (z XOR drop_bit 27 z) * 0x94d049bb133111eb
      in (z XOR drop_bit 31 z, k\<lparr>state := st\<rparr>))"

section \<open>Pages\<close>

record Scribbler =
  buf :: "byte list"
  Iterations :: int
  PagesVerified :: int
  IntegrityErrors :: int

text \<open>The slice \<open>s.buf[p*pageSize : (p+1)*pageSize]\<close>, which panics out of range.\<close>

definition page_slice :: "byte list \<Rightarrow> int \<Rightarrow> byte list option" where
  "page_slice b p =
     (if 0 \<le> p \<and> nat (p + 1) * pageSize \<le> length b
      then Some (take pageSize (drop (nat p * pageSize) b)) else None)"

definition put_at :: "byte list \<Rightarrow> nat \<Rightarrow> byte list \<Rightarrow> byte list" where
  "put_at b off v = take off b @ v @ drop (off + length v) b"

function fill_page :: "nat \<Rightarrow> keystream \<Rightarrow> byte list \<Rightarrow> byte list" where
  "fill_page off ks pg =
     (if off < pageSize then
        (let (v, ks') = ks_next ks in fill_page (off + 8) ks' (put_at pg off (le_put 8 v)))
      else pg)"
  by pat_completeness auto
termination
  by (relation "measure (\<lambda>(off, ks, pg). pageSize - off)") auto

declare fill_page.simps [simp del]

definition page_seed :: "u64 \<Rightarrow> u64 \<Rightarrow> keystream" where
  "page_seed p iter = \<lparr>state = push_bit 32 p XOR iter\<rparr>"

definition writePage :: "int \<Rightarrow> int \<Rightarrow> Scribbler \<Rightarrow> Scribbler option" where
  "writePage p iter s =
     (case page_slice (buf s) p of
        None \<Rightarrow> None
      | Some pg \<Rightarrow>
          (let pg1 = put_at pg 0 (le_put 8 (word_of_int p :: u64));
               pg2 = put_at pg1 8 (le_put 8 (word_of_int iter :: u64));
               pg3 = fill_page 16 (page_seed (word_of_int p) (word_of_int iter)) pg2
           in Some (s\<lparr>buf := put_at (buf s) (nat p * pageSize) pg3\<rparr>)))"

function check_page :: "bool \<Rightarrow> nat \<Rightarrow> keystream \<Rightarrow> byte list \<Rightarrow> bool" where
  "check_page ok off ks pg =
     (if ok \<and> off < pageSize then
        (let (v, ks') = ks_next ks
         in check_page (le_get (take 8 (drop off pg)) = v) (off + 8) ks' pg)
      else ok)"
  by pat_completeness auto
termination
  by (relation "measure (\<lambda>(ok, off, ks, pg). pageSize - off)") auto

declare check_page.simps [simp del]

definition page_ok :: "int \<Rightarrow> byte list \<Rightarrow> bool" where
  "page_ok p pg =
     (let idx = (le_get (take 8 pg) :: u64);
          iter = (le_get (take 8 (drop 8 pg)) :: u64)
      in check_page (idx = word_of_int p) 16 (page_seed idx iter) pg)"

definition verifyPage :: "int \<Rightarrow> Scribbler \<Rightarrow> Scribbler option" where
  "verifyPage p s =
     (case page_slice (buf s) p of
        None \<Rightarrow> None
      | Some pg \<Rightarrow>
          (let s1 = s\<lparr>PagesVerified := PagesVerified s + 1\<rparr>
           in Some (if page_ok p pg then s1 else s1\<lparr>IntegrityErrors := IntegrityErrors s1 + 1\<rparr>)))"

section \<open>The scribbler loop\<close>

text \<open>\<open>NewScribbler(size)\<close> panics for a negative size.\<close>

fun init_pages :: "nat \<Rightarrow> nat \<Rightarrow> Scribbler \<Rightarrow> Scribbler option" where
  "init_pages 0 p s = Some s"
| "init_pages (Suc n) p s = Option.bind (writePage (int p) 0 s) (init_pages n (Suc p))"

definition NewScribbler :: "int \<Rightarrow> Scribbler option" where
  "NewScribbler sz =
     (if sz < 0 then None
      else init_pages (nat sz div pageSize) 0
             \<lparr>buf = replicate (nat sz) 0, Iterations = 0, PagesVerified = 0, IntegrityErrors = 0\<rparr>)"

text \<open>Signed 64-bit multiplication and truncating division.\<close>


definition pages_per_ms :: "int \<Rightarrow> int" where
  "pages_per_ms mbps =
     (let perMS = (i64 (mbps * 2 ^ 20) sdiv 1000) sdiv int pageSize
      in if perMS = 0 then 1 else perMS)"

text \<open>\<open>rng.Intn(pages)\<close>: a draw below \<open>pages\<close>, panicking unless \<open>pages > 0\<close>.\<close>

definition Intn :: "(nat \<Rightarrow> nat) \<Rightarrow> nat \<Rightarrow> nat \<Rightarrow> int option" where
  "Intn rng draw pages = (if pages = 0 then None else Some (int (rng draw mod pages)))"

fun write_some :: "(nat \<Rightarrow> nat) \<Rightarrow> nat \<Rightarrow> nat \<Rightarrow> nat \<Rightarrow> int \<Rightarrow> Scribbler \<Rightarrow> Scribbler option" where
  "write_some rng draw pages 0 iter s = Some s"
| "write_some rng draw pages (Suc n) iter s =
     Option.bind (Intn rng draw pages) (\<lambda>p. Option.bind (writePage p iter s)
       (write_some rng (Suc draw) pages n iter))"

fun verify_some :: "(nat \<Rightarrow> nat) \<Rightarrow> nat \<Rightarrow> nat \<Rightarrow> nat \<Rightarrow> Scribbler \<Rightarrow> Scribbler option" where
  "verify_some rng draw pages 0 s = Some s"
| "verify_some rng draw pages (Suc n) s =
     Option.bind (Intn rng draw pages) (\<lambda>p. Option.bind (verifyPage p s)
       (verify_some rng (Suc draw) pages n))"

text \<open>
  One turn of \<open>Run\<close>'s endless loop: the iteration number, the requested dirty rate and the draws
  made so far are its inputs. \<open>Run\<close> for \<open>n\<close> turns, the rate being read afresh in each.
\<close>

definition run_turn :: "(nat \<Rightarrow> nat) \<Rightarrow> int \<Rightarrow> int \<Rightarrow> nat \<Rightarrow> Scribbler \<Rightarrow> (nat \<times> Scribbler) option" where
  "run_turn rng mbps iter draw s =
     (let pages = length (buf s) div pageSize;
          perMS = nat (pages_per_ms mbps);
          s1 = s\<lparr>Iterations := iter\<rparr>
      in Option.bind (write_some rng draw pages perMS iter s1)
           (\<lambda>s2. Option.bind (verify_some rng (draw + perMS) pages 32 s2)
             (\<lambda>s3. Some (draw + perMS + 32, s3))))"

fun Run :: "(nat \<Rightarrow> nat) \<Rightarrow> (nat \<Rightarrow> int) \<Rightarrow> nat \<Rightarrow> int \<Rightarrow> nat \<Rightarrow> Scribbler \<Rightarrow> Scribbler option" where
  "Run rng mbps 0 iter draw s = Some s"
| "Run rng mbps (Suc n) iter draw s =
     Option.bind (run_turn rng (mbps n) (iter + 1) draw s)
       (\<lambda>(draw', s'). Run rng mbps n (iter + 1) draw' s')"

section \<open>Command line and rate control\<close>

definition cmdline_step :: "string \<Rightarrow> int \<times> int \<Rightarrow> int \<times> int" where
  "cmdline_step tok st =
     (case st of (bufMB, mbps) \<Rightarrow>
        (let bufMB' = (case CutPrefix tok ''guestd.buf_mb='' of None \<Rightarrow> bufMB | Some v \<Rightarrow> fst (Atoi v));
             mbps' = (case CutPrefix tok ''guestd.dirty_mbps='' of None \<Rightarrow> mbps | Some v \<Rightarrow> fst (Atoi v))
         in (bufMB', mbps')))"

text \<open>\<open>raw\<close> is the content of \<open>/proc/cmdline\<close>, \<open>None\<close> when it cannot be read.\<close>

definition parseCmdline :: "string option \<Rightarrow> int \<times> int" where
  "parseCmdline raw =
     (case raw of None \<Rightarrow> (64, 0) | Some s \<Rightarrow> fold cmdline_step (Fields s) (64, 0))"

text \<open>\<open>POST /dirty?mbps=N\<close>: the new rate and the HTTP status.\<close>

definition handle_dirty :: "string \<Rightarrow> int \<Rightarrow> int \<times> int" where
  "handle_dirty arg rate =
     (case Atoi arg of (mbps, ok) \<Rightarrow>
        if \<not> ok \<or> mbps < 0 then (rate, 400) else (mbps, 200))"

text \<open>\<open>main\<close> up to the start of the scribbler: \<open>buf << 20\<close> bytes, panicking where Go does.\<close>

definition start_scribbler :: "string option \<Rightarrow> (int \<times> Scribbler) option" where
  "start_scribbler raw =
     (case parseCmdline raw of (bufMB, rate) \<Rightarrow>
        map_option (\<lambda>s. (rate, s)) (NewScribbler (i64 (bufMB * 2 ^ 20))))"

section \<open>The image of a page\<close>

fun ks_words :: "nat \<Rightarrow> keystream \<Rightarrow> u64 list" where
  "ks_words 0 k = []"
| "ks_words (Suc n) k = fst (ks_next k) # ks_words n (snd (ks_next k))"

definition body :: "nat \<Rightarrow> keystream \<Rightarrow> byte list" where
  "body n k = concat (map (le_put 8) (ks_words n k))"

definition page_image :: "u64 \<Rightarrow> u64 \<Rightarrow> byte list" where
  "page_image p iter = le_put 8 p @ le_put 8 iter @ body 510 (page_seed p iter)"

lemma length_ks_words [simp]: "length (ks_words n k) = n"
  by (induction n arbitrary: k) auto

lemma length_body [simp]: "length (body n k) = 8 * n"
  by (induction n arbitrary: k) (auto simp: body_def)

lemma length_page_image [simp]: "length (page_image p iter) = pageSize"
  by (simp add: page_image_def pageSize_def)

lemma body_Suc: "body (Suc n) k = le_put 8 (fst (ks_next k)) @ body n (snd (ks_next k))"
  by (simp add: body_def)

lemma length_put_at [simp]: "off + length v \<le> length b \<Longrightarrow> length (put_at b off v) = length b"
  by (simp add: put_at_def)

lemma fill_page_body:
  "length pg = pageSize \<Longrightarrow> off + 8 * n = pageSize \<Longrightarrow>
   fill_page off ks pg = take off pg @ body n ks"
proof (induction n arbitrary: off ks pg)
  case 0
  then show ?case by (subst fill_page.simps) (simp add: body_def)
next
  case (Suc n)
  let ?pg = "put_at pg off (le_put 8 (fst (ks_next ks)))"
  have "fill_page off ks pg = fill_page (off + 8) (snd (ks_next ks)) ?pg"
    using Suc.prems by (simp add: fill_page.simps [of off] split_def Let_def)
  also have "\<dots> = take (off + 8) ?pg @ body n (snd (ks_next ks))"
    using Suc.prems by (intro Suc.IH) simp_all
  also have "take (off + 8) ?pg = take off pg @ le_put 8 (fst (ks_next ks))"
    using Suc.prems by (simp add: put_at_def)
  finally show ?case by (simp add: body_Suc)
qed

lemma check_page_body:
  "length pg = pageSize \<Longrightarrow> off + 8 * n = pageSize \<Longrightarrow>
   check_page ok off ks pg \<longleftrightarrow> ok \<and> drop off pg = body n ks"
proof (induction n arbitrary: off ks ok)
  case 0
  then show ?case by (subst check_page.simps) (simp add: body_def)
next
  case (Suc n)
  let ?w = "fst (ks_next ks)" and ?ks = "snd (ks_next ks)"
  have word: "(le_get (take 8 (drop off pg)) = ?w) = (take 8 (drop off pg) = le_put 8 ?w)"
    using Suc.prems by (intro le64.get_eq) simp
  have "check_page ok off ks pg \<longleftrightarrow> ok \<and> check_page (take 8 (drop off pg) = le_put 8 ?w) (off + 8) ?ks pg"
    using Suc.prems by (simp add: check_page.simps [of ok off] split_def Let_def word)
  also have "\<dots> \<longleftrightarrow> ok \<and> take 8 (drop off pg) = le_put 8 ?w \<and> drop (off + 8) pg = body n ?ks"
    using Suc.prems by (simp add: Suc.IH)
  also have "\<dots> \<longleftrightarrow> ok \<and> drop off pg = le_put 8 ?w @ body n ?ks"
    using append_take_drop_id [of 8 "drop off pg"]
    by (auto simp: add.commute dest: sym)
  finally show ?case by (simp add: body_Suc)
qed

text \<open>A page passes exactly when it is the complete image of one write to that page.\<close>

lemma page_ok_image:
  assumes "length pg = pageSize"
  shows "page_ok p pg \<longleftrightarrow> (\<exists>iter. pg = page_image (word_of_int p) iter)"
proof -
  define a b c where "a = take 8 pg" and "b = take 8 (drop 8 pg)" and "c = drop 16 pg"
  have pg: "pg = a @ b @ c" and len: "length a = 8" "length b = 8" "length c = 4080"
    using assms append_take_drop_id [of 8 pg] append_take_drop_id [of 8 "drop 8 pg"]
    by (simp_all add: a_def b_def c_def pageSize_def)
  have "page_ok p pg \<longleftrightarrow> le_get a = (word_of_int p :: u64) \<and> c = body 510 (page_seed (le_get a) (le_get b))"
    using assms by (simp add: page_ok_def check_page_body pageSize_def Let_def a_def b_def c_def)
  also have "\<dots> \<longleftrightarrow> a = le_put 8 (word_of_int p :: u64) \<and> c = body 510 (page_seed (word_of_int p) (le_get b))"
    using le64.get_eq [OF len(1)] by metis
  also have "\<dots> \<longleftrightarrow> (\<exists>iter. a @ b @ c = page_image (word_of_int p) iter)"
    using len le64.put_get [OF len(2)] le64.get_put
    by (auto simp: page_image_def intro!: exI [of _ "le_get b"])
  finally show ?thesis unfolding pg .
qed

lemma page_ok_page_image [simp]: "page_ok p (page_image (word_of_int p) iter)"
  by (auto simp: page_ok_image)

section \<open>Writing and reading pages of the buffer\<close>

definition in_buf :: "byte list \<Rightarrow> int \<Rightarrow> bool" where
  "in_buf b p \<longleftrightarrow> 0 \<le> p \<and> nat (p + 1) * pageSize \<le> length b"

lemma in_buf_room: "in_buf b p \<Longrightarrow> nat p * pageSize + pageSize \<le> length b"
  by (auto simp: in_buf_def nat_add_distrib)

lemma page_slice_eq:
  "page_slice b p = (if in_buf b p then Some (take pageSize (drop (nat p * pageSize) b)) else None)"
  by (simp add: page_slice_def in_buf_def)

lemma page_slice_Some:
  "page_slice b p = Some pg \<longleftrightarrow> in_buf b p \<and> pg = take pageSize (drop (nat p * pageSize) b)"
  by (auto simp: page_slice_def in_buf_def)

lemma length_page_slice: "page_slice b p = Some pg \<Longrightarrow> length pg = pageSize"
  using in_buf_room [of b p] by (auto simp: page_slice_Some)

lemma take_drop_put_at:
  assumes "off + length v \<le> length b" "k + n \<le> off \<or> off + length v \<le> k"
  shows "take n (drop k (put_at b off v)) = take n (drop k b)"
  using assms(2)
proof
  assume "k + n \<le> off"
  then show ?thesis using assms(1) by (simp add: put_at_def drop_take)
next
  assume "off + length v \<le> k"
  then show ?thesis using assms(1) by (simp add: put_at_def)
qed

lemma page_slice_put:
  assumes "in_buf b p" "length img = pageSize"
  shows "page_slice (put_at b (nat p * pageSize) img) q = (if q = p then Some img else page_slice b q)"
proof -
  let ?b = "put_at b (nat p * pageSize) img"
  note room = in_buf_room [OF assms(1)]
  have len: "length ?b = length b"
    using room assms(2) by simp
  have split: "?b = take (nat p * pageSize) b @ img @ drop (nat p * pageSize + pageSize) b"
    using assms(2) by (simp add: put_at_def)
  have same: "in_buf ?b q = in_buf b q" for q
    unfolding in_buf_def len ..
  consider "q = p" | "q \<noteq> p" "in_buf b q" | "q \<noteq> p" "\<not> in_buf b q" by blast
  then show ?thesis
  proof cases
    case 1
    have "take pageSize (drop (nat p * pageSize) ?b) = img"
      unfolding split using room assms(2) by simp
    with 1 assms(1) same [of p] show ?thesis by (simp only: page_slice_eq if_True refl)
  next
    case 2
    have away: "nat q * pageSize + pageSize \<le> nat p * pageSize \<or> nat p * pageSize + pageSize \<le> nat q * pageSize"
      using 2 assms(1) mult_le_mono1 [of "Suc (nat q)" "nat p" pageSize]
        mult_le_mono1 [of "Suc (nat p)" "nat q" pageSize]
      by (cases "q < p") (auto simp: in_buf_def Suc_le_eq nat_less_eq_zless)
    have "take pageSize (drop (nat q * pageSize) ?b) = take pageSize (drop (nat q * pageSize) b)"
      using away room in_buf_room [OF 2(2)] assms(2) by (intro take_drop_put_at) simp_all
    with 2 same [of q] show ?thesis by (simp only: page_slice_eq if_True if_False)
  next
    case 3
    with same [of q] show ?thesis by (simp only: page_slice_eq if_False)
  qed
qed

lemma writePage_eq:
  "writePage p iter s =
     (if in_buf (buf s) p
      then Some (s\<lparr>buf := put_at (buf s) (nat p * pageSize) (page_image (word_of_int p) (word_of_int iter))\<rparr>)
      else None)"
proof (cases "page_slice (buf s) p")
  case None
  then show ?thesis by (auto simp: writePage_def page_slice_def in_buf_def split: if_splits)
next
  case (Some pg)
  have len: "length pg = pageSize"
    using Some by (rule length_page_slice)
  let ?pg2 = "put_at (put_at pg 0 (le_put 8 (word_of_int p :: u64))) 8 (le_put 8 (word_of_int iter :: u64))"
  have "fill_page 16 (page_seed (word_of_int p) (word_of_int iter)) ?pg2 =
      take 16 ?pg2 @ body 510 (page_seed (word_of_int p) (word_of_int iter))"
    using len by (intro fill_page_body) (simp_all add: pageSize_def)
  also have "take 16 ?pg2 = le_put 8 (word_of_int p :: u64) @ le_put 8 (word_of_int iter :: u64)"
    using len by (simp add: put_at_def pageSize_def)
  finally show ?thesis
    using Some page_slice_Some [of "buf s" p pg] by (simp add: writePage_def page_image_def Let_def)
qed

section \<open>The scribbler never accuses itself\<close>

definition pages_ok :: "Scribbler \<Rightarrow> bool" where
  "pages_ok s \<longleftrightarrow> (\<forall>p pg. page_slice (buf s) p = Some pg \<longrightarrow> page_ok p pg)"

lemma writePage_pages_ok:
  assumes "pages_ok s" "writePage p iter s = Some s'"
  shows "pages_ok s' \<and> length (buf s') = length (buf s) \<and> IntegrityErrors s' = IntegrityErrors s \<and>
    PagesVerified s' = PagesVerified s"
  using assms in_buf_room [of "buf s" p]
  by (auto simp: writePage_eq pages_ok_def page_slice_put split: if_splits)

lemma verifyPage_pages_ok:
  assumes "pages_ok s" "verifyPage p s = Some s'"
  shows "s' = s\<lparr>PagesVerified := PagesVerified s + 1\<rparr>"
  using assms by (auto simp: verifyPage_def pages_ok_def split: option.splits if_splits)

lemma write_some_pages_ok:
  "pages_ok s \<Longrightarrow> write_some rng draw pages n iter s = Some s' \<Longrightarrow>
   pages_ok s' \<and> length (buf s') = length (buf s) \<and> IntegrityErrors s' = IntegrityErrors s \<and>
   PagesVerified s' = PagesVerified s"
proof (induction n arbitrary: draw s)
  case (Suc n)
  then obtain p s1 where "writePage p iter s = Some s1" "write_some rng (Suc draw) pages n iter s1 = Some s'"
    by (auto simp: bind_eq_Some_conv)
  with Suc writePage_pages_ok show ?case by metis
qed simp

lemma verify_some_pages_ok:
  "pages_ok s \<Longrightarrow> verify_some rng draw pages n s = Some s' \<Longrightarrow>
   s' = s\<lparr>PagesVerified := PagesVerified s + int n\<rparr>"
proof (induction n arbitrary: draw s)
  case (Suc n)
  then obtain p s1 where "verifyPage p s = Some s1" "verify_some rng (Suc draw) pages n s1 = Some s'"
    by (auto simp: bind_eq_Some_conv)
  moreover have s1: "s1 = s\<lparr>PagesVerified := PagesVerified s + 1\<rparr>"
    using verifyPage_pages_ok [OF Suc.prems(1)] calculation(1) by blast
  moreover have "pages_ok s1"
    using Suc.prems(1) by (simp add: pages_ok_def s1)
  ultimately have "s' = s1\<lparr>PagesVerified := PagesVerified s1 + int n\<rparr>"
    using Suc.IH by blast
  then show ?case by (simp add: s1)
qed simp

lemma run_turn_pages_ok:
  assumes "pages_ok s" "run_turn rng mbps iter draw s = Some (draw', s')"
  shows "pages_ok s' \<and> length (buf s') = length (buf s) \<and> IntegrityErrors s' = IntegrityErrors s \<and>
    PagesVerified s' = PagesVerified s + 32"
proof -
  let ?pages = "length (buf s) div pageSize" and ?n = "nat (pages_per_ms mbps)"
  obtain s2 s3 where w: "write_some rng draw ?pages ?n iter (s\<lparr>Iterations := iter\<rparr>) = Some s2"
    and v: "verify_some rng (draw + ?n) ?pages 32 s2 = Some s3" and s3: "s' = s3"
    using assms(2) by (auto simp: run_turn_def Let_def bind_eq_Some_conv)
  have "pages_ok (s\<lparr>Iterations := iter\<rparr>)"
    using assms(1) by (simp add: pages_ok_def)
  from write_some_pages_ok [OF this w] show ?thesis
    using verify_some_pages_ok [OF _ v] s3 by (simp add: pages_ok_def)
qed

lemma Run_pages_ok:
  "pages_ok s \<Longrightarrow> Run rng mbps n iter draw s = Some s' \<Longrightarrow>
   pages_ok s' \<and> IntegrityErrors s' = IntegrityErrors s \<and> PagesVerified s' = PagesVerified s + 32 * int n"
proof (induction n arbitrary: iter draw s)
  case (Suc n)
  then obtain draw' s1 where "run_turn rng (mbps n) (iter + 1) draw s = Some (draw', s1)"
      "Run rng mbps n (iter + 1) draw' s1 = Some s'"
    by (auto simp: bind_eq_Some_conv)
  with Suc run_turn_pages_ok [OF Suc.prems(1)] show ?case by fastforce
qed simp

lemma writePage_in_buf: "in_buf (buf s) p \<Longrightarrow> \<exists>s'. writePage p iter s = Some s' \<and> length (buf s') = length (buf s)"
  using in_buf_room [of "buf s" p] by (simp add: writePage_eq)

lemma verifyPage_in_buf: "in_buf (buf s) p \<Longrightarrow> \<exists>s'. verifyPage p s = Some s' \<and> buf s' = buf s"
  by (simp add: verifyPage_def page_slice_eq Let_def)

lemma Intn_in_buf:
  assumes "pageSize \<le> length b"
  obtains p where "Intn rng draw (length b div pageSize) = Some p" "in_buf b p"
proof -
  let ?n = "length b div pageSize"
  have pos: "0 < ?n"
    using assms by (simp add: pageSize_def div_greater_zero_iff)
  then have "Suc (rng draw mod ?n) \<le> ?n" by (simp add: Suc_le_eq)
  then have "Suc (rng draw mod ?n) * pageSize \<le> length b"
    using mult_le_mono1 [of _ ?n pageSize] div_times_less_eq_dividend le_trans by blast
  then have "in_buf b (int (rng draw mod ?n))"
    by (simp add: in_buf_def nat_add_distrib)
  with pos that show ?thesis by (simp add: Intn_def)
qed

lemma write_some_total:
  "pageSize \<le> length (buf s) \<Longrightarrow> pages = length (buf s) div pageSize \<Longrightarrow>
   \<exists>s'. write_some rng draw pages n iter s = Some s' \<and> length (buf s') = length (buf s)"
proof (induction n arbitrary: draw s)
  case (Suc n)
  obtain p where p: "Intn rng draw pages = Some p" "in_buf (buf s) p"
    using Intn_in_buf [OF Suc.prems(1)] Suc.prems(2) by metis
  obtain s1 where s1: "writePage p iter s = Some s1" "length (buf s1) = length (buf s)"
    using writePage_in_buf [OF p(2)] by blast
  then show ?case using Suc.IH [of s1 "Suc draw"] Suc.prems p(1) by simp
qed simp

lemma verify_some_total:
  "pageSize \<le> length (buf s) \<Longrightarrow> pages = length (buf s) div pageSize \<Longrightarrow>
   \<exists>s'. verify_some rng draw pages n s = Some s' \<and> length (buf s') = length (buf s)"
proof (induction n arbitrary: draw s)
  case (Suc n)
  obtain p where p: "Intn rng draw pages = Some p" "in_buf (buf s) p"
    using Intn_in_buf [OF Suc.prems(1)] Suc.prems(2) by metis
  obtain s1 where s1: "verifyPage p s = Some s1" "buf s1 = buf s"
    using verifyPage_in_buf [OF p(2)] by blast
  then show ?case using Suc.IH [of s1 "Suc draw"] Suc.prems p(1) by simp
qed simp

lemma run_turn_total:
  assumes "pageSize \<le> length (buf s)"
  shows "\<exists>draw' s'. run_turn rng mbps iter draw s = Some (draw', s') \<and> length (buf s') = length (buf s)"
proof -
  let ?pages = "length (buf s) div pageSize" and ?n = "nat (pages_per_ms mbps)"
  obtain s2 where s2: "write_some rng draw ?pages ?n iter (s\<lparr>Iterations := iter\<rparr>) = Some s2"
      "length (buf s2) = length (buf s)"
    using write_some_total [of "s\<lparr>Iterations := iter\<rparr>" ?pages rng draw ?n iter] assms by auto
  moreover obtain s3 where "verify_some rng (draw + ?n) ?pages 32 s2 = Some s3" "length (buf s3) = length (buf s2)"
    using verify_some_total [of s2 ?pages rng "draw + ?n" 32] assms s2(2) by auto
  ultimately show ?thesis by (simp add: run_turn_def Let_def)
qed

lemma Run_total:
  "pageSize \<le> length (buf s) \<Longrightarrow> \<exists>s'. Run rng mbps n iter draw s = Some s'"
proof (induction n arbitrary: iter draw s)
  case (Suc n)
  obtain draw' s1 where "run_turn rng (mbps n) (iter + 1) draw s = Some (draw', s1)" "length (buf s1) = length (buf s)"
    using run_turn_total [OF Suc.prems] by blast
  then show ?case using Suc.IH [of s1] Suc.prems by simp
qed simp

text \<open>Initialisation writes the pages in order: those below the counter are images.\<close>

lemma init_pages_ok:
  assumes "p + n = length (buf s) div pageSize"
    and "\<forall>q pg. 0 \<le> q \<longrightarrow> q < int p \<longrightarrow> page_slice (buf s) q = Some pg \<longrightarrow> page_ok q pg"
  shows "\<exists>s'. init_pages n p s = Some s' \<and> pages_ok s' \<and> length (buf s') = length (buf s) \<and>
    IntegrityErrors s' = IntegrityErrors s \<and> PagesVerified s' = PagesVerified s"
  using assms
proof (induction n arbitrary: p s)
  case 0
  have "q < int p" if "in_buf (buf s) q" for q
  proof -
    have "nat (q + 1) \<le> length (buf s) div pageSize"
      using that by (simp add: in_buf_def less_eq_div_iff_mult_less_eq pageSize_def)
    with that 0 show ?thesis by (simp add: in_buf_def)
  qed
  then have "pages_ok s"
    using 0 by (auto simp: pages_ok_def page_slice_Some in_buf_def)
  then show ?case by simp
next
  case (Suc n)
  have inb: "in_buf (buf s) (int p)"
  proof -
    have "Suc p * pageSize \<le> length (buf s) div pageSize * pageSize"
      using Suc.prems(1) by (intro mult_le_mono1) simp
    then have "Suc p * pageSize \<le> length (buf s)"
      using div_times_less_eq_dividend le_trans by blast
    then show ?thesis by (simp add: in_buf_def nat_add_distrib)
  qed
  let ?s = "s\<lparr>buf := put_at (buf s) (nat (int p) * pageSize) (page_image (word_of_int (int p)) 0)\<rparr>"
  have w: "writePage (int p) 0 s = Some ?s"
    using inb by (simp add: writePage_eq)
  have len: "length (buf ?s) = length (buf s)"
    using in_buf_room [OF inb] by simp
  have "page_ok q pg" if "0 \<le> q" "q < int (Suc p)" "page_slice (buf ?s) q = Some pg" for q pg
    using that Suc.prems(2) page_slice_put [OF inb, of "page_image (word_of_int (int p)) 0" q]
      page_ok_page_image [of "int p" 0] by (auto split: if_splits)
  then obtain s' where "init_pages n (Suc p) ?s = Some s' \<and> pages_ok s' \<and> length (buf s') = length (buf ?s) \<and>
      IntegrityErrors s' = IntegrityErrors ?s \<and> PagesVerified s' = PagesVerified ?s"
    using Suc.IH [of "Suc p" ?s] Suc.prems(1) len by auto
  then show ?case using w len by simp
qed

section \<open>Splitmix64 is injective\<close>

definition mix64 :: "u64 \<Rightarrow> u64" where
  "mix64 z =
     (let z = (z XOR drop_bit 30 z) * 0xbf58476d1ce4e5b9;
          z = (z XOR drop_bit 27 z) * 0x94d049bb133111eb
      in z XOR drop_bit 31 z)"

lemma ks_next_mix: "ks_next k = (mix64 (state k + 0x9e3779b97f4a7c15), k\<lparr>state := state k + 0x9e3779b97f4a7c15\<rparr>)"
  by (simp add: ks_next_def mix64_def Let_def)

lemma xorshift_inj:
  fixes x y :: u64
  assumes "0 < k" "x XOR drop_bit k x = y XOR drop_bit k y"
  shows "x = y"
proof -
  have "bit x n = bit y n" for n
  proof (induction "64 - n" arbitrary: n rule: less_induct)
    case less
    show ?case
    proof (cases "n < 64")
      case True
      then have "bit x (k + n) = bit y (k + n)"
        using less assms(1) by simp
      moreover have "(bit x n \<noteq> bit x (k + n)) = (bit y n \<noteq> bit y (k + n))"
        using arg_cong [OF assms(2), of "\<lambda>w. bit w n"] by (simp add: bit_xor_iff bit_drop_bit_eq)
      ultimately show ?thesis by blast
    next
      case False
      then show ?thesis
        using bit_imp_le_length [of x n] bit_imp_le_length [of y n] by auto
    qed
  qed
  then show ?thesis by (simp add: bit_eq_iff)
qed

lemma mult_inverse_inj:
  fixes x y c d :: u64
  assumes "c * d = 1" "x * c = y * c"
  shows "x = y"
proof -
  have "x * (c * d) = y * (c * d)"
    using assms(2) by (simp only: mult.assoc [symmetric])
  then show ?thesis by (simp add: assms(1))
qed

lemma mix64_inj: "mix64 x = mix64 y \<Longrightarrow> x = y"
proof -
  assume "mix64 x = mix64 y"
  let ?a = "0xbf58476d1ce4e5b9 :: u64" and ?b = "0x94d049bb133111eb :: u64"
  let ?u = "\<lambda>z. (z XOR drop_bit 30 z) * ?a" and ?v = "\<lambda>z. (z XOR drop_bit 27 z) * ?b"
  have a: "?a * 0x96de1b173f119089 = 1" and b: "?b * 0x319642b2d24d8ec3 = 1" by simp_all
  have "?v (?u x) XOR drop_bit 31 (?v (?u x)) = ?v (?u y) XOR drop_bit 31 (?v (?u y))"
    using \<open>mix64 x = mix64 y\<close> by (simp add: mix64_def Let_def)
  then have "?v (?u x) = ?v (?u y)" by (rule xorshift_inj [rotated]) simp
  then have "?u x XOR drop_bit 27 (?u x) = ?u y XOR drop_bit 27 (?u y)" by (rule mult_inverse_inj [OF b])
  then have "?u x = ?u y" by (rule xorshift_inj [rotated]) simp
  then have "x XOR drop_bit 30 x = y XOR drop_bit 30 y" by (rule mult_inverse_inj [OF a])
  then show "x = y" by (rule xorshift_inj [rotated]) simp
qed

lemma ks_words_nth:
  "i < n \<Longrightarrow> ks_words n k ! i = mix64 (state k + of_nat (Suc i) * 0x9e3779b97f4a7c15)"
proof (induction n arbitrary: k i)
  case (Suc n)
  then show ?case
    by (cases i) (simp_all add: ks_next_mix distrib_right add.assoc add.commute add.left_commute)
qed simp

definition word_at :: "byte list \<Rightarrow> nat \<Rightarrow> byte list" where
  "word_at pg k = take 8 (drop (8 * k) pg)"

lemma word_at_concat:
  "k < length ws \<Longrightarrow> word_at (concat (map (le_put 8) ws)) k = le_put 8 (ws ! k)"
proof (induction ws arbitrary: k)
  case (Cons w ws)
  then show ?case by (cases k) (simp_all add: word_at_def)
qed simp

lemma word_at_image:
  "word_at (page_image p iter) 1 = le_put 8 iter"
  "2 \<le> k \<Longrightarrow> k < 512 \<Longrightarrow>
     word_at (page_image p iter) k = le_put 8 (ks_words 510 (page_seed p iter) ! (k - 2))"
proof -
  show "word_at (page_image p iter) 1 = le_put 8 iter"
    by (simp add: word_at_def page_image_def)
  assume k: "2 \<le> k" "k < 512"
  have "word_at (page_image p iter) k = word_at (body 510 (page_seed p iter)) (k - 2)"
    using k by (simp add: word_at_def page_image_def diff_mult_distrib2)
  also have "\<dots> = le_put 8 (ks_words 510 (page_seed p iter) ! (k - 2))"
    unfolding body_def using k by (intro word_at_concat) simp
  finally show "word_at (page_image p iter) k = le_put 8 (ks_words 510 (page_seed p iter) ! (k - 2))" .
qed

text \<open>Two iterations of one page share no word after the header's first.\<close>

lemma word_at_image_distinct:
  assumes "2 \<le> k" "k < 512" "i \<noteq> j"
  shows "word_at (page_image p i) k \<noteq> word_at (page_image p j) k"
proof
  assume "word_at (page_image p i) k = word_at (page_image p j) k"
  then have "ks_words 510 (page_seed p i) ! (k - 2) = ks_words 510 (page_seed p j) ! (k - 2)"
    using word_at_image(2) [OF assms(1,2)] le64.put_inject by metis
  then have "mix64 (state (page_seed p i) + of_nat (Suc (k - 2)) * 0x9e3779b97f4a7c15) =
      mix64 (state (page_seed p j) + of_nat (Suc (k - 2)) * 0x9e3779b97f4a7c15)"
    using assms(2) ks_words_nth [of "k - 2" 510] by simp
  then have "state (page_seed p i) = state (page_seed p j)"
    by (rule mix64_inj [THEN add_right_imp_eq])
  then show False
    using assms(3) by (auto simp: page_seed_def bit_eq_iff bit_xor_iff)
qed

lemma torn_not_ok:
  assumes "length pg = pageSize" "word_at pg 1 = word_at (page_image (word_of_int p) i) 1"
    and "2 \<le> k" "k < 512" "word_at pg k = word_at (page_image (word_of_int p) j) k" "i \<noteq> j"
  shows "\<not> page_ok p pg"
proof
  assume "page_ok p pg"
  then obtain iter where pg: "pg = page_image (word_of_int p) iter"
    using page_ok_image [OF assms(1)] by blast
  with assms(2) have "iter = i"
    using word_at_image(1) le64.put_inject by metis
  with pg assms(3-6) word_at_image_distinct show False by blast
qed

section \<open>Properties of the guest workload\<close>

text \<open>
  C22: A torn page never verifies: if the header of a page carries one iteration and any 8-byte
  word of its body comes from another iteration of the same page, \<open>verifyPage\<close> counts an
  integrity error. Two iterations never agree on a body word, because splitmix64 is injective.
\<close>

theorem torn_page_detected:
  assumes "page_slice (buf s) p = Some pg"
    and "word_at pg 1 = word_at (page_image (word_of_int p) i) 1"
    and "2 \<le> k" and "k < 512"
    and "word_at pg k = word_at (page_image (word_of_int p) j) k" and "i \<noteq> j"
  shows "verifyPage p s =
    Some (s\<lparr>PagesVerified := PagesVerified s + 1, IntegrityErrors := IntegrityErrors s + 1\<rparr>)"
  using torn_not_ok [OF length_page_slice [OF assms(1)] assms(2-6)] assms(1)
  by (simp add: verifyPage_def)

theorem torn_page_detected_witness:
  "verifyPage 0 \<lparr>buf = put_at (page_image 0 1) 16 (word_at (page_image 0 2) 2),
      Iterations = 2, PagesVerified = 0, IntegrityErrors = 0\<rparr> =
    Some \<lparr>buf = put_at (page_image 0 1) 16 (word_at (page_image 0 2) 2),
      Iterations = 2, PagesVerified = 1, IntegrityErrors = 1\<rparr>"
proof -
  let ?w = "word_at (page_image 0 2) 2"
  let ?pg = "put_at (page_image 0 1) 16 ?w"
  let ?s = "\<lparr>buf = ?pg, Iterations = 2, PagesVerified = 0, IntegrityErrors = 0\<rparr>"
  have w: "length ?w = 8"
    by (simp add: word_at_def pageSize_def)
  have slice: "page_slice (buf ?s) 0 = Some ?pg"
    by (simp add: page_slice_def w pageSize_def)
  have one: "word_at ?pg 1 = word_at (page_image (word_of_int 0) 1) 1"
    unfolding word_at_def by (subst take_drop_put_at) (simp_all add: w [unfolded word_at_def] pageSize_def)
  have two: "word_at ?pg 2 = word_at (page_image (word_of_int 0) 2) 2"
    unfolding word_at_def [of ?pg] by (simp add: put_at_def w pageSize_def)
  show ?thesis
    using torn_page_detected [OF slice one _ _ two] by simp
qed



text \<open>
  A page that is stale as a whole passes: the complete image of an earlier write to the same
  page, put back in place of a later one, is verified without an error. The check recognises
  pages by their own header only.
\<close>

theorem stale_page_verifies:
  assumes "writePage p old s = Some s1" and "writePage p new s1 = Some s2"
  shows "verifyPage p (s2\<lparr>buf := buf s1\<rparr>) = Some (s2\<lparr>buf := buf s1, PagesVerified := PagesVerified s2 + 1\<rparr>)"
proof -
  have inb: "in_buf (buf s) p"
    and s1: "s1 = s\<lparr>buf := put_at (buf s) (nat p * pageSize) (page_image (word_of_int p) (word_of_int old))\<rparr>"
    using assms(1) by (auto simp: writePage_eq split: if_splits)
  then have "page_slice (buf s1) p = Some (page_image (word_of_int p) (word_of_int old))"
    by (simp add: page_slice_put)
  then show ?thesis by (simp add: verifyPage_def)
qed

theorem stale_page_verifies_witness:
  "\<exists>s1 s2. writePage 0 1 \<lparr>buf = replicate 4096 0, Iterations = 0, PagesVerified = 0, IntegrityErrors = 0\<rparr> = Some s1 \<and>
     writePage 0 2 s1 = Some s2 \<and>
     verifyPage 0 (s2\<lparr>buf := buf s1\<rparr>) = Some (s2\<lparr>buf := buf s1, PagesVerified := PagesVerified s2 + 1\<rparr>)"
proof -
  let ?s = "\<lparr>buf = replicate 4096 0, Iterations = 0, PagesVerified = 0, IntegrityErrors = 0\<rparr>"
  obtain s1 where s1: "writePage 0 1 ?s = Some s1" "length (buf s1) = length (buf ?s)"
    using writePage_in_buf [of ?s 0 1] by (auto simp: in_buf_def pageSize_def)
  obtain s2 where s2: "writePage 0 2 s1 = Some s2"
    using writePage_in_buf [of s1 0 2] s1(2) by (auto simp: in_buf_def pageSize_def)
  show ?thesis
    using s1(1) s2 stale_page_verifies [OF s1(1) s2] by blast
qed

text \<open>
  A buffer size on the command line that does not parse replaces the default of 64 MiB by 0;
  the workload then starts with an empty buffer and its first turn panics.
\<close>

theorem bad_buf_size_panics:
  "\<exists>s. start_scribbler (Some ''root=/dev/vda guestd.buf_mb=x'') = Some (0, s) \<and>
     (\<forall>rng mbps n. Run rng mbps (Suc n) 0 0 s = None)"
proof -
  have parse: "parseCmdline (Some ''root=/dev/vda guestd.buf_mb=x'') = (0, 0)"
    by (simp add: parseCmdline_def Fields_def is_space_def cmdline_step_def CutPrefix_def Atoi_def
        digit_val_def Let_def)
  let ?s = "\<lparr>buf = [], Iterations = 0, PagesVerified = 0, IntegrityErrors = 0\<rparr>"
  have "start_scribbler (Some ''root=/dev/vda guestd.buf_mb=x'') = Some (0, ?s)"
    by (simp add: start_scribbler_def parse NewScribbler_def i64_def)
  moreover have "verify_some rng draw 0 32 s = None" for rng draw s
    by (simp add: numeral_eq_Suc Intn_def)
  then have "Run rng mbps (Suc n) 0 0 ?s = None" for rng mbps n
    by (cases "nat (pages_per_ms (mbps n))") (simp_all add: run_turn_def Intn_def Let_def)
  ultimately show ?thesis by blast
qed

end
