(* ===== verification/Err_State.thy ===== *)
theory Err_State
  imports Mig_Prelude
begin

text \<open>
  Go functions that change state and may return an error, as functions from a state to a result
  and the next state. \<open>bindE\<close> is the pattern \<open>if err != nil { return err }\<close>: the state
  changes made before an error are kept. The Hoare triple \<open>triple P m Q E\<close> has one
  postcondition for a normal return and one for an error.
\<close>

named_theorems act_simps \<open>evaluation of the error-state combinators\<close>
named_theorems triple_rules \<open>composition rules of the Hoare triples\<close>

type_synonym ('s, 'a) act = "'s \<Rightarrow> (gerror + 'a) \<times> 's"

definition retE :: "'a \<Rightarrow> ('s, 'a) act" where
  "retE x s = (Inr x, s)"

definition failE :: "gerror \<Rightarrow> ('s, 'a) act" where
  "failE e s = (Inl e, s)"

definition bindE :: "('s, 'a) act \<Rightarrow> ('a \<Rightarrow> ('s, 'b) act) \<Rightarrow> ('s, 'b) act" where
  "bindE m f s = (case m s of (Inl e, s') \<Rightarrow> (Inl e, s') | (Inr x, s') \<Rightarrow> f x s')"

abbreviation thenE :: "('s, 'a) act \<Rightarrow> ('s, 'b) act \<Rightarrow> ('s, 'b) act" where
  "thenE m n \<equiv> bindE m (\<lambda>_. n)"

definition askE :: "('s \<Rightarrow> 'a) \<Rightarrow> ('s, 'a) act" where
  "askE f s = (Inr (f s), s)"

definition modE :: "('s \<Rightarrow> 's) \<Rightarrow> ('s, unit) act" where
  "modE f s = (Inr (), f s)"

text \<open>The error wrapped by \<open>fmt.Errorf("...: %w", err)\<close>.\<close>

definition wrapE :: "string \<Rightarrow> arg list \<Rightarrow> ('s, 'a) act \<Rightarrow> ('s, 'a) act" where
  "wrapE msg args m s = (case m s of (Inl e, s') \<Rightarrow> (Inl (Wrap msg args e), s') | r \<Rightarrow> r)"

text \<open>The error as a value, where the code looks at \<open>err\<close> itself.\<close>

definition tryE :: "('s, 'a) act \<Rightarrow> ('s, gerror + 'a) act" where
  "tryE m s = (case m s of (r, s') \<Rightarrow> (Inr r, s'))"

text \<open>A deferred call: it runs after the rest, whose result stands.\<close>

definition deferE :: "('s, 'b) act \<Rightarrow> ('s, 'a) act \<Rightarrow> ('s, 'a) act" where
  "deferE d m s = (case m s of (r, s') \<Rightarrow> (r, snd (d s')))"

section \<open>Evaluation and inversion\<close>

lemma retE_run [act_simps]: "retE x s = (r, s') \<longleftrightarrow> r = Inr x \<and> s' = s"
  by (auto simp: retE_def)

lemma failE_run [act_simps]: "failE e s = (r, s') \<longleftrightarrow> r = Inl e \<and> s' = s"
  by (auto simp: failE_def)

lemma askE_run [act_simps]: "askE f s = (r, s') \<longleftrightarrow> r = Inr (f s) \<and> s' = s"
  by (auto simp: askE_def)

lemma modE_run [act_simps]: "modE f s = (r, s') \<longleftrightarrow> r = Inr () \<and> s' = f s"
  by (auto simp: modE_def)

lemma bindE_ok [act_simps]:
  "bindE m f s = (Inr y, s') \<longleftrightarrow> (\<exists>x s1. m s = (Inr x, s1) \<and> f x s1 = (Inr y, s'))"
  by (auto simp: bindE_def split: prod.splits sum.splits)

lemma bindE_err [act_simps]:
  "bindE m f s = (Inl e, s') \<longleftrightarrow>
     m s = (Inl e, s') \<or> (\<exists>x s1. m s = (Inr x, s1) \<and> f x s1 = (Inl e, s'))"
  by (auto simp: bindE_def split: prod.splits sum.splits)

lemma wrapE_ok [act_simps]: "wrapE msg args m s = (Inr y, s') \<longleftrightarrow> m s = (Inr y, s')"
  by (auto simp: wrapE_def split: prod.splits sum.splits)

lemma wrapE_err [act_simps]:
  "wrapE msg args m s = (Inl e, s') \<longleftrightarrow> (\<exists>e'. e = Wrap msg args e' \<and> m s = (Inl e', s'))"
  by (auto simp: wrapE_def split: prod.splits sum.splits)

lemma tryE_run [act_simps]: "tryE m s = (r, s') \<longleftrightarrow> (\<exists>r'. r = Inr r' \<and> m s = (r', s'))"
  by (auto simp: tryE_def split: prod.splits)

lemma deferE_run [act_simps]: "deferE d m s = (r, s') \<longleftrightarrow> (\<exists>s1. m s = (r, s1) \<and> s' = snd (d s1))"
  by (auto simp: deferE_def split: prod.splits)

lemma bindE_retE [simp]: "bindE (retE x) f = f x"
  by (rule ext) (simp add: bindE_def retE_def)

lemma bindE_failE [simp]: "bindE (failE e) f = failE e"
  by (rule ext) (simp add: bindE_def failE_def)

lemma bindE_assoc: "bindE (bindE m f) g = bindE m (\<lambda>x. bindE (f x) g)"
  by (rule ext) (simp add: bindE_def split: prod.split sum.split)

section \<open>Hoare triples\<close>

definition triple ::
  "('s \<Rightarrow> bool) \<Rightarrow> ('s, 'a) act \<Rightarrow> ('a \<Rightarrow> 's \<Rightarrow> bool) \<Rightarrow> ('s \<Rightarrow> bool) \<Rightarrow> bool" where
  "triple P m Q E \<longleftrightarrow> (\<forall>s. P s \<longrightarrow> (case m s of (Inl e, s') \<Rightarrow> E s' | (Inr x, s') \<Rightarrow> Q x s'))"

lemma tripleI:
  assumes "\<And>s x s'. P s \<Longrightarrow> m s = (Inr x, s') \<Longrightarrow> Q x s'"
    and "\<And>s e s'. P s \<Longrightarrow> m s = (Inl e, s') \<Longrightarrow> E s'"
  shows "triple P m Q E"
  using assms unfolding triple_def by (auto split: prod.split sum.split)

lemma triple_okD: "triple P m Q E \<Longrightarrow> P s \<Longrightarrow> m s = (Inr x, s') \<Longrightarrow> Q x s'"
  unfolding triple_def by fastforce

lemma triple_errD: "triple P m Q E \<Longrightarrow> P s \<Longrightarrow> m s = (Inl e, s') \<Longrightarrow> E s'"
  unfolding triple_def by fastforce

lemma triple_bind [triple_rules]:
  assumes "triple P m R E" and "\<And>x. triple (R x) (f x) Q E"
  shows "triple P (bindE m f) Q E"
proof (rule tripleI)
  fix s y s' assume "P s" "bindE m f s = (Inr y, s')"
  then obtain x s1 where "m s = (Inr x, s1)" "f x s1 = (Inr y, s')"
    by (auto simp: bindE_ok)
  then show "Q y s'"
    using triple_okD [OF assms(1)] triple_okD [OF assms(2)] \<open>P s\<close> by blast
next
  fix s e s' assume "P s" "bindE m f s = (Inl e, s')"
  then consider "m s = (Inl e, s')" | x s1 where "m s = (Inr x, s1)" "f x s1 = (Inl e, s')"
    by (auto simp: bindE_err)
  then show "E s'"
  proof cases
    case 1
    then show ?thesis using triple_errD [OF assms(1)] \<open>P s\<close> by blast
  next
    case 2
    then show ?thesis using triple_okD [OF assms(1)] triple_errD [OF assms(2)] \<open>P s\<close> by blast
  qed
qed

lemma triple_ret [triple_rules]: "triple (Q x) (retE x) Q E"
  by (simp add: triple_def retE_def)

lemma triple_fail [triple_rules]: "triple E (failE e) Q E"
  by (simp add: triple_def failE_def)

lemma triple_ask [triple_rules]: "triple (\<lambda>s. Q (f s) s) (askE f) Q E"
  by (simp add: triple_def askE_def)

lemma triple_mod [triple_rules]: "triple (\<lambda>s. Q () (f s)) (modE f) Q E"
  by (simp add: triple_def modE_def)

lemma triple_wrap [triple_rules]: "triple P m Q E \<Longrightarrow> triple P (wrapE msg args m) Q E"
  by (rule tripleI) (auto simp: act_simps dest: triple_okD triple_errD)

lemma triple_try [triple_rules]:
  assumes "triple P m (\<lambda>x. Q (Inr x)) (\<lambda>s. \<forall>e. Q (Inl e) s)"
  shows "triple P (tryE m) Q E"
proof (rule tripleI)
  fix s r s' assume "P s" "tryE m s = (Inr r, s')"
  then show "Q r s'"
    using triple_okD [OF assms] triple_errD [OF assms] by (cases r) (auto simp: act_simps)
qed (simp add: act_simps)

lemma triple_conseq:
  assumes "triple P m Q E" and "\<And>s. P' s \<Longrightarrow> P s" and "\<And>x s. Q x s \<Longrightarrow> Q' x s" and "\<And>s. E s \<Longrightarrow> E' s"
  shows "triple P' m Q' E'"
  by (rule tripleI) (blast intro: assms(2-4) triple_okD [OF assms(1)] triple_errD [OF assms(1)])+

text \<open>A state predicate an action keeps, whether it fails or not.\<close>

definition keeps :: "('s \<Rightarrow> bool) \<Rightarrow> ('s, 'a) act \<Rightarrow> bool" where
  "keeps P m \<longleftrightarrow> triple P m (\<lambda>_. P) P"

lemma keepsI: "(\<And>s r s'. P s \<Longrightarrow> m s = (r, s') \<Longrightarrow> P s') \<Longrightarrow> keeps P m"
  unfolding keeps_def triple_def by (auto split: prod.split sum.split)

lemma keepsD: "keeps P m \<Longrightarrow> P s \<Longrightarrow> m s = (r, s') \<Longrightarrow> P s'"
  unfolding keeps_def triple_def by (cases r) fastforce+

lemma keeps_bind [triple_rules]: "keeps P m \<Longrightarrow> (\<And>x. keeps P (f x)) \<Longrightarrow> keeps P (bindE m f)"
  unfolding keeps_def by (rule triple_bind)

lemma keeps_basic [triple_rules]:
  "keeps P (retE x)" "keeps P (failE e)" "keeps P (askE g)"
  by (auto simp: keeps_def triple_def retE_def failE_def askE_def)

lemma keeps_mod: "(\<And>s. P s \<Longrightarrow> P (f s)) \<Longrightarrow> keeps P (modE f)"
  by (auto simp: keeps_def triple_def modE_def)

lemma keeps_wrap [triple_rules]: "keeps P m \<Longrightarrow> keeps P (wrapE msg args m)"
  unfolding keeps_def by (rule triple_wrap)

lemma keeps_try [triple_rules]: "keeps P m \<Longrightarrow> keeps P (tryE m)"
  by (rule keepsI) (auto simp: act_simps dest: keepsD)

end
