(* ===== verification/Crc32.thy ===== *)
theory Crc32
  imports Mig_Prelude
begin

unbundle bit_operations_syntax

text \<open>
  The IEEE CRC-32 digest of the standard library (\<open>hash/crc32\<close>), which the sparse wire format
  uses as its trailer: the reflected polynomial, the running digest of \<open>crc32.NewIEEE\<close>, and the
  checksum interface the transfer protocol relies on.
\<close>

definition crc_poly :: u32 where
  "crc_poly = 0xEDB88320"

definition crc_shift :: "u32 \<Rightarrow> u32" where
  "crc_shift s = (if bit s 0 then drop_bit 1 s XOR crc_poly else drop_bit 1 s)"

definition crc_byte :: "u32 \<Rightarrow> byte \<Rightarrow> u32" where
  "crc_byte s b = (crc_shift ^^ 8) (s XOR ucast b)"

text \<open>\<open>digest.Write\<close>: the stored value is the complement of the shift register.\<close>

definition crc_write :: "u32 \<Rightarrow> byte list \<Rightarrow> u32" where
  "crc_write c bs = NOT (foldl crc_byte (NOT c) bs)"

definition crc_new :: u32 where
  "crc_new = 0"

lemma xor_cancel_right: "a XOR c = b XOR c \<longleftrightarrow> a = (b :: 'a::len word)"
  by (auto simp: bit_eq_iff bit_xor_iff)

lemma xor_cancel_left: "c XOR a = c XOR b \<longleftrightarrow> a = (b :: 'a::len word)"
  by (auto simp: bit_eq_iff bit_xor_iff)

lemma ucast_byte_inject: "(ucast (a :: byte) :: u32) = ucast b \<longleftrightarrow> a = b"
  using bit_imp_le_length [of a] bit_imp_le_length [of b]
  by (auto simp: bit_eq_iff bit_simps) fastforce+

lemma crc_poly_top: "bit crc_poly 31"
  by (simp add: crc_poly_def)

lemma crc_shift_top: "bit (crc_shift s) 31 = bit s 0"
  using bit_imp_le_length [of s 32] crc_poly_top
  by (auto simp: crc_shift_def bit_xor_iff bit_drop_bit_eq)

lemma inj_crc_shift: "inj crc_shift"
proof (rule injI)
  fix s t :: u32
  assume eq: "crc_shift s = crc_shift t"
  then have low: "bit s 0 = bit t 0"
    using crc_shift_top by metis
  with eq have "drop_bit 1 s = drop_bit 1 t"
    by (simp add: crc_shift_def xor_cancel_right split: if_splits)
  then have "bit s (Suc n) = bit t (Suc n)" for n
    by (metis bit_drop_bit_eq add.commute comp_apply plus_1_eq_Suc)
  with low have "bit s n = bit t n" for n
    by (cases n) auto
  then show "s = t"
    by (simp add: bit_eq_iff)
qed

lemma inj_crc_shift8: "inj (crc_shift ^^ 8)"
  using inj_crc_shift inj_fn by blast

lemma crc_byte_state: "crc_byte s b = crc_byte t b \<longleftrightarrow> s = t"
  by (simp only: crc_byte_def inj_eq [OF inj_crc_shift8] xor_cancel_right)

lemma crc_byte_data: "crc_byte s a = crc_byte s b \<longleftrightarrow> a = b"
  by (simp only: crc_byte_def inj_eq [OF inj_crc_shift8] xor_cancel_left ucast_byte_inject)


section \<open>The checksum interface\<close>

text \<open>
  What the transfer protocol uses of its checksum: writes may be split at any point, and the
  state after one byte determines that byte and the state before it. Every checksum with these
  two laws detects the corruption of a single byte, wherever it lies and whatever follows it.
\<close>

locale stream_checksum =
  fixes feed :: "'s \<Rightarrow> byte list \<Rightarrow> 's"
  assumes feed_append: "feed s (xs @ ys) = feed (feed s xs) ys"
    and feed_nil: "feed s [] = s"
    and feed_state: "feed s [b] = feed t [b] \<Longrightarrow> s = t"
    and feed_data: "feed s [a] = feed s [b] \<Longrightarrow> a = b"
begin

lemma feed_state_list: "feed s bs = feed t bs \<Longrightarrow> s = t"
proof (induction bs arbitrary: s t)
  case Nil
  then show ?case by (simp add: feed_nil)
next
  case (Cons b bs)
  from Cons.prems have "feed (feed s [b]) bs = feed (feed t [b]) bs"
    by (metis append_Cons append_Nil feed_append)
  then have "feed s [b] = feed t [b]" by (rule Cons.IH)
  then show ?case by (rule feed_state)
qed

lemma detects_byte:
  assumes "feed s (xs @ a # ys) = feed s (xs @ b # ys)"
  shows "a = b"
proof -
  have "feed (feed (feed s xs) [a]) ys = feed (feed (feed s xs) [b]) ys"
    using assms by (metis append_Cons append_Nil feed_append)
  then have "feed (feed s xs) [a] = feed (feed s xs) [b]"
    by (rule feed_state_list)
  then show ?thesis by (rule feed_data)
qed

end

interpretation crc: stream_checksum crc_write
  by unfold_locales (simp_all add: crc_write_def crc_byte_state crc_byte_data)

text \<open>
  Evaluation on concrete bytes, and the published check value of CRC-32/IEEE: the digest of the
  ASCII digits 1 to 9.
\<close>

lemma crc_byte_unfold:
  "crc_byte s b = crc_shift (crc_shift (crc_shift (crc_shift
     (crc_shift (crc_shift (crc_shift (crc_shift (s XOR ucast b))))))))"
  by (simp add: crc_byte_def numeral_eq_Suc)

lemmas crc_eval = crc_write_def crc_new_def crc_byte_unfold crc_shift_def crc_poly_def

lemma crc_check_value:
  "crc_write crc_new [0x31, 0x32, 0x33, 0x34, 0x35, 0x36, 0x37, 0x38, 0x39] = 0xCBF43926"
  by (simp add: crc_eval)

end
