(* ===== verification/Sparse.thy ===== *)
theory Sparse
  imports Crc32
begin

text \<open>
  The package \<open>internal/sparse\<close>: walking the data extents of a sparse file, streaming them as
  wire records (\<open>Send\<close>) and applying such a stream to a destination file (\<open>Receive\<close>).
  The kernel's \<open>SEEK_DATA\<close>/\<open>SEEK_HOLE\<close> is a parameter, with its documented behaviour as the
  predicate \<open>lseek_ok\<close>. Offsets and counts are \<open>int64\<close> in the source and stay below the file
  size there; they are \<open>int\<close> here, and the conversions to the unsigned words of the wire
  format are written out.
\<close>

section \<open>Data model\<close>

datatype whence = SEEK_DATA | SEEK_HOLE

datatype errno = ENXIO | Errno int

type_synonym lseek = "whence \<Rightarrow> int \<Rightarrow> errno + int"

definition magic :: "byte list" where
  "magic = [0x46, 0x43, 0x4D, 0x47]"

definition trailerOffset :: u64 where
  "trailerOffset = not 0"

definition maxExtentChunk :: int where
  "maxExtentChunk = 4194304"

record Extent =
  Offset :: int
  Length :: int

definition errno_error :: "errno \<Rightarrow> gerror" where
  "errno_error e = (case e of ENXIO \<Rightarrow> Err ''no such device or address'' []
     | Errno n \<Rightarrow> Err ''errno %d'' [AInt n])"

section \<open>Walking extents\<close>

text \<open>
  The loop of \<open>WalkExtents\<close>. Nothing in the code bounds it when the kernel reports holes that
  do not lie after the data, so the model spends fuel, one unit per extent; a file of \<open>n\<close> bytes
  has at most \<open>n\<close> extents, and \<open>WalkExtents_correct\<close> shows that \<open>n + 1\<close> units always
  suffice under the documented behaviour of \<open>lseek\<close>.
\<close>

fun walk_loop :: "lseek \<Rightarrow> nat \<Rightarrow> int \<Rightarrow> int \<Rightarrow> Extent list \<Rightarrow> gerror + Extent list" where
  "walk_loop sk 0 sz off extents = Inl (Err ''extent walk does not end'' [])"
| "walk_loop sk (Suc fuel) sz off extents =
     (if off < sz then
        (case sk SEEK_DATA off of
           Inl ENXIO \<Rightarrow> Inr extents
         | Inl e \<Rightarrow> Inl (Wrap ''SEEK_DATA at %d: %w'' [AInt off] (errno_error e))
         | Inr dataStart \<Rightarrow>
             (case sk SEEK_HOLE dataStart of
                Inl e \<Rightarrow> Inl (Wrap ''SEEK_HOLE at %d: %w'' [AInt dataStart] (errno_error e))
              | Inr holeStart \<Rightarrow>
                  walk_loop sk fuel sz holeStart
                    (extents @ [\<lparr>Offset = dataStart, Length = holeStart - dataStart\<rparr>])))
      else Inr extents)"

definition WalkExtents :: "lseek \<Rightarrow> sfile \<Rightarrow> gerror + Extent list" where
  "WalkExtents sk f = walk_loop sk (Suc (length f)) (int (length f)) 0 []"

fun TotalBytes_loop :: "int \<Rightarrow> Extent list \<Rightarrow> int" where
  "TotalBytes_loop n [] = n"
| "TotalBytes_loop n (e # es) = TotalBytes_loop (n + Length e) es"

definition TotalBytes :: "Extent list \<Rightarrow> int" where
  "TotalBytes extents = TotalBytes_loop 0 extents"

section \<open>Send\<close>

text \<open>
  An \<open>io.Writer\<close> that accepts bytes up to an optional limit and fails afterwards, as the write
  end of a pipe does once its reader has gone.
\<close>

record writer =
  out :: "byte list"
  limit :: "nat option"

definition Write :: "byte list \<Rightarrow> writer \<Rightarrow> gerror option \<times> writer" where
  "Write bs w =
     (case limit w of
        None \<Rightarrow> (None, w\<lparr>out := out w @ bs\<rparr>)
      | Some n \<Rightarrow>
          if length (out w) + length bs \<le> n then (None, w\<lparr>out := out w @ bs\<rparr>)
          else (Some (Err ''io: read/write on closed pipe'' []),
                w\<lparr>out := take n (out w @ bs)\<rparr>))"

record sender =
  wr :: writer
  crc_st :: u32
  sent :: int

definition wire_head :: "int \<Rightarrow> int \<Rightarrow> byte list" where
  "wire_head off n = be_put 8 (word_of_int off :: u64) @ be_put 4 (word_of_int n :: u32)"

text \<open>One pass of the inner loop body: read a chunk, write its record, update digest and count.\<close>

definition send_chunk :: "sfile \<Rightarrow> int \<Rightarrow> int \<Rightarrow> sender \<Rightarrow> gerror option \<times> sender" where
  "send_chunk f chunkOff n st =
     (case ReadAt f n chunkOff of
        Inl e \<Rightarrow> (Some (Wrap ''read extent at %d: %w'' [AInt chunkOff] e), st)
      | Inr buf \<Rightarrow>
          (case Write (wire_head chunkOff n) (wr st) of
             (Some e, w) \<Rightarrow> (Some e, st\<lparr>wr := w\<rparr>)
           | (None, w) \<Rightarrow>
               (case Write buf w of
                  (Some e, w') \<Rightarrow> (Some e, st\<lparr>wr := w'\<rparr>)
                | (None, w') \<Rightarrow>
                    (None, st\<lparr>wr := w', crc_st := crc_write (crc_st st) buf, sent := sent st + n\<rparr>))))"

function send_extent :: "sfile \<Rightarrow> int \<Rightarrow> int \<Rightarrow> sender \<Rightarrow> gerror option \<times> sender" where
  "send_extent f chunkOff stop st =
     (if chunkOff < stop then
        (case send_chunk f chunkOff (min maxExtentChunk (stop - chunkOff)) st of
           (Some e, st') \<Rightarrow> (Some e, st')
         | (None, st') \<Rightarrow> send_extent f (chunkOff + maxExtentChunk) stop st')
      else (None, st))"
  by pat_completeness auto
termination
  by (relation "measure (\<lambda>(f, off, stop, st). nat (stop - off))") (auto simp: maxExtentChunk_def)

declare send_extent.simps [simp del]

fun send_extents :: "sfile \<Rightarrow> Extent list \<Rightarrow> sender \<Rightarrow> gerror option \<times> sender" where
  "send_extents f [] st = (None, st)"
| "send_extents f (e # es) st =
     (case send_extent f (Offset e) (Offset e + Length e) st of
        (Some err, st') \<Rightarrow> (Some err, st')
      | (None, st') \<Rightarrow> send_extents f es st')"

text \<open>\<open>Send\<close> returns the payload count, the error if any, and the writer.\<close>

definition Send :: "lseek \<Rightarrow> writer \<Rightarrow> sfile \<Rightarrow> int \<times> gerror option \<times> writer" where
  "Send sk w f =
     (case WalkExtents sk f of
        Inl e \<Rightarrow> (0, Some e, w)
      | Inr extents \<Rightarrow>
          (case Write (magic @ be_put 8 (word_of_int (int (length f)) :: u64)) w of
             (Some e, w1) \<Rightarrow> (0, Some e, w1)
           | (None, w1) \<Rightarrow>
               (case send_extents f extents \<lparr>wr = w1, crc_st = crc_new, sent = 0\<rparr> of
                  (Some e, st) \<Rightarrow> (sent st, Some e, wr st)
                | (None, st) \<Rightarrow>
                    (case Write (be_put 8 trailerOffset @ be_put 4 (crc_st st)) (wr st) of
                       (err, w2) \<Rightarrow> (sent st, err, w2)))))"

section \<open>Receive\<close>

text \<open>\<open>io.ReadFull\<close> on a byte stream: all the bytes asked for, or an error.\<close>

definition ReadFull :: "nat \<Rightarrow> byte list \<Rightarrow> gerror + byte list \<times> byte list" where
  "ReadFull n r =
     (if n \<le> length r then Inr (take n r, drop n r)
      else Inl (Err (if r = [] then ''EOF'' else ''unexpected EOF'') []))"

text \<open>
  The record loop. \<open>off+uint64(length)\<close> is the wrapping addition of the source, and the offset
  reaches \<open>WriteAt\<close> through the signed conversion \<open>int64(off)\<close>.
\<close>

function recv_loop :: "u64 \<Rightarrow> byte list \<Rightarrow> u32 \<Rightarrow> int \<Rightarrow> sfile \<Rightarrow> int \<times> gerror option \<times> sfile" where
  "recv_loop sz r c written f =
     (case ReadFull 12 r of
        Inl e \<Rightarrow> (written, Some (Wrap ''read record header: %w'' [] e), f)
      | Inr (hd12, r1) \<Rightarrow>
          (let off = (be_get (take 8 hd12) :: u64);
               len = (be_get (drop 8 hd12) :: u32)
           in if off = trailerOffset then
                (if c \<noteq> len
                 then (written, Some (Err ''payload CRC mismatch: got %08x want %08x''
                                        [AInt (uint c), AInt (uint len)]), f)
                 else (written, None, f))
              else if uint len > maxExtentChunk
              then (written, Some (Err ''oversized extent record: %d bytes'' [AInt (uint len)]), f)
              else if off + ucast len > sz
              then (written, Some (Err ''extent [%d,+%d) beyond file size %d''
                                     [AInt (uint off), AInt (uint len), AInt (uint sz)]), f)
              else
                (case ReadFull (unat len) r1 of
                   Inl e \<Rightarrow> (written, Some (Wrap ''read extent payload: %w'' [] e), f)
                 | Inr (buf, r2) \<Rightarrow>
                     (case WriteAt f buf (sint off) of
                        Inl e \<Rightarrow> (written, Some (Wrap ''write extent at %d: %w'' [AInt (uint off)] e), f)
                      | Inr f' \<Rightarrow> recv_loop sz r2 (crc_write c buf) (written + uint len) f'))))"
  by pat_completeness auto
termination
  by (relation "measure (\<lambda>(sz, r, c, written, f). length r)")
    (auto simp: ReadFull_def split: if_splits)

declare recv_loop.simps [simp del]

definition Receive :: "byte list \<Rightarrow> sfile \<Rightarrow> int \<times> gerror option \<times> sfile" where
  "Receive r f =
     (case ReadFull 12 r of
        Inl e \<Rightarrow> (0, Some (Wrap ''read header: %w'' [] e), f)
      | Inr (hdr, r1) \<Rightarrow>
          if take 4 hdr \<noteq> magic
          then (0, Some (Err ''bad magic %q'' (map (\<lambda>b. AInt (uint b)) (take 4 hdr))), f)
          else
            (let sz = (be_get (drop 4 hdr) :: u64)
             in case Truncate f (sint sz) of
                  Inl e \<Rightarrow> (0, Some e, f)
                | Inr f' \<Rightarrow> recv_loop sz r1 crc_new 0 f'))"

section \<open>What the kernel promises of SEEK_DATA and SEEK_HOLE\<close>

definition next_data :: "sfile \<Rightarrow> nat \<Rightarrow> nat" where
  "next_data f off = off + length (takeWhile (\<lambda>c. c = None) (drop off f))"

definition next_hole :: "sfile \<Rightarrow> nat \<Rightarrow> nat" where
  "next_hole f off = off + length (takeWhile (\<lambda>c. c \<noteq> None) (drop off f))"

text \<open>
  \<open>lseek(2)\<close>: from an offset inside the file, \<open>SEEK_DATA\<close> goes to the next data byte or fails
  with \<open>ENXIO\<close> when only holes remain, and \<open>SEEK_HOLE\<close> to the next hole, the end of the file
  counting as one.
\<close>

definition lseek_ok :: "lseek \<Rightarrow> sfile \<Rightarrow> bool" where
  "lseek_ok sk f \<longleftrightarrow>
     (\<forall>off<length f.
        sk SEEK_DATA (int off) =
          (if next_data f off < length f then Inr (int (next_data f off)) else Inl ENXIO) \<and>
        sk SEEK_HOLE (int off) = Inr (int (next_hole f off)))"

definition lseek_of :: "sfile \<Rightarrow> lseek" where
  "lseek_of f w off =
     (if off < 0 \<or> int (length f) \<le> off then Inl ENXIO
      else case w of
        SEEK_DATA \<Rightarrow> if next_data f (nat off) < length f then Inr (int (next_data f (nat off))) else Inl ENXIO
      | SEEK_HOLE \<Rightarrow> Inr (int (next_hole f (nat off))))"

lemma lseek_of_ok [simp]: "lseek_ok (lseek_of f) f"
  by (simp add: lseek_ok_def lseek_of_def)

lemma next_data_ge: "off \<le> next_data f off"
  by (simp add: next_data_def)

lemma next_data_le: "off \<le> length f \<Longrightarrow> next_data f off \<le> length f"
  using length_takeWhile_le [of "\<lambda>c. c = None" "drop off f"] by (simp add: next_data_def)

lemma next_hole_le: "off \<le> length f \<Longrightarrow> next_hole f off \<le> length f"
  using length_takeWhile_le [of "\<lambda>c. c \<noteq> None" "drop off f"] by (simp add: next_hole_def)

lemma takeWhile_drop_nth:
  assumes "off \<le> i" "i < off + length (takeWhile P (drop off xs))"
  shows "P (xs ! i)"
proof -
  have k: "i - off < length (takeWhile P (drop off xs))"
    using assms by arith
  then have "off \<le> length xs" by (cases "off \<le> length xs") auto
  moreover have "P (takeWhile P (drop off xs) ! (i - off))"
    using k nth_mem set_takeWhileD by fast
  ultimately show ?thesis
    using assms k by (simp add: takeWhile_nth)
qed

lemma next_data_hole: "off \<le> i \<Longrightarrow> i < next_data f off \<Longrightarrow> f ! i = None"
  unfolding next_data_def by (rule takeWhile_drop_nth [where P = "\<lambda>c. c = None"])

lemma next_hole_data: "off \<le> i \<Longrightarrow> i < next_hole f off \<Longrightarrow> f ! i \<noteq> None"
  unfolding next_hole_def by (rule takeWhile_drop_nth [where P = "\<lambda>c. c \<noteq> None"])

lemma next_data_data: "next_data f off < length f \<Longrightarrow> f ! next_data f off \<noteq> None"
  using nth_length_takeWhile [of "\<lambda>c. c = None" "drop off f"] by (simp add: next_data_def)

lemma next_hole_hole: "next_hole f off < length f \<Longrightarrow> f ! next_hole f off = None"
  using nth_length_takeWhile [of "\<lambda>c. c \<noteq> None" "drop off f"] by (simp add: next_hole_def)

lemma next_hole_gt: "off < length f \<Longrightarrow> f ! off \<noteq> None \<Longrightarrow> off < next_hole f off"
  by (simp add: next_hole_def Cons_nth_drop_Suc [symmetric])

section \<open>The walk finds exactly the data\<close>

definition data_cells :: "sfile \<Rightarrow> nat set" where
  "data_cells f = {i. i < length f \<and> f ! i \<noteq> None}"

definition covered :: "Extent list \<Rightarrow> nat set" where
  "covered es = {i. \<exists>e\<in>set es. Offset e \<le> int i \<and> int i < Offset e + Length e}"

text \<open>
  The extents found up to an offset: non-empty, inside the file, ascending with a gap between
  neighbours (so each is maximal), covering exactly the data bytes below the offset.
\<close>

definition walked :: "sfile \<Rightarrow> nat \<Rightarrow> Extent list \<Rightarrow> bool" where
  "walked f off es \<longleftrightarrow>
     (\<forall>e\<in>set es. 0 < Length e \<and> 0 \<le> Offset e \<and> Offset e + Length e \<le> int off) \<and>
     sorted_wrt (\<lambda>a b. Offset a + Length a < Offset b) es \<and>
     covered es = {i \<in> data_cells f. i < off}"

lemma covered_simps [simp]:
  "covered [] = {}"
  "covered (es @ es') = covered es \<union> covered es'"
  "covered [e] = {i. Offset e \<le> int i \<and> int i < Offset e + Length e}"
  by (auto simp: covered_def)

lemma walked_extend:
  assumes w: "walked f off es" and off: "off = 0 \<or> f ! off = None" "off < length f"
    and ds: "ds = next_data f off" "ds < length f" and hs: "hs = next_hole f ds"
  shows "walked f hs (es @ [\<lparr>Offset = int ds, Length = int hs - int ds\<rparr>])"
proof -
  have ge: "off \<le> ds"
    by (simp add: ds(1) next_data_ge)
  have dn: "f ! ds \<noteq> None"
    using next_data_data ds by blast
  then have lt: "ds < hs"
    using next_hole_gt ds(2) hs by blast
  have le: "hs \<le> length f"
    using next_hole_le [of ds f] ds(2) unfolding hs by linarith
  have gap: "int off < int ds" if "es \<noteq> []"
  proof -
    from that w have "0 < off" by (cases es) (auto simp: walked_def)
    with off have "f ! off = None" by simp
    with dn ge show ?thesis by (metis le_neq_implies_less of_nat_less_iff)
  qed
  have "i \<in> data_cells f \<and> i < hs \<longleftrightarrow> i \<in> data_cells f \<and> i < off \<or> ds \<le> i \<and> i < hs" for i
    using ge lt le next_data_hole [of off i f] next_hole_data [of ds i f] ds hs
    by (cases "i < off"; cases "i < ds") (auto simp: data_cells_def)
  then have cells: "{i \<in> data_cells f. i < hs} = {i \<in> data_cells f. i < off} \<union> {i. ds \<le> i \<and> i < hs}"
    by blast
  have cov: "covered es = {i \<in> data_cells f. i < off}"
    and sorted: "sorted_wrt (\<lambda>a b. Offset a + Length a < Offset b) es"
    and inside: "\<And>e. e \<in> set es \<Longrightarrow> 0 < Length e \<and> 0 \<le> Offset e \<and> Offset e + Length e \<le> int off"
    using w by (auto simp: walked_def)
  have "Offset e + Length e < int ds" if "e \<in> set es" for e
    using inside [OF that] gap that by (cases es) auto
  then have "sorted_wrt (\<lambda>a b. Offset a + Length a < Offset b)
      (es @ [\<lparr>Offset = int ds, Length = int hs - int ds\<rparr>])"
    using sorted by (simp add: sorted_wrt_append)
  moreover have "0 < Length e \<and> 0 \<le> Offset e \<and> Offset e + Length e \<le> int hs" if "e \<in> set es" for e
    using inside [OF that] ge lt by simp
  ultimately show ?thesis
    using lt by (simp add: walked_def cells cov ball_Un)
qed

lemma walk_loop_walked:
  assumes "lseek_ok sk f" "walked f off es" "off \<le> length f" "length f - off < fuel"
    and "off = 0 \<or> off = length f \<or> f ! off = None"
  shows "\<exists>es'. walk_loop sk fuel (int (length f)) (int off) es = Inr es' \<and> walked f (length f) es'"
  using assms
proof (induction fuel arbitrary: off es)
  case 0
  then show ?case by simp
next
  case (Suc fuel)
  show ?case
  proof (cases "off < length f")
    case False
    then show ?thesis using Suc.prems by auto
  next
    case inside: True
    let ?ds = "next_data f off" and ?hs = "next_hole f (next_data f off)"
    show ?thesis
    proof (cases "?ds < length f")
      case False
      then have "f ! i = None" if "off \<le> i" "i < length f" for i
        using next_data_hole [of off i f] that by simp
      then have "i \<in> data_cells f \<and> i < off \<longleftrightarrow> i \<in> data_cells f \<and> i < length f" for i
        using inside by (cases "i < off") (auto simp: data_cells_def)
      then have "{i \<in> data_cells f. i < off} = {i \<in> data_cells f. i < length f}"
        by blast
      then have "walked f (length f) es"
        using Suc.prems by (fastforce simp: walked_def)
      with False inside Suc.prems(1) show ?thesis by (simp add: lseek_ok_def)
    next
      case True
      have "walked f ?hs (es @ [\<lparr>Offset = int ?ds, Length = int ?hs - int ?ds\<rparr>])"
        using walked_extend [OF Suc.prems(2)] Suc.prems(5) inside True by auto
      moreover have "off \<le> ?ds" "?ds < ?hs" "?hs \<le> length f"
        using True next_data_ge [of off f] next_hole_gt [of ?ds f] next_data_data [of f off]
          next_hole_le [of ?ds f] by simp_all
      moreover have "?hs = length f \<or> f ! ?hs = None"
        using next_hole_hole next_hole_le True by (metis le_neq_implies_less less_imp_le)
      ultimately show ?thesis
        using Suc.IH [of ?hs] Suc.prems(1,4) inside True by (auto simp: lseek_ok_def)
    qed
  qed
qed

definition extents_ok :: "sfile \<Rightarrow> Extent list \<Rightarrow> bool" where
  "extents_ok f es \<longleftrightarrow>
     (\<forall>e\<in>set es. 0 < Length e \<and> 0 \<le> Offset e \<and> Offset e + Length e \<le> int (length f)) \<and>
     sorted_wrt (\<lambda>a b. Offset a + Length a < Offset b) es \<and>
     covered es = data_cells f"

lemma WalkExtents_correct:
  assumes "lseek_ok sk f"
  shows "\<exists>es. WalkExtents sk f = Inr es \<and> extents_ok f es"
proof -
  have "walked f 0 []" by (simp add: walked_def)
  then obtain es where "WalkExtents sk f = Inr es" "walked f (length f) es"
    using walk_loop_walked [OF assms, of 0 "[]" "Suc (length f)"] by (auto simp: WalkExtents_def)
  moreover have "{i \<in> data_cells f. i < length f} = data_cells f"
    by (auto simp: data_cells_def)
  ultimately show ?thesis by (auto simp: walked_def extents_ok_def)
qed

section \<open>The records a send produces\<close>

text \<open>The cuts of one extent into chunks, as the inner loop of \<open>Send\<close> visits them.\<close>

function chunk_cuts :: "int \<Rightarrow> int \<Rightarrow> (int \<times> int) list" where
  "chunk_cuts off stop =
     (if off < stop then (off, min maxExtentChunk (stop - off)) # chunk_cuts (off + maxExtentChunk) stop
      else [])"
  by pat_completeness auto
termination
  by (relation "measure (\<lambda>(off, stop). nat (stop - off))") (auto simp: maxExtentChunk_def)

declare chunk_cuts.simps [simp del]

definition cuts_of :: "Extent list \<Rightarrow> (int \<times> int) list" where
  "cuts_of es = concat (map (\<lambda>e. chunk_cuts (Offset e) (Offset e + Length e)) es)"

definition payload :: "sfile \<Rightarrow> int \<times> int \<Rightarrow> byte list" where
  "payload f c = take (nat (snd c)) (drop (nat (fst c)) (content f))"

definition wire_rec :: "sfile \<Rightarrow> int \<times> int \<Rightarrow> byte list" where
  "wire_rec f c = wire_head (fst c) (snd c) @ payload f c"

definition cut_ok :: "sfile \<Rightarrow> int \<times> int \<Rightarrow> bool" where
  "cut_ok f c \<longleftrightarrow> 0 \<le> fst c \<and> 0 < snd c \<and> snd c \<le> maxExtentChunk \<and> fst c + snd c \<le> int (length f)"

definition cut_cells :: "int \<times> int \<Rightarrow> nat set" where
  "cut_cells c = {i. fst c \<le> int i \<and> int i < fst c + snd c}"

lemma chunk_cuts_ok:
  "0 \<le> off \<Longrightarrow> stop \<le> int (length f) \<Longrightarrow> list_all (cut_ok f) (chunk_cuts off stop)"
proof (induction off stop rule: chunk_cuts.induct)
  case (1 off stop)
  have "cut_ok f (off, min maxExtentChunk (stop - off))" if "off < stop"
    using 1 that by (auto simp: cut_ok_def maxExtentChunk_def)
  moreover have "0 \<le> off + maxExtentChunk"
    using 1 by (simp add: maxExtentChunk_def)
  ultimately show ?case
    using 1 by (simp add: chunk_cuts.simps [of off stop])
qed

lemma chunk_cuts_cells: "\<Union> (cut_cells ` set (chunk_cuts off stop)) = {i. off \<le> int i \<and> int i < stop}"
proof (induction off stop rule: chunk_cuts.induct)
  case (1 off stop)
  show ?case
  proof (cases "off < stop")
    case True
    have "cut_cells (off, min maxExtentChunk (stop - off)) \<union>
        {i. off + maxExtentChunk \<le> int i \<and> int i < stop} = {i. off \<le> int i \<and> int i < stop}"
      by (auto simp: cut_cells_def maxExtentChunk_def)
    with 1 True show ?thesis by (simp add: chunk_cuts.simps [of off stop])
  qed (auto simp: chunk_cuts.simps [of off stop])
qed

lemma chunk_cuts_sum: "off \<le> stop \<Longrightarrow> sum_list (map snd (chunk_cuts off stop)) = stop - off"
proof (induction off stop rule: chunk_cuts.induct)
  case (1 off stop)
  show ?case
  proof (cases "off + maxExtentChunk \<le> stop")
    case True
    with 1 show ?thesis by (subst chunk_cuts.simps) (auto simp: maxExtentChunk_def)
  next
    case False
    then have "chunk_cuts (off + maxExtentChunk) stop = []" by (subst chunk_cuts.simps) simp
    with False 1 show ?thesis by (subst chunk_cuts.simps) auto
  qed
qed

lemma Write_unlimited:
  "limit w = None \<Longrightarrow> Write bs w = (None, w\<lparr>out := out w @ bs\<rparr>)"
  by (simp add: Write_def)

definition after_cuts :: "sfile \<Rightarrow> (int \<times> int) list \<Rightarrow> sender \<Rightarrow> sender" where
  "after_cuts f cs st =
     st\<lparr>wr := (wr st)\<lparr>out := out (wr st) @ concat (map (wire_rec f) cs)\<rparr>,
        crc_st := crc_write (crc_st st) (concat (map (payload f) cs)),
        sent := sent st + sum_list (map snd cs)\<rparr>"

lemma after_cuts_nil [simp]: "after_cuts f [] st = st"
  by (simp add: after_cuts_def crc.feed_nil)

lemma after_cuts_append: "after_cuts f (cs @ ds) st = after_cuts f ds (after_cuts f cs st)"
  by (simp add: after_cuts_def crc.feed_append)

lemma limit_after_cuts [simp]: "limit (wr (after_cuts f cs st)) = limit (wr st)"
  by (simp add: after_cuts_def)

lemma send_chunk_unlimited:
  "limit (wr st) = None \<Longrightarrow> cut_ok f (off, n) \<Longrightarrow>
   send_chunk f off n st = (None, after_cuts f [(off, n)] st)"
  by (simp add: send_chunk_def ReadAt_def cut_ok_def Write_unlimited after_cuts_def wire_rec_def
      payload_def)

lemma send_extent_unlimited:
  assumes "limit (wr st) = None" "0 \<le> off" "stop \<le> int (length f)"
  shows "send_extent f off stop st = (None, after_cuts f (chunk_cuts off stop) st)"
  using assms
proof (induction off stop arbitrary: st rule: chunk_cuts.induct)
  case (1 off stop)
  let ?n = "min maxExtentChunk (stop - off)" and ?rest = "chunk_cuts (off + maxExtentChunk) stop"
  show ?case
  proof (cases "off < stop")
    case True
    let ?st = "after_cuts f [(off, ?n)] st"
    have step: "send_chunk f off ?n st = (None, ?st)"
      using 1 True by (intro send_chunk_unlimited) (auto simp: cut_ok_def maxExtentChunk_def)
    have "send_extent f (off + maxExtentChunk) stop ?st = (None, after_cuts f ?rest ?st)"
      using "1.prems" by (intro "1.IH" [OF True]) (simp_all add: maxExtentChunk_def)
    moreover have "after_cuts f ?rest ?st = after_cuts f (chunk_cuts off stop) st"
      using True after_cuts_append [of f "[(off, ?n)]" ?rest st]
      by (simp add: chunk_cuts.simps [of off stop])
    ultimately show ?thesis
      using True by (simp only: send_extent.simps [of f off stop st] step if_True prod.case option.case)
  next
    case False
    then show ?thesis
      by (simp add: send_extent.simps [of f off stop st] chunk_cuts.simps [of off stop])
  qed
qed

lemma send_extents_unlimited:
  "limit (wr st) = None \<Longrightarrow>
   \<forall>e\<in>set es. 0 \<le> Offset e \<and> Offset e + Length e \<le> int (length f) \<Longrightarrow>
   send_extents f es st = (None, after_cuts f (cuts_of es) st)"
  by (induction es arbitrary: st)
    (simp_all add: cuts_of_def send_extent_unlimited after_cuts_append)

definition wire_stream :: "sfile \<Rightarrow> (int \<times> int) list \<Rightarrow> byte list" where
  "wire_stream f cs =
     magic @ be_put 8 (of_nat (length f) :: u64) @ concat (map (wire_rec f) cs) @
     be_put 8 trailerOffset @ be_put 4 (crc_write crc_new (concat (map (payload f) cs)))"

lemma Send_stream:
  assumes "WalkExtents sk f = Inr es" "extents_ok f es" "limit w = None"
  shows "Send sk w f =
    (sum_list (map snd (cuts_of es)), None, w\<lparr>out := out w @ wire_stream f (cuts_of es)\<rparr>)"
  using assms
  by (simp add: Send_def Write_unlimited send_extents_unlimited extents_ok_def after_cuts_def
      wire_stream_def)

lemma cuts_of_ok:
  assumes "extents_ok f es"
  shows "list_all (cut_ok f) (cuts_of es)"
proof -
  have "list_all (cut_ok f) (chunk_cuts (Offset e) (Offset e + Length e))" if "e \<in> set es" for e
    using assms that by (intro chunk_cuts_ok) (auto simp: extents_ok_def)
  then show ?thesis by (auto simp: cuts_of_def list_all_iff)
qed

lemma cuts_of_cells: "\<Union> (cut_cells ` set (cuts_of es)) = covered es"
proof -
  have "\<Union> (cut_cells ` set (cuts_of es)) =
      (\<Union>e\<in>set es. \<Union> (cut_cells ` set (chunk_cuts (Offset e) (Offset e + Length e))))"
    by (auto simp: cuts_of_def)
  also have "\<dots> = covered es"
    unfolding chunk_cuts_cells by (auto simp: covered_def)
  finally show ?thesis .
qed

lemma TotalBytes_eq: "TotalBytes es = sum_list (map Length es)"
proof -
  have "TotalBytes_loop n es = n + sum_list (map Length es)" for n
    by (induction es arbitrary: n) auto
  then show ?thesis by (simp add: TotalBytes_def)
qed

lemma cuts_of_sum: "extents_ok f es \<Longrightarrow> sum_list (map snd (cuts_of es)) = TotalBytes es"
proof -
  assume "extents_ok f es"
  then have "\<forall>e\<in>set es. 0 < Length e" by (simp add: extents_ok_def)
  then show ?thesis
    by (induction es) (auto simp: TotalBytes_eq cuts_of_def chunk_cuts_sum less_imp_le)
qed

section \<open>Receiving what was sent\<close>

lemma uint_of_int64: "0 \<le> x \<Longrightarrow> x < 2 ^ 63 \<Longrightarrow> uint (word_of_int x :: u64) = x"
  by (simp add: uint_word_of_int)

lemma sint_of_int64: "0 \<le> x \<Longrightarrow> x < 2 ^ 63 \<Longrightarrow> sint (word_of_int x :: u64) = x"
  by (simp add: sint_uint signed_take_bit_int_eq_self uint_of_int64)

lemma of_nat_int64:
  assumes "n < 2 ^ 63"
  shows "uint (of_nat n :: u64) = int n" "sint (of_nat n :: u64) = int n"
  using assms uint_of_int64 [of "int n"] sint_of_int64 [of "int n"] by simp_all

lemma uint_of_int32: "0 \<le> x \<Longrightarrow> x \<le> maxExtentChunk \<Longrightarrow> uint (word_of_int x :: u32) = x"
  by (simp add: uint_word_of_int maxExtentChunk_def)

lemma uint_trailerOffset: "uint trailerOffset = 2 ^ 64 - 1"
  by (simp add: trailerOffset_def unsigned_minus_1_eq_mask mask_eq_exp_minus_1)

lemma length_payload: "cut_ok f c \<Longrightarrow> length (payload f c) = nat (snd c)"
  by (auto simp: payload_def cut_ok_def)

lemma length_wire_head [simp]: "length (wire_head off n) = 12"
  by (simp add: wire_head_def)

lemma ReadFull_append: "length xs = n \<Longrightarrow> ReadFull n (xs @ ys) = Inr (xs, ys)"
  by (simp add: ReadFull_def)

lemma wire_head_off: "be_get (take 8 (wire_head off n)) = (word_of_int off :: u64)"
  unfolding wire_head_def by (rule be64.take_put)

lemma wire_head_len: "be_get (drop 8 (wire_head off n)) = (word_of_int n :: u32)"
  unfolding wire_head_def be64.drop_put by (rule be32.get_put)

text \<open>One record whose header is a valid cut, whatever payload of that length follows.\<close>

lemma recv_loop_payload:
  assumes cut: "cut_ok f c" and fit: "length f < 2 ^ 63" and len: "length g = length f"
    and p: "length p = nat (snd c)"
  shows "recv_loop (of_nat (length f)) (wire_head (fst c) (snd c) @ p @ r) k n g =
    recv_loop (of_nat (length f)) r (crc_write k p) (n + snd c) (splice g (nat (fst c)) p)"
proof -
  let ?off = "word_of_int (fst c) :: u64" and ?len = "word_of_int (snd c) :: u32"
  have size: "int (length f) < 2 ^ 63"
    using fit by (simp flip: of_nat_less_iff)
  have off: "uint ?off = fst c" "sint ?off = fst c"
    using cut size by (auto simp: cut_ok_def uint_of_int64 sint_of_int64)
  have n: "uint ?len = snd c" "unat ?len = length p"
    using cut p by (auto simp: cut_ok_def uint_of_int32 unat_eq_nat_uint)
  have "?off \<noteq> trailerOffset"
  proof
    assume "?off = trailerOffset"
    then have "fst c = 2 ^ 64 - 1" using off(1) uint_trailerOffset by metis
    with cut size show False by (simp add: cut_ok_def)
  qed
  moreover have "uint (?off + ucast ?len) = fst c + snd c"
    using cut size off(1) n(1)
    by (simp add: uint_word_ariths unsigned_ucast_eq take_bit_int_eq_self cut_ok_def maxExtentChunk_def)
  then have "\<not> ?off + ucast ?len > of_nat (length f)"
    using cut fit by (simp add: word_less_alt of_nat_int64 cut_ok_def)
  moreover have "WriteAt g p (fst c) = Inr (splice g (nat (fst c)) p)"
    using WriteAt_inside [of "nat (fst c)" p g] cut len
    by (simp add: p) (auto simp: cut_ok_def)
  ultimately show ?thesis
    using cut off n
    by (subst recv_loop.simps)
      (simp add: ReadFull_append wire_head_off wire_head_len Let_def cut_ok_def)
qed

lemma recv_loop_record:
  "cut_ok f c \<Longrightarrow> length f < 2 ^ 63 \<Longrightarrow> length g = length f \<Longrightarrow>
   recv_loop (of_nat (length f)) (wire_rec f c @ r) k n g =
     recv_loop (of_nat (length f)) r (crc_write k (payload f c)) (n + snd c)
       (splice g (nat (fst c)) (payload f c))"
  unfolding wire_rec_def append_assoc by (rule recv_loop_payload) (simp_all add: length_payload)

fun splice_cuts :: "sfile \<Rightarrow> sfile \<Rightarrow> (int \<times> int) list \<Rightarrow> sfile" where
  "splice_cuts f g [] = g"
| "splice_cuts f g (c # cs) = splice_cuts f (splice g (nat (fst c)) (payload f c)) cs"

lemma splice_cut:
  assumes "cut_ok f c" "length g = length f"
  shows "length (splice g (nat (fst c)) (payload f c)) = length f"
    and "i < length f \<Longrightarrow> splice g (nat (fst c)) (payload f c) ! i =
      (if i \<in> cut_cells c then Some (content f ! i) else g ! i)"
proof -
  have in_range: "nat (fst c) + length (payload f c) \<le> length g"
    using assms by (simp add: length_payload) (auto simp: cut_ok_def)
  then show "length (splice g (nat (fst c)) (payload f c)) = length f"
    using assms by simp
  assume i: "i < length f"
  have "i \<in> cut_cells c \<longleftrightarrow> nat (fst c) \<le> i \<and> i < nat (fst c) + length (payload f c)"
    using assms(1) by (auto simp: cut_cells_def cut_ok_def length_payload)
  moreover have "payload f c ! (i - nat (fst c)) = content f ! i"
    if "nat (fst c) \<le> i" "i < nat (fst c) + length (payload f c)"
    using that i assms(1) by (simp add: length_payload) (simp add: payload_def)
  ultimately show "splice g (nat (fst c)) (payload f c) ! i =
      (if i \<in> cut_cells c then Some (content f ! i) else g ! i)"
    using in_range i assms(2) by (simp add: nth_splice)
qed

lemma splice_cuts_nth:
  assumes "list_all (cut_ok f) cs" "length g = length f"
  shows "length (splice_cuts f g cs) = length f"
    and "i < length f \<Longrightarrow> splice_cuts f g cs ! i =
      (if i \<in> \<Union> (cut_cells ` set cs) then Some (content f ! i) else g ! i)"
  using assms by (induction cs arbitrary: g) (auto simp: splice_cut)

lemma recv_loop_records:
  assumes "list_all (cut_ok f) cs" "length f < 2 ^ 63" "length g = length f"
  shows "recv_loop (of_nat (length f)) (concat (map (wire_rec f) cs) @ r) k n g =
    recv_loop (of_nat (length f)) r (crc_write k (concat (map (payload f) cs)))
      (n + sum_list (map snd cs)) (splice_cuts f g cs)"
  using assms
  by (induction cs arbitrary: g k n)
    (simp_all add: recv_loop_record splice_cut(1) crc.feed_nil crc.feed_append add.assoc)

lemma recv_loop_trailer:
  "recv_loop sz (be_put 8 trailerOffset @ be_put 4 k' @ r) k n g =
    (if k = k' then (n, None, g)
     else (n, Some (Err ''payload CRC mismatch: got %08x want %08x'' [AInt (uint k), AInt (uint k')]), g))"
proof -
  have "ReadFull 12 (be_put 8 trailerOffset @ be_put 4 k' @ r) = Inr (be_put 8 trailerOffset @ be_put 4 k', r)"
    using ReadFull_append [of "be_put 8 trailerOffset @ be_put 4 k'" 12 r] by simp
  then show ?thesis
    by (subst recv_loop.simps) (simp add: be64.get_put be32.get_put)
qed

lemma Receive_header:
  assumes "length f < 2 ^ 63"
  shows "Receive (magic @ be_put 8 (of_nat (length f) :: u64) @ r) g =
    recv_loop (of_nat (length f)) r crc_new 0 (resize (length f) g)"
proof -
  let ?hdr = "magic @ be_put 8 (of_nat (length f) :: u64)"
  have "ReadFull 12 (magic @ be_put 8 (of_nat (length f) :: u64) @ r) = Inr (?hdr, r)"
    using ReadFull_append [of ?hdr 12 r] by (simp add: magic_def)
  moreover have "take 4 ?hdr = magic" "drop 4 ?hdr = be_put 8 (of_nat (length f) :: u64)"
    by (simp_all add: magic_def)
  moreover have "sint (of_nat (length f) :: u64) = int (length f)"
    using assms by (simp add: of_nat_int64)
  ultimately show ?thesis
    unfolding Receive_def by (simp add: be64.get_put Truncate_def)
qed

lemma Receive_wire_stream:
  assumes "list_all (cut_ok f) cs" "length f < 2 ^ 63"
  shows "Receive (wire_stream f cs @ r) g =
    (sum_list (map snd cs), None, splice_cuts f (resize (length f) g) cs)"
  using assms
  by (simp add: wire_stream_def Receive_header recv_loop_records recv_loop_trailer)

lemma splice_cuts_overlay:
  assumes "extents_ok f es"
  shows "splice_cuts f (resize (length f) g) (cuts_of es) = overlay g f"
proof (rule nth_equalityI)
  note cuts = cuts_of_ok [OF assms]
  show "length (splice_cuts f (resize (length f) g) (cuts_of es)) = length (overlay g f)"
    by (simp add: splice_cuts_nth [OF cuts])
  fix i
  assume "i < length (splice_cuts f (resize (length f) g) (cuts_of es))"
  then have i: "i < length f" by (simp add: splice_cuts_nth [OF cuts])
  have "i \<in> \<Union> (cut_cells ` set (cuts_of es)) \<longleftrightarrow> f ! i \<noteq> None"
    using assms i by (simp only: cuts_of_cells) (simp add: extents_ok_def data_cells_def)
  then show "splice_cuts f (resize (length f) g) (cuts_of es) ! i = overlay g f ! i"
    using i splice_cuts_nth(2) [OF cuts, of "resize (length f) g"]
    by (auto simp: nth_overlay nth_resize nth_content split: option.splits)
qed

section \<open>Byte counts\<close>

lemma card_extent:
  "0 \<le> a \<Longrightarrow> 0 \<le> n \<Longrightarrow> card {i. a \<le> int i \<and> int i < a + n} = nat n"
proof -
  assume "0 \<le> a" "0 \<le> n"
  then have "{i. a \<le> int i \<and> int i < a + n} = {nat a..<nat (a + n)}" by auto
  with \<open>0 \<le> a\<close> \<open>0 \<le> n\<close> show ?thesis by simp
qed

lemma card_covered:
  "sorted_wrt (\<lambda>a b. Offset a + Length a < Offset b) es \<Longrightarrow>
   \<forall>e\<in>set es. 0 < Length e \<and> 0 \<le> Offset e \<Longrightarrow>
   finite (covered es) \<and> int (card (covered es)) = sum_list (map Length es)"
proof (induction es)
  case Nil
  then show ?case by simp
next
  case (Cons e es)
  let ?E = "{i. Offset e \<le> int i \<and> int i < Offset e + Length e}"
  have cov: "covered (e # es) = ?E \<union> covered es"
    using covered_simps(2) [of "[e]" es] by simp
  have "?E \<inter> covered es = {}"
    using Cons.prems by (fastforce simp: covered_def)
  moreover have "finite ?E"
    by (rule finite_subset [of _ "{..<nat (Offset e + Length e)}"]) auto
  moreover have "int (card ?E) = Length e"
    using Cons.prems card_extent [of "Offset e" "Length e"] by simp
  ultimately show ?case
    using Cons unfolding cov by (simp add: card_Un_disjoint)
qed

lemma TotalBytes_card: "extents_ok f es \<Longrightarrow> TotalBytes es = int (card (data_cells f))"
  using card_covered [of es] by (simp add: extents_ok_def TotalBytes_eq)

lemma Send_Receive_overlay:
  assumes "lseek_ok sk f" "limit w = None" "length f < 2 ^ 63"
  shows "\<exists>bs. Send sk w f = (int (card (data_cells f)), None, w\<lparr>out := out w @ bs\<rparr>) \<and>
    (\<forall>r g. Receive (bs @ r) g = (int (card (data_cells f)), None, overlay g f))"
proof -
  obtain es where es: "WalkExtents sk f = Inr es" "extents_ok f es"
    using WalkExtents_correct [OF assms(1)] by blast
  have "sum_list (map snd (cuts_of es)) = int (card (data_cells f))"
    using es cuts_of_sum TotalBytes_card by metis
  then show ?thesis
    using Send_stream [OF es assms(2)] Receive_wire_stream [OF cuts_of_ok [OF es(2)] assms(3)]
      splice_cuts_overlay [OF es(2)] by auto
qed

section \<open>Confinement: no stream writes outside the advertised size\<close>

text \<open>
  The bounds check adds in 64 bits and may wrap; the offsets for which it wraps are negative as
  \<open>int64\<close> and are refused by \<open>WriteAt\<close>.
\<close>

lemma sint_nonneg: "0 \<le> sint (off :: u64) \<Longrightarrow> sint off = uint off \<and> uint off < 2 ^ 63"
proof -
  assume "0 \<le> sint off"
  moreover have "sint off < 2 ^ 63" using sint_lt [of off] by simp
  moreover have "uint off = take_bit 64 (sint off)" using uint_sint [of off] by simp
  ultimately show ?thesis by (simp add: take_bit_int_eq_self)
qed

lemma no_wrap:
  fixes off sz :: u64 and len :: u32
  assumes "0 \<le> sint off" "uint len \<le> maxExtentChunk" "\<not> off + ucast len > sz"
  shows "nat (sint off) + unat len \<le> unat sz"
proof -
  note off = sint_nonneg [OF assms(1)]
  have len: "uint (ucast len :: u64) = uint len"
    using assms(2) by (simp add: unsigned_ucast_eq take_bit_int_eq_self maxExtentChunk_def)
  have "uint off + uint len < 2 ^ 64"
    using off assms(2) by (simp add: maxExtentChunk_def)
  then have "uint (off + ucast len) = uint off + uint (ucast len :: u64)"
    by (intro iffD1 [OF uint_add_lem]) (simp add: len)
  then have "uint (off + ucast len) = uint off + uint len"
    unfolding len .
  with assms(3) have "uint off + uint len \<le> uint sz" by (simp add: word_less_alt)
  then have "int (nat (sint off) + unat len) \<le> int (unat sz)"
    using off by simp
  then show ?thesis by linarith
qed

lemma write_in_bounds:
  assumes "ReadFull (unat (len :: u32)) r1 = Inr (buf, r2)" "WriteAt g buf (sint (off :: u64)) = Inr f'"
    and "\<not> uint len > maxExtentChunk" "\<not> off + ucast len > sz" "length g = unat sz"
  shows "f' = splice g (nat (sint off)) buf" "nat (sint off) + length buf \<le> length g"
    and "length r2 \<le> length r1" "int (length buf) = uint len"
proof -
  have buf: "length buf = unat len" "length r2 \<le> length r1"
    using assms(1) by (auto simp: ReadFull_def split: if_splits)
  then show "length r2 \<le> length r1" "int (length buf) = uint len" by simp_all
  have pos: "0 \<le> sint off"
    using assms(2) by (auto simp: WriteAt_def split: if_splits)
  then show b: "nat (sint off) + length buf \<le> length g"
    using no_wrap [of off len sz] assms(3-5) buf by simp
  show "f' = splice g (nat (sint off)) buf"
    using WriteAt_inside [OF b] assms(2) pos by simp
qed

text \<open>One turn of the loop: it ends with the file as it is, or lays one in-range record and goes on.\<close>

lemma recv_loop_step:
  assumes "recv_loop sz r c n g = (n', err, g')" "length g = unat sz"
  obtains (stop) "n' = n" "g' = g"
  | (more) off buf r2 where "off + length buf \<le> length g" "length r2 < length r"
      "recv_loop sz r2 (crc_write c buf) (n + int (length buf)) (splice g off buf) = (n', err, g')"
proof (cases "ReadFull 12 r")
  case (Inl e)
  with assms(1) show ?thesis by (intro stop) (simp_all add: recv_loop.simps [of sz r])
next
  case (Inr p)
  obtain h r1 where p: "p = (h, r1)" by (cases p)
  have short: "length r1 < length r"
    using Inr p by (auto simp: ReadFull_def split: if_splits)
  let ?off = "be_get (take 8 h) :: u64" and ?len = "be_get (drop 8 h) :: u32"
  show ?thesis
  proof (cases "?off = trailerOffset \<or> uint ?len > maxExtentChunk \<or> ?off + ucast ?len > sz")
    case True
    with assms(1) Inr p show ?thesis
      by (intro stop) (auto simp: recv_loop.simps [of sz r] Let_def split: if_splits)
  next
    case guards: False
    show ?thesis
    proof (cases "\<exists>buf r2 f'. ReadFull (unat ?len) r1 = Inr (buf, r2) \<and> WriteAt g buf (sint ?off) = Inr f'")
      case True
      then obtain buf r2 f' where w: "ReadFull (unat ?len) r1 = Inr (buf, r2)" "WriteAt g buf (sint ?off) = Inr f'"
        by blast
      note b = write_in_bounds [OF w _ _ assms(2)]
      have "recv_loop sz r2 (crc_write c buf) (n + uint ?len) f' = (n', err, g')"
        using assms(1) Inr p guards w by (simp add: recv_loop.simps [of sz r] Let_def)
      with b guards short show ?thesis
        by (intro more [of "nat (sint ?off)" buf r2]) auto
    next
      case False
      with assms(1) Inr p guards show ?thesis
        by (intro stop) (auto simp: recv_loop.simps [of sz r] Let_def split: sum.splits prod.splits)
    qed
  qed
qed

lemma recv_loop_length:
  "recv_loop sz r c n g = (n', err, g') \<Longrightarrow> length g = unat sz \<Longrightarrow> length g' = unat sz \<and> n \<le> n'"
proof (induction r arbitrary: c n g rule: length_induct)
  case (1 r)
  from "1.prems" show ?case
  proof (cases rule: recv_loop_step)
    case stop
    with "1.prems" show ?thesis by simp
  next
    case (more off buf r2)
    with "1.IH" "1.prems"(2) have "length g' = unat sz \<and> n + int (length buf) \<le> n'" by simp
    then show ?thesis by simp
  qed
qed

section \<open>Corruption is detected\<close>

text \<open>
  The stream of a file in which the payload of one record is replaced by other bytes of the same
  length is accepted exactly when the digests agree.
\<close>

definition wire_corrupt :: "sfile \<Rightarrow> (int \<times> int) list \<Rightarrow> int \<times> int \<Rightarrow> byte list \<Rightarrow> (int \<times> int) list \<Rightarrow> byte list" where
  "wire_corrupt f cs1 c p cs2 =
     magic @ be_put 8 (of_nat (length f) :: u64) @ concat (map (wire_rec f) cs1) @
     wire_head (fst c) (snd c) @ p @ concat (map (wire_rec f) cs2) @
     be_put 8 trailerOffset @ be_put 4 (crc_write crc_new (concat (map (payload f) (cs1 @ c # cs2))))"

lemma wire_corrupt_same: "wire_corrupt f cs1 c (payload f c) cs2 = wire_stream f (cs1 @ c # cs2)"
  by (simp add: wire_corrupt_def wire_stream_def wire_rec_def)

lemma Receive_wire_corrupt:
  assumes "list_all (cut_ok f) (cs1 @ c # cs2)" "length f < 2 ^ 63" "length p = length (payload f c)"
  shows "fst (snd (Receive (wire_corrupt f cs1 c p cs2) g)) = None \<longleftrightarrow>
    crc_write crc_new (concat (map (payload f) cs1) @ p @ concat (map (payload f) cs2)) =
    crc_write crc_new (concat (map (payload f) (cs1 @ c # cs2)))"
proof -
  let ?sz = "of_nat (length f) :: u64" and ?k = "crc_write crc_new (concat (map (payload f) cs1))"
  let ?g1 = "splice_cuts f (resize (length f) g) cs1"
  let ?g2 = "splice ?g1 (nat (fst c)) p"
  have len1: "length ?g1 = length f"
    using assms by (simp add: splice_cuts_nth)
  have p: "length p = nat (snd c)"
    using assms by (simp add: length_payload)
  have len2: "length ?g2 = length f"
  proof -
    have "nat (fst c) + length p \<le> length f"
      unfolding p using assms(1) by (auto simp: cut_ok_def)
    then show ?thesis by (simp add: len1)
  qed
  have "Receive (wire_corrupt f cs1 c p cs2) g =
      recv_loop ?sz (be_put 8 trailerOffset @
        be_put 4 (crc_write crc_new (concat (map (payload f) (cs1 @ c # cs2)))))
        (crc_write (crc_write ?k p) (concat (map (payload f) cs2)))
        (sum_list (map snd cs1) + snd c + sum_list (map snd cs2)) (splice_cuts f ?g2 cs2)"
    using assms len1 len2 p
    by (simp add: wire_corrupt_def Receive_header recv_loop_records recv_loop_payload)
  then show ?thesis
    using recv_loop_trailer [where r = "[]"] by (simp add: crc.feed_append)
qed

lemma wire_corrupt_update:
  fixes f :: sfile and c :: "int \<times> int" and cs1 cs2 :: "(int \<times> int) list" and i :: nat
  assumes "cut_ok f c" "i \<in> cut_cells c"
  defines "j \<equiv> i - nat (fst c)"
    and "k \<equiv> 24 + length (concat (map (wire_rec f) cs1)) + (i - nat (fst c))"
  shows "j < length (payload f c)" "payload f c ! j = content f ! i"
    and "wire_stream f (cs1 @ c # cs2) ! k = content f ! i" "k < length (wire_stream f (cs1 @ c # cs2))"
    and "(wire_stream f (cs1 @ c # cs2))[k := v] = wire_corrupt f cs1 c ((payload f c)[j := v]) cs2"
proof -
  show j: "j < length (payload f c)"
    using assms(1,2) by (auto simp: j_def length_payload cut_ok_def cut_cells_def)
  show at: "payload f c ! j = content f ! i"
    using assms(1,2) j by (auto simp: j_def payload_def cut_cells_def cut_ok_def)
  let ?pre = "magic @ be_put 8 (of_nat (length f) :: u64) @ concat (map (wire_rec f) cs1) @
     wire_head (fst c) (snd c)"
  obtain post where split: "\<And>p. wire_corrupt f cs1 c p cs2 = ?pre @ p @ post"
    by (auto simp: wire_corrupt_def)
  have pre: "k = length ?pre + j"
    by (simp add: k_def j_def magic_def)
  note stream = wire_corrupt_same [symmetric, of f cs1 c cs2, unfolded split]
  show "wire_stream f (cs1 @ c # cs2) ! k = content f ! i"
    unfolding stream pre using j at by (simp add: nth_append)
  show "k < length (wire_stream f (cs1 @ c # cs2))"
    unfolding stream pre using j by simp
  show "(wire_stream f (cs1 @ c # cs2))[k := v] = wire_corrupt f cs1 c ((payload f c)[j := v]) cs2"
    unfolding stream pre split using j by (simp add: list_update_append)
qed

lemma crc_update_byte:
  assumes "j < length p" "v \<noteq> p ! j"
  shows "crc_write s (xs @ p[j := v] @ ys) \<noteq> crc_write s (xs @ p @ ys)"
proof
  assume "crc_write s (xs @ p[j := v] @ ys) = crc_write s (xs @ p @ ys)"
  then have "crc_write s ((xs @ take j p) @ v # (drop (Suc j) p @ ys)) =
      crc_write s ((xs @ take j p) @ p ! j # (drop (Suc j) p @ ys))"
    using assms(1) by (simp add: upd_conv_take_nth_drop) (metis append_Cons append_assoc id_take_nth_drop)
  with assms(2) show False using crc.detects_byte by blast
qed

section \<open>Properties of the package\<close>

text \<open>
  C27: \<open>WalkExtents\<close> ends and returns the data of the file: non-empty extents in ascending
  order, separated by holes, that together cover exactly the data bytes; \<open>TotalBytes\<close> of the
  result is the number of data bytes.
\<close>

theorem WalkExtents_finds_data:
  assumes "lseek_ok sk f"
  shows "\<exists>es. WalkExtents sk f = Inr es \<and> extents_ok f es \<and> TotalBytes es = int (card (data_cells f))"
  using WalkExtents_correct [OF assms] TotalBytes_card by blast

theorem WalkExtents_finds_data_witness:
  "\<exists>es. WalkExtents (lseek_of [None, Some 7, Some 9, None]) [None, Some 7, Some 9, None] = Inr es \<and>
     extents_ok [None, Some 7, Some 9, None] es \<and>
     TotalBytes es = int (card (data_cells [None, Some 7, Some 9, None]))"
  by (rule WalkExtents_finds_data) (rule lseek_of_ok)

text \<open>
  C8: Sending a file and receiving the stream lays exactly its data bytes over the destination,
  resized to the sender's file size, and both sides report the number of data bytes; onto a
  fresh destination the content is reproduced byte for byte.
\<close>

theorem Send_Receive_roundtrip:
  assumes "lseek_ok sk f" and "length f < 2 ^ 63"
  shows "\<exists>bs n. Send sk \<lparr>out = [], limit = None\<rparr> f = (n, None, \<lparr>out = bs, limit = None\<rparr>) \<and>
    n = int (card (data_cells f)) \<and>
    (\<forall>g. Receive bs g = (n, None, overlay g f)) \<and>
    content (snd (snd (Receive bs []))) = content f"
proof -
  obtain bs where
      "Send sk \<lparr>out = [], limit = None\<rparr> f = (int (card (data_cells f)), None, \<lparr>out = bs, limit = None\<rparr>)"
      "\<And>r g. Receive (bs @ r) g = (int (card (data_cells f)), None, overlay g f)"
    using Send_Receive_overlay [OF assms(1) _ assms(2), of "\<lparr>out = [], limit = None\<rparr>"] by auto
  then show ?thesis
    by (metis append_Nil2 content_overlay_empty snd_conv)
qed

theorem Send_Receive_roundtrip_witness:
  "\<exists>bs n. Send (lseek_of [Some 7, None]) \<lparr>out = [], limit = None\<rparr> [Some 7, None] =
      (n, None, \<lparr>out = bs, limit = None\<rparr>) \<and>
    n = int (card (data_cells [Some 7, None])) \<and>
    (\<forall>g. Receive bs g = (n, None, overlay g [Some 7, None])) \<and>
    content (snd (snd (Receive bs []))) = content [Some 7, None]"
  by (rule Send_Receive_roundtrip) simp_all

text \<open>
  C9: Whatever bytes arrive, \<open>Receive\<close> either leaves the destination untouched and reports an
  error, or leaves a file of exactly the advertised size: no record, wrap-around of the 64-bit
  bounds check included, writes outside it. The reported count is never negative.
\<close>

theorem Receive_confined:
  assumes "Receive r g = (n, err, g')"
  shows "err \<noteq> None \<and> n = 0 \<and> g' = g \<or>
    length g' = unat (be_get (take 8 (drop 4 r)) :: u64) \<and> 0 \<le> n"
proof (cases "ReadFull 12 r")
  case (Inl e)
  with assms show ?thesis by (auto simp: Receive_def)
next
  case (Inr p)
  let ?size = "be_get (drop 4 (take 12 r)) :: u64"
  have p: "p = (take 12 r, drop 12 r)"
    using Inr by (auto simp: ReadFull_def split: if_splits)
  have same: "drop 4 (take 12 r) = take 8 (drop 4 r)"
    by (simp add: drop_take)
  show ?thesis
  proof (cases "take 4 (take 12 r) = magic \<and> 0 \<le> sint ?size")
    case True
    then have size: "nat (sint ?size) = unat ?size"
      using sint_nonneg [of ?size] by simp
    with True assms Inr p have "recv_loop ?size (drop 12 r) crc_new 0 (resize (unat ?size) g) = (n, err, g')"
      by (simp add: Receive_def Truncate_def Let_def)
    then show ?thesis
      using recv_loop_length [of ?size] by (simp add: same)
  next
    case False
    with assms Inr p show ?thesis
      by (auto simp: Receive_def Truncate_def Let_def split: if_splits)
  qed
qed

theorem Receive_confined_witness:
  "fst (snd (Receive [1, 2] [Some 5])) \<noteq> None \<and> snd (snd (Receive [1, 2] [Some 5])) = [Some 5]"
  using Receive_confined [of "[1, 2]" "[Some 5]" 0 "Some (Wrap ''read header: %w'' [] (Err ''unexpected EOF'' []))" "[Some 5]"]
  by (simp add: Receive_def ReadFull_def)

text \<open>
  C10: Every data byte of a file has a position in its stream such that replacing that byte by any
  other value makes \<open>Receive\<close> report an error: the CRC trailer catches every single-byte
  corruption of the payload.
\<close>

theorem Receive_detects_corruption:
  assumes "lseek_ok sk f" and "length f < 2 ^ 63" and "i \<in> data_cells f"
  shows "\<exists>n bs k. Send sk \<lparr>out = [], limit = None\<rparr> f = (n, None, \<lparr>out = bs, limit = None\<rparr>) \<and>
    k < length bs \<and> bs ! k = content f ! i \<and>
    (\<forall>v g. v \<noteq> bs ! k \<longrightarrow> fst (snd (Receive (bs[k := v]) g)) \<noteq> None)"
proof -
  obtain es where es: "WalkExtents sk f = Inr es" "extents_ok f es"
    using WalkExtents_correct [OF assms(1)] by blast
  then have "i \<in> \<Union> (cut_cells ` set (cuts_of es))"
    using assms(3) by (simp only: cuts_of_cells) (simp add: extents_ok_def)
  then obtain c cs1 cs2 where c: "i \<in> cut_cells c" and cuts: "cuts_of es = cs1 @ c # cs2"
    by (auto dest: split_list)
  have ok: "list_all (cut_ok f) (cs1 @ c # cs2)"
    using cuts_of_ok [OF es(2)] cuts by simp
  then have cut: "cut_ok f c" by simp
  let ?bs = "wire_stream f (cs1 @ c # cs2)" and ?j = "i - nat (fst c)"
  let ?k = "24 + length (concat (map (wire_rec f) cs1)) + ?j"
  note pay = wire_corrupt_update(1,2) [OF cut c]
    and upd = wire_corrupt_update(3-5) [OF cut c, of cs1 cs2]
  have "fst (snd (Receive (?bs[?k := v]) g)) \<noteq> None" if "v \<noteq> content f ! i" for v g
    using Receive_wire_corrupt [OF ok assms(2), of "(payload f c)[?j := v]" g] that pay
      crc_update_byte [of ?j "payload f c" v] by (simp add: upd(3))
  then show ?thesis
    using Send_stream [OF es, of "\<lparr>out = [], limit = None\<rparr>"] upd(1,2) cuts by auto
qed

theorem Receive_detects_corruption_witness:
  "\<exists>n bs k. Send (lseek_of [None, Some 7]) \<lparr>out = [], limit = None\<rparr> [None, Some 7] =
      (n, None, \<lparr>out = bs, limit = None\<rparr>) \<and>
    k < length bs \<and> bs ! k = content [None, Some 7] ! 1 \<and>
    (\<forall>v g. v \<noteq> bs ! k \<longrightarrow> fst (snd (Receive (bs[k := v]) g)) \<noteq> None)"
  by (rule Receive_detects_corruption) (simp_all add: data_cells_def)

end
