(* ===== verification/Fcapi.thy ===== *)
theory Fcapi
  imports Mig_Prelude
begin

text \<open>
  The package \<open>internal/fcapi\<close>: the requests this project sends to a Firecracker process, the
  treatment of its answers, and the readiness poll. Firecracker itself is the parameter
  \<open>tr\<close>: one request against a state of the process and its files gives an answer and the next
  state.
\<close>

section \<open>Requests and answers\<close>

datatype json = JNull | JStr string | JInt int | JBool bool | JArr "json list" | JObj "(string \<times> json) list"

record request =
  meth :: string
  path :: string
  body :: "json option"

text \<open>
  An answer carries its status, the first 4096 bytes of its body, and the \<open>fault_message\<close> those
  bytes decode to, if they are a JSON object that has one.
\<close>

datatype http_result = NoAnswer gerror | Answer int string "string option"

type_synonym 'w transport = "request \<Rightarrow> 'w \<Rightarrow> http_result \<times> 'w"

datatype SnapshotType = SnapshotFull | SnapshotDiff | SnapshotDiffLive

fun snapshot_name :: "SnapshotType \<Rightarrow> string" where
  "snapshot_name SnapshotFull = ''Full''"
| "snapshot_name SnapshotDiff = ''Diff''"
| "snapshot_name SnapshotDiffLive = ''DiffLive''"

definition fault_text :: "string \<Rightarrow> string option \<Rightarrow> string" where
  "fault_text raw fm = (case fm of None \<Rightarrow> raw | Some m \<Rightarrow> if m = '''' then raw else m)"

definition api_do :: "'w transport \<Rightarrow> string \<Rightarrow> string \<Rightarrow> json option \<Rightarrow> 'w \<Rightarrow> (gerror + unit) \<times> 'w" where
  "api_do tr m p b w =
     (case tr \<lparr>meth = m, path = ''http://localhost'' @ p, body = b\<rparr> w of
        (NoAnswer e, w') \<Rightarrow> (Inl e, w')
      | (Answer status raw fm, w') \<Rightarrow>
          (if status \<ge> 300 then (Inl (ApiError status (fault_text raw fm)), w') else (Inr (), w')))"

section \<open>The calls\<close>

record MachineConfig =
  VcpuCount :: int
  MemSizeMiB :: int
  TrackDirtyPages :: bool

record BootSource =
  KernelImagePath :: string
  BootArgs :: string

record Drive =
  DriveID :: string
  PathOnHost :: string
  IsRootDevice :: bool
  IsReadOnly :: bool

record NetworkInterface =
  IfaceID :: string
  IfaceMAC :: string
  HostDevName :: string

text \<open>A call is its method, path and body; \<open>api_do\<close> performs it.\<close>

type_synonym call = "string \<times> string \<times> json option"

definition PutMachineConfig :: "MachineConfig \<Rightarrow> call" where
  "PutMachineConfig c = (''PUT'', ''/machine-config'', Some (JObj
     [(''vcpu_count'', JInt (VcpuCount c)), (''mem_size_mib'', JInt (MemSizeMiB c)),
      (''track_dirty_pages'', JBool (TrackDirtyPages c))]))"

text \<open>\<open>boot_args\<close> is marked \<open>omitempty\<close>.\<close>

definition PutBootSource :: "BootSource \<Rightarrow> call" where
  "PutBootSource b = (''PUT'', ''/boot-source'', Some (JObj
     ((''kernel_image_path'', JStr (KernelImagePath b)) #
      (if BootArgs b = '''' then [] else [(''boot_args'', JStr (BootArgs b))]))))"

definition PutDrive :: "Drive \<Rightarrow> call" where
  "PutDrive d = (''PUT'', ''/drives/'' @ DriveID d, Some (JObj
     [(''drive_id'', JStr (DriveID d)), (''path_on_host'', JStr (PathOnHost d)),
      (''is_root_device'', JBool (IsRootDevice d)), (''is_read_only'', JBool (IsReadOnly d))]))"

definition PutNetworkInterface :: "NetworkInterface \<Rightarrow> call" where
  "PutNetworkInterface n = (''PUT'', ''/network-interfaces/'' @ IfaceID n, Some (JObj
     [(''iface_id'', JStr (IfaceID n)), (''guest_mac'', JStr (IfaceMAC n)),
      (''host_dev_name'', JStr (HostDevName n))]))"

definition Start :: call where
  "Start = (''PUT'', ''/actions'', Some (JObj [(''action_type'', JStr ''InstanceStart'')]))"

definition Pause :: call where
  "Pause = (''PATCH'', ''/vm'', Some (JObj [(''state'', JStr ''Paused'')]))"

definition Resume :: call where
  "Resume = (''PATCH'', ''/vm'', Some (JObj [(''state'', JStr ''Resumed'')]))"

definition CreateSnapshot :: "SnapshotType \<Rightarrow> string \<Rightarrow> string \<Rightarrow> int \<Rightarrow> call" where
  "CreateSnapshot t statePath memPath liveMaxBytes =
     (''PUT'', ''/snapshot/create'', Some (JObj
       ((if liveMaxBytes > 0 then [(''live_max_bytes'', JInt liveMaxBytes)] else []) @
        [(''mem_file_path'', JStr memPath), (''snapshot_path'', JStr statePath),
         (''snapshot_type'', JStr (snapshot_name t))])))"

definition LoadSnapshot :: "string \<Rightarrow> string \<Rightarrow> bool \<Rightarrow> bool \<Rightarrow> call" where
  "LoadSnapshot statePath memPath trackDirty resume =
     (''PUT'', ''/snapshot/load'', Some (JObj
       [(''mem_backend'', JObj [(''backend_path'', JStr memPath), (''backend_type'', JStr ''File'')]),
        (''resume_vm'', JBool resume), (''snapshot_path'', JStr statePath),
        (''track_dirty_pages'', JBool trackDirty)]))"

definition perform :: "'w transport \<Rightarrow> call \<Rightarrow> 'w \<Rightarrow> (gerror + unit) \<times> 'w" where
  "perform tr c = (case c of (m, p, b) \<Rightarrow> api_do tr m p b)"

section \<open>Readiness\<close>

text \<open>
  \<open>WaitReady\<close> polls until the socket answers or the context ends. \<open>ready i\<close> tells whether the
  \<open>i\<close>-th poll finds the socket and gets an answer, \<open>waits\<close> how many 5 ms waits pass before the
  context is done.
\<close>

fun WaitReady :: "(nat \<Rightarrow> bool) \<Rightarrow> nat \<Rightarrow> nat \<Rightarrow> gerror + unit" where
  "WaitReady ready 0 i =
     (if ready i then Inr () else Inl (Wrap ''firecracker API socket %s not ready: %w'' [] (Err ''context deadline exceeded'' [])))"
| "WaitReady ready (Suc waits) i = (if ready i then Inr () else WaitReady ready waits (Suc i))"

lemma WaitReady_iff: "WaitReady ready waits i = Inr () \<longleftrightarrow> (\<exists>j\<le>waits. ready (i + j))"
proof (induction waits arbitrary: i)
  case (Suc waits)
  have "(\<exists>j\<le>Suc waits. ready (i + j)) \<longleftrightarrow> ready i \<or> (\<exists>j\<le>waits. ready (Suc i + j))"
    by (metis Suc_le_mono add.right_neutral add_Suc add_Suc_right le0 not0_implies_Suc)
  with Suc show ?case by simp
qed simp

section \<open>Properties of the client\<close>

lemma api_do_ok:
  "api_do tr m p b w = (Inr (), w') \<longleftrightarrow>
   (\<exists>status raw fm. status < 300 \<and>
      tr \<lparr>meth = m, path = ''http://localhost'' @ p, body = b\<rparr> w = (Answer status raw fm, w'))"
  by (auto simp: api_do_def split: prod.splits http_result.splits)

text \<open>
  \<open>CreateSnapshot\<close> sends a dump budget exactly when it is positive, and the request
  determines the snapshot type and both paths: no two different calls send the same request.
\<close>

theorem CreateSnapshot_inject:
  "CreateSnapshot t sp mp n = CreateSnapshot t' sp' mp' n' \<longleftrightarrow>
   t = t' \<and> sp = sp' \<and> mp = mp' \<and> max 0 n = max 0 n'"
  by (cases t; cases t') (auto simp: CreateSnapshot_def)

end
