(* ===== verification/Throttle.thy ===== *)
theory Throttle
  imports Go_Strings
begin

text \<open>
  The auto-converge throttler of \<open>internal/agent/throttle.go\<close>: the registry of processes and
  duty cyclers, the search for vCPU threads, and the stop/continue cycle as a step relation.
  The thread directory of a process is an argument: its entries and, where it could be read,
  the \<open>comm\<close> of each.
\<close>

section \<open>Registry\<close>

definition maxThrottleLevel :: int where
  "maxThrottleLevel = 5"

definition levelRunPct :: "int list" where
  "levelRunPct = [100, 60, 35, 20, 10, 5]"

record dutyCycler =
  dc_pid :: nat
  dc_tids :: "int list"
  dc_runPct :: int

record Throttler =
  pids :: "string \<Rightarrow> nat option"
  cyclers :: "string \<Rightarrow> dutyCycler option"

definition NewThrottler :: Throttler where
  "NewThrottler = \<lparr>pids = Map.empty, cyclers = Map.empty\<rparr>"

definition Register :: "string \<Rightarrow> nat \<Rightarrow> Throttler \<Rightarrow> Throttler" where
  "Register vmID pid t = t\<lparr>pids := (pids t)(vmID \<mapsto> pid)\<rparr>"

type_synonym task_dir = "gerror + (string \<times> string option) list"

fun vcpu_scan :: "(string \<times> string option) list \<Rightarrow> int list" where
  "vcpu_scan [] = []"
| "vcpu_scan ((name, comm) # es) =
     (case comm of
        None \<Rightarrow> vcpu_scan es
      | Some c \<Rightarrow>
          if has_prefix c ''fc_vcpu'' then
            (case Atoi name of (tid, ok) \<Rightarrow>
               if ok then tid # vcpu_scan es else vcpu_scan es)
          else vcpu_scan es)"

definition vcpuThreads :: "task_dir \<Rightarrow> nat \<Rightarrow> gerror + int list" where
  "vcpuThreads dir pid =
     (case dir of
        Inl e \<Rightarrow> Inl (Wrap ''list threads of %d: %w'' [AInt (int pid)] e)
      | Inr es \<Rightarrow> Inr (vcpu_scan es))"

text \<open>
  \<open>SetLevel\<close> under its mutex. The old cycler is stopped and forgotten before the threads are
  looked up, so an error leaves the VM without one.
\<close>

definition SetLevel :: "(nat \<Rightarrow> task_dir) \<Rightarrow> string \<Rightarrow> int \<Rightarrow> Throttler \<Rightarrow> (gerror + unit) \<times> Throttler" where
  "SetLevel task vmID level t =
     (if level < 0 \<or> level > maxThrottleLevel
      then (Inl (Err ''throttle level %d out of range'' [AInt level]), t)
      else case pids t vmID of
        None \<Rightarrow> (Inl (Err ''unknown VM %q'' [AStr vmID]), t)
      | Some pid \<Rightarrow>
          (let t1 = t\<lparr>cyclers := (cyclers t)(vmID := None)\<rparr>
           in if level = 0 then (Inr (), t1)
              else case vcpuThreads (task pid) pid of
                Inl e \<Rightarrow> (Inl e, t1)
              | Inr tids \<Rightarrow>
                  if tids = [] then (Inl (Err ''no vCPU threads found for pid %d'' [AInt (int pid)]), t1)
                  else (Inr (), t1\<lparr>cyclers := (cyclers t1)(vmID \<mapsto>
                          \<lparr>dc_pid = pid, dc_tids = tids, dc_runPct = levelRunPct ! nat level\<rparr>)\<rparr>)))"

section \<open>The duty cycle\<close>

text \<open>
  The goroutine \<open>run\<close> of one cycler: it waits in one of two \<open>select\<close> statements, each of which
  may take the timer or, once \<open>stop\<close> has closed the channel, the \<open>done\<close> case. \<open>halted\<close> is the
  effect of the last signal on the threads; \<open>ran\<close> and \<open>held\<close> add up, in microseconds, the time
  spent in the two windows.
\<close>

datatype phase = Running_window | Stopped_window | Exited

record cycle =
  phase_of :: phase
  done_closed :: bool
  halted :: bool
  ran :: int
  held :: int

definition period_us :: int where
  "period_us = 20000"

definition run_us :: "int \<Rightarrow> int" where
  "run_us runPct = period_us * runPct div 100"

definition cycle_start :: cycle where
  "cycle_start = \<lparr>phase_of = Running_window, done_closed = False, halted = False, ran = 0, held = 0\<rparr>"

inductive cycle_step :: "int \<Rightarrow> cycle \<Rightarrow> cycle \<Rightarrow> bool" for runPct where
  stop_call: "\<not> done_closed c \<Longrightarrow> cycle_step runPct c (c\<lparr>done_closed := True\<rparr>)"
| done_running: "phase_of c = Running_window \<Longrightarrow> done_closed c \<Longrightarrow>
     cycle_step runPct c (c\<lparr>phase_of := Exited, halted := False\<rparr>)"
| run_over: "phase_of c = Running_window \<Longrightarrow>
     cycle_step runPct c (c\<lparr>phase_of := Stopped_window, halted := True, ran := ran c + run_us runPct\<rparr>)"
| done_stopped: "phase_of c = Stopped_window \<Longrightarrow> done_closed c \<Longrightarrow>
     cycle_step runPct c (c\<lparr>phase_of := Exited, halted := False\<rparr>)"
| stop_over: "phase_of c = Stopped_window \<Longrightarrow>
     cycle_step runPct c (c\<lparr>phase_of := Running_window, halted := False,
       held := held c + (period_us - run_us runPct)\<rparr>)"

inductive cycle_reach :: "int \<Rightarrow> cycle \<Rightarrow> bool" for runPct where
  start: "cycle_reach runPct cycle_start"
| step: "cycle_reach runPct c \<Longrightarrow> cycle_step runPct c c' \<Longrightarrow> cycle_reach runPct c'"

inductive_cases cycle_stepE: "cycle_step runPct c c'"

inductive_simps cycle_step_exited: "cycle_step runPct \<lparr>phase_of = Exited, done_closed = d, halted = h, ran = r, held = k\<rparr> c'"

section \<open>The contract of a throttle\<close>

text \<open>
  What a migration relies on: setting level 0 on a VM that is registered succeeds and leaves no
  cycler, a level that is accepted leaves exactly one at that level, and no call touches another
  VM. The client lemma: a release after any sequence of settings frees the VM.
\<close>

locale throttle_contract =
  fixes set_level :: "string \<Rightarrow> int \<Rightarrow> 't \<Rightarrow> (gerror + unit) \<times> 't"
    and known :: "'t \<Rightarrow> string \<Rightarrow> bool"
    and engaged :: "'t \<Rightarrow> string \<Rightarrow> int option"
  assumes release: "known t v \<Longrightarrow> fst (set_level v 0 t) = Inr () \<and> engaged (snd (set_level v 0 t)) v = None"
    and known_kept: "known (snd (set_level v l t)) u = known t u"
    and others_kept: "u \<noteq> v \<Longrightarrow> engaged (snd (set_level v l t)) u = engaged t u"
begin

lemma known_fold: "known (fold (\<lambda>(v, l) t. snd (set_level v l t)) ops t) u = known t u"
proof (induction ops arbitrary: t)
  case (Cons op ops)
  then show ?case by (cases op) (simp only: fold_Cons o_apply prod.case known_kept)
qed simp

lemma release_after:
  "known t v \<Longrightarrow> engaged (snd (set_level v 0 (fold (\<lambda>(v, l) t. snd (set_level v l t)) ops t))) v = None"
proof -
  assume "known t v"
  then have "known (fold (\<lambda>(v, l) t. snd (set_level v l t)) ops t) v"
    by (simp only: known_fold)
  from release [OF this] show ?thesis by blast
qed

end

definition registered :: "Throttler \<Rightarrow> string \<Rightarrow> bool" where
  "registered t v \<longleftrightarrow> pids t v \<noteq> None"

definition engaged_pct :: "Throttler \<Rightarrow> string \<Rightarrow> int option" where
  "engaged_pct t v = map_option dc_runPct (cyclers t v)"

lemma SetLevel_release:
  "registered t v \<Longrightarrow> SetLevel task v 0 t = (Inr (), t\<lparr>cyclers := (cyclers t)(v := None)\<rparr>)"
  by (auto simp: SetLevel_def registered_def maxThrottleLevel_def Let_def)

lemma SetLevel_pids: "pids (snd (SetLevel task v l t)) = pids t"
  by (simp add: SetLevel_def Let_def split: option.split sum.split)

lemma SetLevel_others: "u \<noteq> v \<Longrightarrow> cyclers (snd (SetLevel task v l t)) u = cyclers t u"
  by (simp add: SetLevel_def Let_def split: option.split sum.split)

lemma SetLevel_registered: "registered (snd (SetLevel task v l t)) u = registered t u"
  by (simp add: registered_def SetLevel_pids)

interpretation thr: throttle_contract "SetLevel task" registered engaged_pct for task
  by unfold_locales
    (simp_all add: SetLevel_release SetLevel_others SetLevel_registered engaged_pct_def)

section \<open>Properties\<close>

lemma tid_12: "Atoi ''12'' = (12, True)"
  by (simp add: Atoi_def digit_val_def Let_def)

lemma cycle_inv:
  "cycle_reach runPct c \<Longrightarrow> halted c \<longleftrightarrow> phase_of c = Stopped_window"
  by (induction rule: cycle_reach.induct) (auto simp: cycle_start_def elim!: cycle_stepE)

lemma cycle_windows:
  "cycle_reach runPct c \<Longrightarrow> \<exists>n. held c = int n * (period_us - run_us runPct) \<and>
     (if phase_of c = Stopped_window then ran c = int (Suc n) * run_us runPct
      else phase_of c = Running_window \<longrightarrow> ran c = int n * run_us runPct)"
proof (induction rule: cycle_reach.induct)
  case start
  show ?case by (rule exI [of _ 0]) (simp add: cycle_start_def)
next
  case (step c c')
  then obtain n where n: "held c = int n * (period_us - run_us runPct)"
    "if phase_of c = Stopped_window then ran c = int (Suc n) * run_us runPct
      else phase_of c = Running_window \<longrightarrow> ran c = int n * run_us runPct" by blast
  from step.hyps(2) show ?case
  proof cases
    case stop_over
    then show ?thesis
      using n by (intro exI [of _ "Suc n"]) (simp add: algebra_simps)
  qed (use n in \<open>auto intro!: exI [of _ n] simp: algebra_simps\<close>)
qed

text \<open>
  C24: The duty cycler never strands the guest: in every reachable state the threads are stopped
  only inside the stop window, once it has exited they run, and from any state in which it was
  told to stop one step of the \<open>done\<close> case ends it with the threads running.
\<close>

theorem cycler_never_strands:
  assumes "cycle_reach runPct c"
  shows "(phase_of c = Exited \<longrightarrow> \<not> halted c) \<and>
    (done_closed c \<and> phase_of c \<noteq> Exited \<longrightarrow>
       cycle_step runPct c (c\<lparr>phase_of := Exited, halted := False\<rparr>))"
  using cycle_inv [OF assms] by (cases "phase_of c") (auto intro: cycle_step.intros)

theorem cycler_never_strands_witness:
  "cycle_reach 60 (cycle_start\<lparr>done_closed := True\<rparr>) \<and>
   cycle_step 60 (cycle_start\<lparr>done_closed := True\<rparr>)
     (cycle_start\<lparr>done_closed := True, phase_of := Exited, halted := False\<rparr>)"
proof -
  have r: "cycle_reach 60 (cycle_start\<lparr>done_closed := True\<rparr>)"
    by (rule cycle_reach.step [OF cycle_reach.start]) (rule cycle_step.stop_call, simp add: cycle_start_def)
  show ?thesis
    using r cycler_never_strands [OF r] by (simp add: cycle_start_def)
qed



text \<open>
  \<open>SetLevel\<close> refuses a level outside 0 to 5 without changing anything; level 0 on a
  registered VM always succeeds and leaves it without a duty cycler, whatever sequence of
  settings, accepted or refused and for this or for other VMs, came before; and a call changes
  no other VM's cycler.
\<close>

theorem SetLevel_contract:
  assumes "registered t v" and "u \<noteq> v" and "level < 0 \<or> 5 < level"
    and t': "t' = fold (\<lambda>(w, l) t. snd (SetLevel task w l t)) ops t"
  shows "(\<exists>e. SetLevel task v level t' = (Inl e, t')) \<and>
    fst (SetLevel task v 0 t') = Inr () \<and> cyclers (snd (SetLevel task v 0 t')) v = None \<and>
    cyclers (snd (SetLevel task v l t')) u = cyclers t' u"
proof -
  have "registered t' v"
    using assms(1) thr.known_fold [of task ops t v] by (simp add: t')
  moreover have "cyclers (snd (SetLevel task v 0 t')) v = None"
    using thr.release_after [OF assms(1), of task ops] by (simp add: t' engaged_pct_def)
  moreover have "\<exists>e. SetLevel task v level t' = (Inl e, t')"
    using assms(3) by (auto simp: SetLevel_def maxThrottleLevel_def)
  ultimately show ?thesis
    using assms(2) by (simp add: SetLevel_release SetLevel_others)
qed

theorem SetLevel_contract_witness:
  "let task = (\<lambda>_. Inr [(''12'', Some ''fc_vcpu 0'')]); t = Register ''vm0'' 7 NewThrottler;
       t' = snd (SetLevel task ''vm0'' 3 t)
   in cyclers t' ''vm0'' = Some \<lparr>dc_pid = 7, dc_tids = [12], dc_runPct = 20\<rparr> \<and>
      SetLevel task ''vm0'' 9 t' = (Inl (Err ''throttle level %d out of range'' [AInt 9]), t') \<and>
      cyclers (snd (SetLevel task ''vm0'' 0 t')) ''vm0'' = None \<and>
      cyclers (snd (SetLevel task ''vm0'' 2 t')) ''vm1'' = cyclers t' ''vm1''"
proof -
  let ?task = "\<lambda>_. Inr [(''12'', Some ''fc_vcpu 0'')] :: task_dir"
  let ?t = "Register ''vm0'' 7 NewThrottler"
  have "registered ?t ''vm0''" by (simp add: registered_def Register_def)
  note c = SetLevel_contract [OF this, of "''vm1''" 9 _ ?task "[(''vm0'', 3)]" 2]
  have "cyclers (snd (SetLevel ?task ''vm0'' 3 ?t)) ''vm0'' = Some \<lparr>dc_pid = 7, dc_tids = [12], dc_runPct = 20\<rparr>"
    by (simp add: SetLevel_def Register_def NewThrottler_def vcpuThreads_def has_prefix_def tid_12
        maxThrottleLevel_def levelRunPct_def Let_def)
  moreover have "SetLevel ?task ''vm0'' 9 t' = (Inl (Err ''throttle level %d out of range'' [AInt 9]), t')" for t'
    by (simp add: SetLevel_def maxThrottleLevel_def)
  ultimately show ?thesis
    using c by (simp add: Let_def)
qed

end
