(* ===== verification/Garp.thy ===== *)
theory Garp
  imports Go_Strings
begin

unbundle bit_operations_syntax

text \<open>
  The gratuitous ARP announcement of \<open>internal/agent/garp.go\<close>: parsing the guest's addresses,
  the 42-byte Ethernet/ARP frame, and the burst of three request/reply pairs. The network
  interface table, the raw socket and its \<open>sendto\<close> are parameters.
\<close>

section \<open>Address parsing (package net)\<close>

definition hex_val :: "char \<Rightarrow> nat option" where
  "hex_val c = (let n = (of_char c :: nat) in
     if 48 \<le> n \<and> n \<le> 57 then Some (n - 48)
     else if 97 \<le> n \<and> n \<le> 102 then Some (n - 87)
     else if 65 \<le> n \<and> n \<le> 70 then Some (n - 55) else None)"

definition hex2 :: "string \<Rightarrow> byte option" where
  "hex2 s = (case s of
     [a, b] \<Rightarrow> (case (hex_val a, hex_val b) of
        (Some x, Some y) \<Rightarrow> Some (of_nat (16 * x + y)) | _ \<Rightarrow> None)
   | _ \<Rightarrow> None)"

text \<open>\<open>xtoi2\<close>: two hexadecimal digits, followed by \<open>e\<close> where anything follows.\<close>

definition xtoi2 :: "string \<Rightarrow> char \<Rightarrow> byte option" where
  "xtoi2 s e = (if 2 < length s \<and> s ! 2 \<noteq> e then None else hex2 (take 2 s))"

fun mac_pairs :: "nat \<Rightarrow> char \<Rightarrow> string \<Rightarrow> byte list option" where
  "mac_pairs 0 e s = Some []"
| "mac_pairs (Suc n) e s =
     (case xtoi2 s e of None \<Rightarrow> None
      | Some b \<Rightarrow> map_option ((#) b) (mac_pairs n e (drop 3 s)))"

fun mac_quads :: "nat \<Rightarrow> string \<Rightarrow> byte list option" where
  "mac_quads 0 s = Some []"
| "mac_quads (Suc n) s =
     (case (hex2 (take 2 s), xtoi2 (drop 2 s) CHR ''.'') of
        (Some a, Some b) \<Rightarrow> map_option (\<lambda>bs. a # b # bs) (mac_quads n (drop 5 s))
      | _ \<Rightarrow> None)"

definition ParseMAC :: "string \<Rightarrow> gerror + byte list" where
  "ParseMAC s =
     (let bad = Inl (Err ''address %s: invalid MAC address'' [AStr s]);
          result = (\<lambda>r. case r of None \<Rightarrow> bad | Some hw \<Rightarrow> Inr hw)
      in if length s < 14 then bad
         else if s ! 2 = CHR '':'' \<or> s ! 2 = CHR ''-'' then
           (let n = (length s + 1) div 3
            in if (length s + 1) mod 3 \<noteq> 0 \<or> n \<notin> {6, 8, 20} then bad
               else result (mac_pairs n (s ! 2) s))
         else if s ! 4 = CHR ''.'' then
           (let n = 2 * (length s + 1) div 5
            in if (length s + 1) mod 5 \<noteq> 0 \<or> n \<notin> {6, 8, 20} then bad
               else result (mac_quads (n div 2) s))
         else bad)"

text \<open>
  The dotted decimal reader: four fields, each of at least one digit, without leading zeros, at
  most 255. \<open>cur\<close> is the value of the field being read, if any digit of it was.
\<close>

fun ip4_fields :: "string \<Rightarrow> int option \<Rightarrow> byte list \<Rightarrow> byte list option" where
  "ip4_fields [] cur acc =
     (case cur of None \<Rightarrow> None
      | Some v \<Rightarrow> if length acc = 3 then Some (acc @ [of_int v]) else None)"
| "ip4_fields (c # cs) cur acc =
     (case digit_val c of
        Some d \<Rightarrow>
          (case cur of
             None \<Rightarrow> ip4_fields cs (Some d) acc
           | Some v \<Rightarrow> if v = 0 \<or> v * 10 + d > 255 then None else ip4_fields cs (Some (v * 10 + d)) acc)
      | None \<Rightarrow>
          (case cur of
             None \<Rightarrow> None
           | Some v \<Rightarrow> if c = CHR ''.'' \<and> length acc < 3 \<and> cs \<noteq> [] then ip4_fields cs None (acc @ [of_int v])
                       else None))"

text \<open>
  \<open>ParseIP(s).To4()\<close>: the first of the characters dot, colon and percent decides the family. An
  IPv6 text has a 4-byte form when it is an IPv4-mapped address; that reader is \<open>mapped\<close>.
\<close>

fun ip_family :: "string \<Rightarrow> char option" where
  "ip_family [] = None"
| "ip_family (c # cs) = (if c = CHR ''.'' \<or> c = CHR '':'' \<or> c = CHR ''%'' then Some c else ip_family cs)"

definition ParseIP_To4 :: "(string \<Rightarrow> byte list option) \<Rightarrow> string \<Rightarrow> byte list option" where
  "ParseIP_To4 mapped s =
     (case ip_family s of
        None \<Rightarrow> None
      | Some c \<Rightarrow> if c = CHR ''.'' then ip4_fields s None [] else if c = CHR '':'' then mapped s else None)"

section \<open>The frame\<close>

text \<open>Go's \<open>copy(b[lo:hi], src)\<close>: as many bytes as both sides have.\<close>

definition copy_at :: "nat \<Rightarrow> nat \<Rightarrow> byte list \<Rightarrow> byte list \<Rightarrow> byte list" where
  "copy_at lo hi src b =
     (let n = min (hi - lo) (length src) in take lo b @ take n src @ drop (lo + n) b)"

definition ETH_P_ARP :: u16 where
  "ETH_P_ARP = 0x0806"

definition buildGARPFrame :: "byte list \<Rightarrow> byte list \<Rightarrow> u16 \<Rightarrow> byte list" where
  "buildGARPFrame mac ip op =
     (let b = replicate 42 0;
          b = copy_at 0 6 (replicate 6 0xff) b;
          b = copy_at 6 12 mac b;
          b = copy_at 12 14 (be_put 2 ETH_P_ARP) b;
          b = copy_at 14 16 (be_put 2 (1 :: u16)) b;
          b = copy_at 16 18 (be_put 2 (0x0800 :: u16)) b;
          b = b[18 := 6, 19 := 4];
          b = copy_at 20 22 (be_put 2 op) b;
          b = copy_at 22 28 mac b;
          b = copy_at 28 32 ip b
      in copy_at 38 42 ip b)"

definition htons :: "u16 \<Rightarrow> u16" where
  "htons v = push_bit 8 v OR drop_bit 8 v"

section \<open>The burst\<close>

record SockaddrLinklayer =
  Protocol :: u16
  Ifindex :: int
  Halen :: byte
  Addr :: "byte list"

record net_if =
  InterfaceByName :: "string \<Rightarrow> gerror + int"
  Socket :: "gerror option"
  Sendto :: "nat \<Rightarrow> gerror option"
  mapped4 :: "string \<Rightarrow> byte list option"

fun send_all :: "(nat \<Rightarrow> gerror option) \<Rightarrow> byte list list \<Rightarrow> byte list list \<Rightarrow> gerror option \<times> byte list list" where
  "send_all snd_err [] sent = (None, sent)"
| "send_all snd_err (fr # frs) sent =
     (case snd_err (length sent) of
        Some e \<Rightarrow> (Some (Wrap ''send GARP: %w'' [] e), sent)
      | None \<Rightarrow> send_all snd_err frs (sent @ [fr]))"

definition burst :: "byte list \<Rightarrow> byte list \<Rightarrow> byte list list" where
  "burst mac ip = concat (map (\<lambda>i. map (buildGARPFrame mac ip) [1, 2]) [0..<3])"

text \<open>The error, the frames put on the wire, and the link-layer address they were sent to.\<close>

definition sendGARP :: "net_if \<Rightarrow> string \<Rightarrow> string \<Rightarrow> string \<Rightarrow>
    gerror option \<times> byte list list \<times> SockaddrLinklayer option" where
  "sendGARP net iface mac ip =
     (case ParseMAC mac of
        Inl e \<Rightarrow> (Some (Wrap ''parse guest MAC: %w'' [] e), [], None)
      | Inr hwAddr \<Rightarrow>
          (case ParseIP_To4 (mapped4 net) ip of
             None \<Rightarrow> (Some (Err ''guest IP %q is not IPv4'' [AStr ip]), [], None)
           | Some ipAddr \<Rightarrow>
               (case InterfaceByName net iface of
                  Inl e \<Rightarrow> (Some (Wrap ''GARP interface %s: %w'' [AStr iface] e), [], None)
                | Inr ifindex \<Rightarrow>
                    (case Socket net of
                       Some e \<Rightarrow> (Some (Wrap ''AF_PACKET socket: %w'' [] e), [], None)
                     | None \<Rightarrow>
                         (case send_all (Sendto net) (burst hwAddr ipAddr) [] of
                            (err, frames) \<Rightarrow>
                              (err, frames, Some \<lparr>Protocol = htons ETH_P_ARP, Ifindex = ifindex,
                                 Halen = 6, Addr = copy_at 0 8 hwAddr (replicate 8 0)\<rparr>))))))"

section \<open>What the frame says\<close>

lemma length_copy_at [simp]:
  "lo \<le> hi \<Longrightarrow> hi \<le> length b \<Longrightarrow> length (copy_at lo hi src b) = length b"
  by (simp add: copy_at_def Let_def)

text \<open>A reader of ARP frames (RFC 826), independent of the builder: destination and source
  Ethernet address, operation, sender and target protocol address.\<close>

record arp =
  eth_dst :: "byte list"
  eth_src :: "byte list"
  arp_op :: u16
  sha :: "byte list"
  spa :: "byte list"
  tpa :: "byte list"

definition read_arp :: "byte list \<Rightarrow> arp option" where
  "read_arp b =
     (if length b = 42 \<and> take 2 (drop 12 b) = [0x08, 0x06] \<and> take 6 (drop 14 b) = [0, 1, 8, 0, 6, 4]
      then Some \<lparr>eth_dst = take 6 b, eth_src = take 6 (drop 6 b), arp_op = be_get (take 2 (drop 20 b)),
             sha = take 6 (drop 22 b), spa = take 4 (drop 28 b), tpa = take 4 (drop 38 b)\<rparr>
      else None)"

lemma length_6E:
  assumes "length xs = 6"
  obtains a b c d e f where "xs = [a, b, c, d, e, f]"
  using assms by (auto simp: length_Suc_conv eval_nat_numeral)

lemma length_4E:
  assumes "length xs = 4"
  obtains a b c d where "xs = [a, b, c, d]"
  using assms by (auto simp: length_Suc_conv eval_nat_numeral)

lemma copy_at_numeral:
  "copy_at (numeral n) hi src (x # b) = x # copy_at (pred_numeral n) (hi - 1) src b"
  by (simp add: copy_at_def Let_def numeral_eq_Suc)

lemma copy_at_Suc: "copy_at (Suc n) hi src (x # b) = x # copy_at n (hi - 1) src b"
  by (simp add: copy_at_def Let_def)

lemma copy_at_0:
  "copy_at 0 hi [] b = b"
  "0 < hi \<Longrightarrow> copy_at 0 hi (s # src) (x # b) = s # copy_at 0 (hi - 1) src b"
  by (simp_all add: copy_at_def Let_def) (cases hi; simp)

lemma replicate_num: "replicate (numeral n) x = x # replicate (pred_numeral n) x"
  by (simp add: numeral_eq_Suc)

lemma be_put_2: "be_put 2 (v :: u16) = [ucast (drop_bit 8 v), ucast v]"
  by (simp add: eval_nat_numeral)

lemma frame_bytes:
  assumes "length mac = 6" and "length ip = 4"
  shows "buildGARPFrame mac ip op =
    replicate 6 0xff @ mac @ [8, 6, 0, 1, 8, 0, 6, 4] @ be_put 2 op @ mac @ ip @ replicate 6 0 @ ip"
proof -
  obtain m0 m1 m2 m3 m4 m5 where m: "mac = [m0, m1, m2, m3, m4, m5]"
    using length_6E [OF assms(1)] by metis
  obtain i0 i1 i2 i3 where i: "ip = [i0, i1, i2, i3]"
    using length_4E [OF assms(2)] by metis
  show ?thesis
    unfolding m i buildGARPFrame_def
    by (simp add: copy_at_numeral copy_at_Suc copy_at_0 be_put_2 replicate_num ETH_P_ARP_def)
qed

lemma send_all_prefix:
  "\<exists>k\<le>length frs. snd (send_all errs frs sent) = sent @ take k frs \<and>
     (fst (send_all errs frs sent) = None \<longrightarrow> k = length frs) \<and>
     (fst (send_all errs frs sent) = None \<longleftrightarrow> (\<forall>i<length frs. errs (length sent + i) = None))"
proof (induction frs arbitrary: sent)
  case (Cons fr frs)
  show ?case
  proof (cases "errs (length sent)")
    case None
    obtain k where k: "k \<le> length frs" "snd (send_all errs frs (sent @ [fr])) = (sent @ [fr]) @ take k frs"
      "fst (send_all errs frs (sent @ [fr])) = None \<longrightarrow> k = length frs"
      "fst (send_all errs frs (sent @ [fr])) = None \<longleftrightarrow> (\<forall>i<length frs. errs (length (sent @ [fr]) + i) = None)"
      using Cons.IH by blast
    then show ?thesis
      using None by (intro exI [of _ "Suc k"]) (auto simp: less_Suc_eq_0_disj)
  qed (auto intro!: exI [of _ 0])
qed simp

lemma send_all_six:
  "length frs = 6 \<Longrightarrow> \<exists>k\<le>6. snd (send_all errs frs []) = take k frs \<and>
     (fst (send_all errs frs []) = None \<longrightarrow> k = 6) \<and>
     (fst (send_all errs frs []) = None \<longleftrightarrow> (\<forall>i<6. errs i = None))"
  using send_all_prefix [of frs errs "[]"] by simp

text \<open>
  C40: The announcement a standard ARP reader extracts from a frame built by
  \<open>buildGARPFrame\<close> is gratuitous for exactly the given pair: broadcast to all stations, from the
  guest's MAC at both layers, with sender and target address both the guest's IP, and the
  requested operation; two frames that agree carry the same MAC, IP and operation.
\<close>

theorem garp_frame_reads_back:
  assumes "length mac = 6" and "length ip = 4"
  shows "read_arp (buildGARPFrame mac ip op) =
    Some \<lparr>eth_dst = replicate 6 0xff, eth_src = mac, arp_op = op, sha = mac, spa = ip, tpa = ip\<rparr>"
proof -
  have "be_get (be_put 2 op) = op" by (rule be16.get_put)
  then show ?thesis
    using assms by (simp add: frame_bytes read_arp_def eval_nat_numeral)
qed

theorem garp_frame_reads_back_witness:
  "read_arp (buildGARPFrame [6, 0, 0xac, 0x1e, 0, 0x32] [172, 30, 0, 50] 2) =
   Some \<lparr>eth_dst = replicate 6 0xff, eth_src = [6, 0, 0xac, 0x1e, 0, 0x32], arp_op = 2,
     sha = [6, 0, 0xac, 0x1e, 0, 0x32], spa = [172, 30, 0, 50], tpa = [172, 30, 0, 50]\<rparr>"
  by (rule garp_frame_reads_back) simp_all

lemma htons_htons: "htons (htons v) = v"
  by (rule bit_word_eqI) (auto simp: htons_def bit_simps)

text \<open>
  With valid addresses, an interface and a socket, \<open>sendGARP\<close> succeeds exactly when all six
  sends do, and whatever fails, the frames on the wire are a prefix of the burst request, reply,
  request, reply, request, reply for the guest's addresses: the first one out is the request.
\<close>

theorem sendGARP_burst:
  assumes "ParseMAC mac = Inr hw" and "ParseIP_To4 (mapped4 net) ip = Some ip4"
    and "InterfaceByName net iface = Inr idx" and "Socket net = None"
    and "sendGARP net iface mac ip = (err, frames, addr)"
  shows "(err = None \<longleftrightarrow> (\<forall>i<6. Sendto net i = None)) \<and>
    (\<exists>k\<le>6. frames = take k (map (\<lambda>i. buildGARPFrame hw ip4 (if even i then 1 else 2)) [0..<6]) \<and>
       (err = None \<longrightarrow> k = 6)) \<and>
    (\<exists>a. addr = Some a \<and> htons (Protocol a) = ETH_P_ARP \<and> Ifindex a = idx)"
proof -
  let ?b = "burst hw ip4"
  have b: "?b = map (\<lambda>i. buildGARPFrame hw ip4 (if even i then 1 else 2)) [0..<6]"
    by (simp add: burst_def upt_rec)
  have l: "length ?b = 6" by (simp add: b)
  let ?s = "send_all (Sendto net) ?b []"
  obtain k where k: "k \<le> 6" "snd ?s = take k ?b" "fst ?s = None \<longrightarrow> k = 6"
    "fst ?s = None \<longleftrightarrow> (\<forall>i<6. Sendto net i = None)"
    using send_all_six [OF l, of "Sendto net"] by (elim exE conjE) (rule that)
  have "err = fst ?s" "frames = snd ?s"
    "addr = Some \<lparr>Protocol = htons ETH_P_ARP, Ifindex = idx, Halen = 6, Addr = copy_at 0 8 hw (replicate 8 0)\<rparr>"
    using assms by (auto simp: sendGARP_def split: prod.splits)
  then show ?thesis
    using k(1,2,3,4) by (simp add: htons_htons b) blast
qed

theorem sendGARP_burst_witness:
  "let net = \<lparr>InterfaceByName = \<lambda>_. Inr 3, Socket = None,
         Sendto = (\<lambda>i. if i = 4 then Some (Err ''ENOBUFS'' []) else None), mapped4 = \<lambda>_. None\<rparr>
   in \<exists>e frames a. sendGARP net ''eth0'' ''06:00:ac:1e:00:32'' ''172.30.0.50'' = (Some e, frames, Some a) \<and>
        (\<exists>k\<le>6. frames = take k (map (\<lambda>i. buildGARPFrame [6, 0, 0xac, 0x1e, 0, 0x32] [172, 30, 0, 50]
           (if even i then 1 else 2)) [0..<6])) \<and> htons (Protocol a) = ETH_P_ARP \<and> Ifindex a = 3"
proof -
  let ?net = "\<lparr>InterfaceByName = \<lambda>_. Inr 3, Socket = None,
         Sendto = (\<lambda>i. if i = 4 then Some (Err ''ENOBUFS'' []) else None), mapped4 = \<lambda>_. None\<rparr>"
  have mac: "ParseMAC ''06:00:ac:1e:00:32'' = Inr [6, 0, 0xac, 0x1e, 0, 0x32]"
    by code_simp
  have ip: "ParseIP_To4 (mapped4 ?net) ''172.30.0.50'' = Some [172, 30, 0, 50]"
    by code_simp
  obtain err frames addr where r: "sendGARP ?net ''eth0'' ''06:00:ac:1e:00:32'' ''172.30.0.50'' = (err, frames, addr)"
    by (metis prod_cases3)
  note b = sendGARP_burst [OF mac ip _ _ r, of 3, simplified]
  have "err \<noteq> None"
    using b by (auto intro: exI [of _ 4])
  then obtain e where "err = Some e" by blast
  with b r show ?thesis
    unfolding Let_def by auto
qed

end
