(* ===== verification/Event_Hub.thy ===== *)
theory Event_Hub
  imports Mig_Prelude "HOL-Library.Sublist"
begin

text \<open>
  The SSE event hub of \<open>internal/agent/server.go\<close>: \<open>publish\<close> fans an event out to bounded
  channels without ever blocking, \<open>serveSSE\<close> subscribes, forwards and unsubscribes. Channels are
  named by numbers; a channel is the queue of its buffered events.
\<close>

type_synonym msg = "string \<times> arg list"

record hub_event =
  ev_ns :: int
  ev_host :: string
  ev_kind :: string
  ev_msg :: msg

text \<open>\<open>log\<close> is the standard output of the agent, \<open>written\<close> what each stream's client was sent.\<close>

record eventHub =
  hub_host :: string
  subs :: "nat \<Rightarrow> hub_event list option"
  log :: "hub_event list"
  written :: "nat \<Rightarrow> hub_event list"

definition chanCap :: nat where
  "chanCap = 256"

definition newEventHub :: "string \<Rightarrow> eventHub" where
  "newEventHub host = \<lparr>hub_host = host, subs = Map.empty, log = [], written = \<lambda>_. []\<rparr>"

text \<open>The \<open>select\<close> with a \<open>default\<close>: a full channel loses the event.\<close>

definition offer :: "hub_event \<Rightarrow> hub_event list \<Rightarrow> hub_event list" where
  "offer b ch = (if length ch < chanCap then ch @ [b] else ch)"

definition publish :: "int \<Rightarrow> string \<Rightarrow> msg \<Rightarrow> eventHub \<Rightarrow> eventHub" where
  "publish now kind msg h =
     (let b = \<lparr>ev_ns = now, ev_host = hub_host h, ev_kind = kind, ev_msg = msg\<rparr>
      in h\<lparr>log := log h @ [b], subs := (\<lambda>c. map_option (offer b) (subs h c))\<rparr>)"

definition sse_open :: "nat \<Rightarrow> eventHub \<Rightarrow> eventHub" where
  "sse_open c h = h\<lparr>subs := (subs h)(c \<mapsto> []), written := (written h)(c := [])\<rparr>"

definition sse_close :: "nat \<Rightarrow> eventHub \<Rightarrow> eventHub" where
  "sse_close c h = h\<lparr>subs := (subs h)(c := None)\<rparr>"

definition sse_forward :: "nat \<Rightarrow> eventHub \<Rightarrow> eventHub option" where
  "sse_forward c h =
     (case subs h c of
        Some (b # ch) \<Rightarrow> Some (h\<lparr>subs := (subs h)(c \<mapsto> ch), written := (written h)(c := written h c @ [b])\<rparr>)
      | _ \<Rightarrow> None)"

text \<open>
  One run of \<open>serveSSE\<close> and the publishers, interleaved: \<open>make\<close> gives a fresh channel, each pass
  of the loop forwards one buffered event, and the end of the request removes the channel.
\<close>

inductive hub_step :: "eventHub \<Rightarrow> eventHub \<Rightarrow> bool" where
  publish_step: "hub_step h (publish now kind msg h)"
| open_step: "subs h c = None \<Longrightarrow> hub_step h (sse_open c h)"
| forward_step: "sse_forward c h = Some h' \<Longrightarrow> hub_step h h'"
| close_step: "hub_step h (sse_close c h)"

inductive hub_reach :: "string \<Rightarrow> eventHub \<Rightarrow> bool" for host where
  init: "hub_reach host (newEventHub host)"
| step: "hub_reach host h \<Longrightarrow> hub_step h h' \<Longrightarrow> hub_reach host h'"

section \<open>Properties\<close>

definition hub_inv :: "eventHub \<Rightarrow> bool" where
  "hub_inv h \<longleftrightarrow> (\<forall>c ch. subs h c = Some ch \<longrightarrow>
     length ch \<le> chanCap \<and> subseq (written h c @ ch) (log h))"

lemma offer_inv:
  assumes "length ch \<le> chanCap" "subseq (w @ ch) l"
  shows "length (offer b ch) \<le> chanCap \<and> subseq (w @ offer b ch) (l @ [b])"
proof (cases "length ch < chanCap")
  case True
  have "subseq ((w @ ch) @ [b]) (l @ [b])"
    by (rule list_emb_append_mono [OF assms(2)]) simp
  then show ?thesis using True by (simp add: offer_def)
next
  case False
  have "subseq (w @ ch) (l @ [b])"
    using assms(2) by (rule subseq_rev_drop_many)
  then show ?thesis using False assms(1) by (simp add: offer_def)
qed

lemma hub_step_inv: "hub_step h h' \<Longrightarrow> hub_inv h \<Longrightarrow> hub_inv h'"
proof (induction rule: hub_step.induct)
  case (publish_step h now kind msg)
  then show ?case
    unfolding hub_inv_def publish_def Let_def by (auto dest: offer_inv)
next
  case (forward_step c h h')
  then show ?case
    by (fastforce simp: hub_inv_def sse_forward_def split: option.splits list.splits if_splits)
qed (auto simp: hub_inv_def sse_open_def sse_close_def)

lemma hub_reach_inv: "hub_reach host h \<Longrightarrow> hub_inv h"
proof (induction rule: hub_reach.induct)
  case init
  then show ?case by (simp add: hub_inv_def newEventHub_def)
next
  case (step h h')
  then show ?case by (blast intro: hub_step_inv)
qed



end
