(* ===== verification/Agent_State.thy ===== *)
theory Agent_State
  imports Err_State Go_Strings Sparse Timeline Fcapi Throttle Garp Event_Hub
begin

text \<open>
  The state of one agent (\<open>internal/agent/server.go\<close>, \<open>vm.go\<close>) and of the host it runs on: the
  configuration, the VM objects and the registry that points to them, the Firecracker processes,
  the files of the runtime directory, the throttler, the event hub and the frames put on the
  uplink. Everything outside the repository is a field of the environment \<open>env\<close>, indexed by a
  count of effects so that it may answer differently each time.
\<close>

section \<open>Configuration and VM slots\<close>

record VMConfig =
  ID :: string
  Vcpus :: int
  MemMiB :: int
  Kernel :: string
  Rootfs :: string
  TapDev :: string
  GuestMAC :: string
  GuestCIDR :: string
  GuestGW :: string
  DirtyMBps :: int
  ScribBufMB :: int

text \<open>The six states, and the zero value of the string type before \<open>boot\<close> sets one.\<close>

datatype VMState = StateZero | StateBooting | StateRunning | StateMigrating | StateReceiving
  | StateMigrated | StateDead

primrec state_name :: "VMState \<Rightarrow> string" where
  "state_name StateZero = ''''"
| "state_name StateBooting = ''booting''"
| "state_name StateRunning = ''running''"
| "state_name StateMigrating = ''migrating''"
| "state_name StateReceiving = ''receiving''"
| "state_name StateMigrated = ''migrated''"
| "state_name StateDead = ''dead''"

text \<open>
  A VM slot. \<open>proc\<close> is the process it started, \<open>api\<close> the process its client is connected to;
  both are nil before \<open>spawnFirecracker\<close>.
\<close>

record VM =
  Cfg :: VMConfig
  vstate :: VMState
  vdir :: string
  proc :: "nat option"
  api :: "nat option"
  baseMem :: string
  needsResync :: bool

record Config =
  HostName :: string
  Listen :: string
  DataDir :: string
  FirecrackerBin :: string
  DefKernel :: string
  DefRootfs :: string
  GARPIface :: string
  LiveRounds :: bool

type_synonym fs = "string \<Rightarrow> sfile option"

record 'p host =
  cfg :: Config
  vms :: "string \<Rightarrow> nat option"
  objs :: "nat \<Rightarrow> VM"
  nextobj :: nat
  procs :: "nat \<Rightarrow> 'p option"
  nextpid :: nat
  files :: fs
  throttle :: Throttler
  hub :: eventHub
  uplink :: "byte list list"
  tick :: nat

text \<open>
  What happens to a request to another agent: delivered and answered, never delivered, cut off
  after some bytes of its body, or delivered with the answer lost.
\<close>

datatype net_outcome = Delivered | ReqLost gerror | CutOff nat gerror | RespLost gerror

record 'p env =
  fc :: "nat \<Rightarrow> ('p \<times> fs) transport"
  guest :: "nat \<Rightarrow> 'p \<Rightarrow> 'p"
  spawned :: "string \<Rightarrow> 'p"
  oserr :: "nat \<Rightarrow> gerror option"
  clk :: "nat \<Rightarrow> int"
  seek :: "sfile \<Rightarrow> lseek"
  tasks :: "nat \<Rightarrow> nat \<Rightarrow> task_dir"
  api_polls :: "nat \<Rightarrow> nat \<Rightarrow> bool"
  api_waits :: "nat \<Rightarrow> nat"
  guest_polls :: "nat \<Rightarrow> nat \<Rightarrow> bool"
  guest_waits :: "nat \<Rightarrow> nat"
  ctx_done :: "nat \<Rightarrow> nat \<Rightarrow> gerror option"
  netif :: "nat \<Rightarrow> net_if"
  peer :: "nat \<Rightarrow> net_outcome"
  sent_seen :: "nat \<Rightarrow> bool"

type_synonym ('p, 'a) host_act = "('p host, 'a) act"

section \<open>Effects\<close>

text \<open>Each effect consumes one index of the environment.\<close>

definition tickE :: "('p, nat) host_act" where
  "tickE h = (Inr (tick h), h\<lparr>tick := Suc (tick h)\<rparr>)"

definition nowE :: "'p env \<Rightarrow> ('p, int) host_act" where
  "nowE e = bindE tickE (\<lambda>t. retE (clk e t))"

text \<open>A call of the \<open>os\<close> package that the environment may fail.\<close>

definition osE :: "'p env \<Rightarrow> ('p, unit) host_act" where
  "osE e = bindE tickE (\<lambda>t. case oserr e t of None \<Rightarrow> retE () | Some err \<Rightarrow> failE err)"

definition openE :: "'p env \<Rightarrow> string \<Rightarrow> ('p, sfile) host_act" where
  "openE e p = thenE (osE e) (bindE (askE files) (\<lambda>fs.
     case fs p of None \<Rightarrow> failE (Err ''open %s: no such file or directory'' [AStr p]) | Some f \<Rightarrow> retE f))"

text \<open>\<open>os.Create\<close>, and \<open>os.OpenFile\<close> with \<open>O_CREATE|O_TRUNC\<close>.\<close>

definition createE :: "'p env \<Rightarrow> string \<Rightarrow> ('p, unit) host_act" where
  "createE e p = thenE (osE e) (modE (\<lambda>h. h\<lparr>files := (files h)(p \<mapsto> [])\<rparr>))"

definition writeE :: "string \<Rightarrow> sfile \<Rightarrow> ('p, unit) host_act" where
  "writeE p f = modE (\<lambda>h. h\<lparr>files := (files h)(p \<mapsto> f)\<rparr>)"

definition removeE :: "'p env \<Rightarrow> string \<Rightarrow> ('p, unit) host_act" where
  "removeE e p = thenE (osE e) (modE (\<lambda>h. h\<lparr>files := (files h)(p := None)\<rparr>))"

definition renameE :: "'p env \<Rightarrow> string \<Rightarrow> string \<Rightarrow> ('p, unit) host_act" where
  "renameE e p q = bindE (openE e p) (\<lambda>f.
     modE (\<lambda>h. h\<lparr>files := ((files h)(p := None))(q \<mapsto> f)\<rparr>))"

definition removeAllE :: "'p env \<Rightarrow> string \<Rightarrow> ('p, unit) host_act" where
  "removeAllE e d = thenE (osE e) (modE (\<lambda>h. h\<lparr>files :=
     (\<lambda>p. if p = d \<or> has_prefix p (d @ ''/'') then None else files h p)\<rparr>))"

text \<open>An error that the code discards with \<open>_ =\<close>.\<close>

definition ignoreE :: "('p, 'a) host_act \<Rightarrow> ('p, unit) host_act" where
  "ignoreE m = thenE (tryE m) (retE ())"

definition publishE :: "'p env \<Rightarrow> string \<Rightarrow> msg \<Rightarrow> ('p, unit) host_act" where
  "publishE e kind msg = bindE (nowE e) (\<lambda>t. modE (\<lambda>h. h\<lparr>hub := publish t kind msg (hub h)\<rparr>))"

definition setLevelE :: "'p env \<Rightarrow> string \<Rightarrow> int \<Rightarrow> ('p, unit) host_act" where
  "setLevelE e v level = bindE tickE (\<lambda>t h.
     case SetLevel (tasks e t) v level (throttle h) of (r, th) \<Rightarrow> (r, h\<lparr>throttle := th\<rparr>))"

section \<open>VM objects\<close>

definition vmE :: "nat \<Rightarrow> ('p, VM) host_act" where
  "vmE a = askE (\<lambda>h. objs h a)"

definition setVM :: "nat \<Rightarrow> (VM \<Rightarrow> VM) \<Rightarrow> ('p, unit) host_act" where
  "setVM a f = modE (\<lambda>h. h\<lparr>objs := (objs h)(a := f (objs h a))\<rparr>)"

definition setState :: "nat \<Rightarrow> VMState \<Rightarrow> ('p, unit) host_act" where
  "setState a s = setVM a (vstate_update (\<lambda>_. s))"

definition newVM :: "VM \<Rightarrow> ('p, nat) host_act" where
  "newVM v h = (Inr (nextobj h), h\<lparr>objs := (objs h)(nextobj h := v), nextobj := Suc (nextobj h)\<rparr>)"

definition vmDir :: "Config \<Rightarrow> string \<Rightarrow> string" where
  "vmDir c i = Join (DataDir c) i"

text \<open>The files of a slot.\<close>

definition sockPath :: "VM \<Rightarrow> string" where
  "sockPath v = Join (vdir v) ''fc.sock''"
definition logPath :: "VM \<Rightarrow> string" where
  "logPath v = Join (vdir v) ''fc.log''"
definition baseMemPath :: "VM \<Rightarrow> string" where
  "baseMemPath v = Join (vdir v) ''base.mem''"
definition baseStatePath :: "VM \<Rightarrow> string" where
  "baseStatePath v = Join (vdir v) ''base.vmstate''"
definition roundMemPath :: "VM \<Rightarrow> int \<Rightarrow> string" where
  "roundMemPath v r = Join (vdir v) (''round-'' @ Itoa r @ ''.mem'')"
definition finalMemPath :: "VM \<Rightarrow> string" where
  "finalMemPath v = Join (vdir v) ''final.mem''"
definition finalStatePath :: "VM \<Rightarrow> string" where
  "finalStatePath v = Join (vdir v) ''final.vmstate''"
definition recvMemPath :: "VM \<Rightarrow> string" where
  "recvMemPath v = Join (vdir v) ''recv.mem''"

text \<open>
  A request of the slot's client: the guest has been running since the last effect, then the
  process answers. A killed process refuses the connection; a nil client is a nil dereference.
\<close>

definition apiE :: "'p env \<Rightarrow> nat \<Rightarrow> call \<Rightarrow> ('p, unit) host_act" where
  "apiE e a c = bindE tickE (\<lambda>t h.
     case api (objs h a) of
       None \<Rightarrow> (Inl (Err ''nil pointer dereference'' []), h)
     | Some pid \<Rightarrow>
         (case procs h pid of
            None \<Rightarrow> (Inl (Err ''dial unix %s: connection refused'' [AStr (sockPath (objs h a))]), h)
          | Some p \<Rightarrow>
              (case perform (fc e t) c (guest e t p, files h) of
                 (r, p', fs') \<Rightarrow> (r, h\<lparr>procs := (procs h)(pid \<mapsto> p'), files := fs'\<rparr>))))"

text \<open>\<open>kill\<close> ignores a process that is already gone.\<close>

definition kill :: "nat \<Rightarrow> ('p, unit) host_act" where
  "kill a = modE (\<lambda>h. case proc (objs h a) of None \<Rightarrow> h | Some pid \<Rightarrow> h\<lparr>procs := (procs h)(pid := None)\<rparr>)"

section \<open>The registry\<close>

definition getVM :: "string \<Rightarrow> 'p host \<Rightarrow> nat option" where
  "getVM i h = vms h i"

definition putVM :: "nat \<Rightarrow> 'p host \<Rightarrow> nat option \<times> 'p host" where
  "putVM a h =
     (let i = ID (Cfg (objs h a)) in (vms h i, h\<lparr>vms := (vms h)(i \<mapsto> a)\<rparr>))"

definition deleteVM :: "string \<Rightarrow> 'p host \<Rightarrow> 'p host" where
  "deleteVM i h = h\<lparr>vms := (vms h)(i := None)\<rparr>"

definition putVM_E :: "nat \<Rightarrow> ('p, nat option) host_act" where
  "putVM_E a h = (case putVM a h of (old, h') \<Rightarrow> (Inr old, h'))"

text \<open>
  The contract the handlers rely on: a slot put under its ID is found there, nothing else moves,
  a deleted ID is free, and \<open>put\<close> hands back what it displaced.
\<close>

locale registry =
  fixes lookup :: "string \<Rightarrow> 's \<Rightarrow> nat option"
    and put :: "nat \<Rightarrow> 's \<Rightarrow> nat option \<times> 's"
    and del :: "string \<Rightarrow> 's \<Rightarrow> 's"
    and key :: "nat \<Rightarrow> 's \<Rightarrow> string"
  assumes lookup_put: "lookup i (snd (put a s)) = (if i = key a s then Some a else lookup i s)"
    and put_old: "fst (put a s) = lookup (key a s) s"
    and lookup_del: "lookup i (del j s) = (if i = j then None else lookup i s)"
    and key_put: "key b (snd (put a s)) = key b s"
begin

lemma put_del_frees: "lookup (key a s) (del (key a s) (snd (put a s))) = None"
  by (simp add: lookup_del)

lemma put_del_others: "i \<noteq> key a s \<Longrightarrow> lookup i (del (key a s) (snd (put a s))) = lookup i s"
  by (simp add: lookup_del lookup_put)

lemma put_twice: "key b s = key a s \<Longrightarrow> fst (put b (snd (put a s))) = Some a"
  by (simp add: put_old lookup_put key_put)

end

interpretation reg: registry getVM putVM deleteVM "\<lambda>a h. ID (Cfg (objs h a))"
  by unfold_locales (auto simp: getVM_def putVM_def deleteVM_def Let_def)

text \<open>
  Well-formedness of a host: the numbers handed out for processes and VM objects are fresh.
\<close>

definition host_wf :: "'p host \<Rightarrow> bool" where
  "host_wf h \<longleftrightarrow> (\<forall>a<nextobj h. \<forall>pid. proc (objs h a) = Some pid \<longrightarrow> pid < nextpid h) \<and>
     (\<forall>i a. vms h i = Some a \<longrightarrow> a < nextobj h)"

section \<open>Inversion of the effects\<close>

text \<open>The effects that touch nothing but the clock index, the duty cyclers, the hub and the uplink.\<close>

definition quiet :: "'p host \<Rightarrow> 'p host \<Rightarrow> bool" where
  "quiet h h' \<longleftrightarrow> cfg h' = cfg h \<and> vms h' = vms h \<and> objs h' = objs h \<and> nextobj h' = nextobj h \<and>
     procs h' = procs h \<and> nextpid h' = nextpid h \<and> files h' = files h \<and>
     pids (throttle h') = pids (throttle h)"

lemma quiet_refl [simp, intro]: "quiet h h"
  by (simp add: quiet_def)

lemma quiet_trans [trans]: "quiet h h1 \<Longrightarrow> quiet h1 h2 \<Longrightarrow> quiet h h2"
  by (simp add: quiet_def)

lemmas quietD = quiet_def [THEN iffD1]

lemma tickE_run [act_simps]: "tickE h = (r, h') \<longleftrightarrow> r = Inr (tick h) \<and> h' = h\<lparr>tick := Suc (tick h)\<rparr>"
  by (auto simp: tickE_def)

lemma nowE_run [act_simps]:
  "nowE e h = (r, h') \<longleftrightarrow> r = Inr (clk e (tick h)) \<and> h' = h\<lparr>tick := Suc (tick h)\<rparr>"
  by (auto simp: nowE_def bindE_def tickE_def retE_def)

lemma osE_run [act_simps]:
  "osE e h = (r, h') \<longleftrightarrow>
     r = (case oserr e (tick h) of None \<Rightarrow> Inr () | Some err \<Rightarrow> Inl err) \<and> h' = h\<lparr>tick := Suc (tick h)\<rparr>"
  by (auto simp: osE_def bindE_def tickE_def retE_def failE_def split: option.splits)

lemma quiet_tick [simp]: "quiet h (h\<lparr>tick := t\<rparr>)"
  by (simp add: quiet_def)

lemma quiet_publish: "publishE e kind msg h = (r, h') \<Longrightarrow> quiet h h' \<and> r = Inr ()"
  by (auto simp: publishE_def bindE_def nowE_def tickE_def retE_def modE_def quiet_def)

lemma quiet_setLevel: "setLevelE e v l h = (r, h') \<Longrightarrow> quiet h h'"
  using SetLevel_pids [of "tasks e (tick h)" v l "throttle h"]
  by (auto simp: setLevelE_def bindE_def tickE_def quiet_def split: prod.splits)

lemma ignoreE_run [act_simps]: "ignoreE m h = (r, h') \<longleftrightarrow> r = Inr () \<and> (\<exists>x. m h = (x, h'))"
  by (auto simp: ignoreE_def bindE_def tryE_def retE_def split: prod.splits)

lemma openE_ok [act_simps]:
  "openE e p h = (Inr f, h') \<longleftrightarrow> oserr e (tick h) = None \<and> files h p = Some f \<and> h' = h\<lparr>tick := Suc (tick h)\<rparr>"
  by (auto simp: openE_def act_simps retE_def failE_def split: option.splits)

lemma openE_err: "openE e p h = (Inl err, h') \<Longrightarrow> h' = h\<lparr>tick := Suc (tick h)\<rparr>"
  by (auto simp: openE_def act_simps retE_def failE_def split: option.splits)

lemma createE_ok [act_simps]:
  "createE e p h = (Inr x, h') \<longleftrightarrow>
     oserr e (tick h) = None \<and> h' = h\<lparr>tick := Suc (tick h), files := (files h)(p \<mapsto> [])\<rparr>"
  by (auto simp: createE_def act_simps split: option.splits)

lemma createE_err: "createE e p h = (Inl err, h') \<Longrightarrow> h' = h\<lparr>tick := Suc (tick h)\<rparr>"
  by (auto simp: createE_def act_simps)

lemma writeE_run [act_simps]:
  "writeE p f h = (r, h') \<longleftrightarrow> r = Inr () \<and> h' = h\<lparr>files := (files h)(p \<mapsto> f)\<rparr>"
  by (auto simp: writeE_def act_simps)

lemma removeE_run:
  "removeE e p h = (r, h') \<Longrightarrow>
     h' = h\<lparr>tick := Suc (tick h)\<rparr> \<or> h' = h\<lparr>tick := Suc (tick h), files := (files h)(p := None)\<rparr>"
  by (cases r) (auto simp: removeE_def act_simps)

lemma vmE_run [act_simps]: "vmE a h = (r, h') \<longleftrightarrow> r = Inr (objs h a) \<and> h' = h"
  by (auto simp: vmE_def act_simps)

lemma setVM_run [act_simps]:
  "setVM a f h = (r, h') \<longleftrightarrow> r = Inr () \<and> h' = h\<lparr>objs := (objs h)(a := f (objs h a))\<rparr>"
  by (auto simp: setVM_def act_simps)

lemma setState_run [act_simps]:
  "setState a s h = (r, h') \<longleftrightarrow> r = Inr () \<and> h' = h\<lparr>objs := (objs h)(a := (objs h a)\<lparr>vstate := s\<rparr>)\<rparr>"
  by (auto simp: setState_def act_simps)

lemma newVM_run [act_simps]:
  "newVM v h = (r, h') \<longleftrightarrow>
     r = Inr (nextobj h) \<and> h' = h\<lparr>objs := (objs h)(nextobj h := v), nextobj := Suc (nextobj h)\<rparr>"
  by (auto simp: newVM_def)

lemma kill_run [act_simps]:
  "kill a h = (r, h') \<longleftrightarrow> r = Inr () \<and>
     h' = (case proc (objs h a) of None \<Rightarrow> h | Some pid \<Rightarrow> h\<lparr>procs := (procs h)(pid := None)\<rparr>)"
  by (auto simp: kill_def act_simps)

lemma apiE_ok:
  assumes "apiE e a c h = (Inr x, h')"
  obtains pid p p' fs' where "api (objs h a) = Some pid" "procs h pid = Some p"
    "perform (fc e (tick h)) c (guest e (tick h) p, files h) = (Inr (), p', fs')"
    "h' = h\<lparr>tick := Suc (tick h), procs := (procs h)(pid \<mapsto> p'), files := fs'\<rparr>"
  using assms by (auto simp: apiE_def act_simps split: option.splits prod.splits)

text \<open>What a request can change: the state of the process it goes to, and files.\<close>

definition api_frame :: "nat \<Rightarrow> 'p host \<Rightarrow> 'p host \<Rightarrow> bool" where
  "api_frame a h h' \<longleftrightarrow> cfg h' = cfg h \<and> vms h' = vms h \<and> objs h' = objs h \<and> nextobj h' = nextobj h \<and>
     nextpid h' = nextpid h \<and> throttle h' = throttle h \<and> hub h' = hub h \<and> uplink h' = uplink h \<and>
     (\<forall>pid. (procs h' pid = None) = (procs h pid = None)) \<and>
     (\<forall>pid. api (objs h a) \<noteq> Some pid \<longrightarrow> procs h' pid = procs h pid)"

lemma apiE_frame: "apiE e a c h = (r, h') \<Longrightarrow> api_frame a h h'"
  by (cases r) (auto simp: apiE_def act_simps api_frame_def split: option.splits prod.splits if_splits)

end
