(* ===== verification/VM_Slot.thy ===== *)
theory VM_Slot
  imports Agent_State
begin

text \<open>
  The life of a VM slot, \<open>internal/agent/vm.go\<close>: the kernel command line, starting the
  Firecracker process, booting a guest up to its provision-time base snapshot, waiting for the
  workload to answer, and the split of the guest's CIDR.
\<close>

definition bootArgs :: "VMConfig \<Rightarrow> string" where
  "bootArgs c =
     ''console=ttyS0 reboot=k panic=1 pci=off root=/dev/vda rw '' @
     ''guestd.ip='' @ GuestCIDR c @ '' guestd.gw='' @ GuestGW c @
     '' guestd.dirty_mbps='' @ Itoa (DirtyMBps c) @ '' guestd.buf_mb='' @ Itoa (ScribBufMB c)"

fun splitCIDR :: "string \<Rightarrow> string \<times> string \<times> bool" where
  "splitCIDR [] = ('''', '''', False)"
| "splitCIDR (c # cs) =
     (if c = CHR ''/'' then ('''', cs, True)
      else case splitCIDR cs of (ip, pfx, ok) \<Rightarrow> (c # ip, pfx, ok))"

text \<open>
  \<open>spawnFirecracker\<close>: a new process, registered with the throttler (which cannot fail), a client
  for it, and the wait for its API.
\<close>

definition attach :: "'p env \<Rightarrow> nat \<Rightarrow> ('p, unit) host_act" where
  "attach e a = modE (\<lambda>h.
     let v = objs h a; pid = nextpid h
     in h\<lparr>procs := (procs h)(pid \<mapsto> spawned e (ID (Cfg v))), nextpid := Suc pid,
          throttle := Register (ID (Cfg v)) pid (throttle h),
          objs := (objs h)(a := v\<lparr>proc := Some pid, api := Some pid\<rparr>)\<rparr>)"

definition waitReadyE :: "'p env \<Rightarrow> ('p, unit) host_act" where
  "waitReadyE e = bindE tickE (\<lambda>t h. (WaitReady (api_polls e t) (api_waits e t) 0, h))"

definition spawnFirecracker :: "'p env \<Rightarrow> nat \<Rightarrow> ('p, unit) host_act" where
  "spawnFirecracker e a = bindE (vmE a) (\<lambda>v.
     thenE (osE e)
    (thenE (ignoreE (removeE e (sockPath v)))
    (thenE (createE e (logPath v))
    (thenE (wrapE ''start firecracker: %w'' [] (osE e))
    (thenE (attach e a)
           (waitReadyE e))))))"

text \<open>
  The poll of the guest's status page: \<open>waits\<close> is how many times the deadline was still ahead,
  \<open>up i\<close> whether the \<open>i\<close>-th request was answered with 200.
\<close>

fun guest_poll :: "(nat \<Rightarrow> bool) \<Rightarrow> (nat \<Rightarrow> gerror option) \<Rightarrow> gerror \<Rightarrow> nat \<Rightarrow> nat \<Rightarrow> gerror + unit" where
  "guest_poll up gone timeout 0 i = Inl timeout"
| "guest_poll up gone timeout (Suc waits) i =
     (if up i then Inr ()
      else case gone i of Some e \<Rightarrow> Inl e | None \<Rightarrow> guest_poll up gone timeout waits (Suc i))"

definition waitGuestReady :: "'p env \<Rightarrow> nat \<Rightarrow> ('p, unit) host_act" where
  "waitGuestReady e a = bindE (vmE a) (\<lambda>v.
     let (guestIP, _, _) = splitCIDR (GuestCIDR (Cfg v));
         url = ''http://'' @ guestIP @ '':7780/status'';
         timeout = Err ''guest %s did not become ready (no answer at %s)'' [AStr (ID (Cfg v)), AStr url]
     in bindE tickE (\<lambda>t h. (guest_poll (guest_polls e t) (ctx_done e t) timeout (guest_waits e t) 0, h)))"

definition machine_of :: "VMConfig \<Rightarrow> MachineConfig" where
  "machine_of c = \<lparr>VcpuCount = Vcpus c, MemSizeMiB = MemMiB c, TrackDirtyPages = True\<rparr>"

definition boot :: "'p env \<Rightarrow> nat \<Rightarrow> ('p, unit) host_act" where
  "boot e a =
     thenE (setState a StateBooting)
    (thenE (spawnFirecracker e a)
    (bindE (vmE a) (\<lambda>v.
     thenE (apiE e a (PutMachineConfig (machine_of (Cfg v))))
    (thenE (apiE e a (PutBootSource \<lparr>KernelImagePath = Kernel (Cfg v), BootArgs = bootArgs (Cfg v)\<rparr>))
    (thenE (apiE e a (PutDrive \<lparr>DriveID = ''rootfs'', PathOnHost = Rootfs (Cfg v), IsRootDevice = True, IsReadOnly = False\<rparr>))
    (thenE (apiE e a (PutNetworkInterface \<lparr>IfaceID = ''eth0'', IfaceMAC = GuestMAC (Cfg v), HostDevName = TapDev (Cfg v)\<rparr>))
    (thenE (apiE e a Start)
    (thenE (waitGuestReady e a)
    (thenE (apiE e a Pause)
    (thenE (apiE e a (CreateSnapshot SnapshotFull (baseStatePath v) (baseMemPath v) 0))
    (thenE (apiE e a Resume)
    (thenE (setVM a (baseMem_update (\<lambda>_. baseMemPath v)))
           (setState a StateRunning)))))))))))))"

section \<open>Facts about the slot operations\<close>

lemma splitCIDR_sound:
  "splitCIDR s = (ip, pfx, ok) \<Longrightarrow>
     CHR ''/'' \<notin> set ip \<and> s = ip @ (if ok then CHR ''/'' # pfx else '''') \<and> (\<not> ok \<longrightarrow> pfx = '''')"
  by (induction s arbitrary: ip) (auto split: if_splits prod.splits)

lemma guest_poll_iff:
  "guest_poll up gone timeout waits i = Inr () \<longleftrightarrow>
     (\<exists>j<waits. up (i + j) \<and> (\<forall>k<j. gone (i + k) = None))"
proof (induction waits arbitrary: i)
  case (Suc waits)
  have "(\<exists>j<Suc waits. up (i + j) \<and> (\<forall>k<j. gone (i + k) = None)) \<longleftrightarrow>
      up i \<or> gone i = None \<and> (\<exists>j<waits. up (Suc i + j) \<and> (\<forall>k<j. gone (Suc i + k) = None))"
    by (auto simp: Ex_less_Suc2 All_less_Suc2)
  with Suc show ?case by (auto split: option.split)
qed simp

text \<open>What starting a process changes: the slot gets a fresh process, no other slot or process moves.\<close>

definition spawn_frame :: "nat \<Rightarrow> 'p host \<Rightarrow> 'p host \<Rightarrow> bool" where
  "spawn_frame a h h' \<longleftrightarrow> cfg h' = cfg h \<and> vms h' = vms h \<and> nextobj h' = nextobj h \<and> nextpid h \<le> nextpid h' \<and>
     (\<forall>b. b \<noteq> a \<longrightarrow> objs h' b = objs h b) \<and>
     Cfg (objs h' a) = Cfg (objs h a) \<and> vdir (objs h' a) = vdir (objs h a) \<and>
     (\<forall>pid<nextpid h. procs h' pid = procs h pid) \<and>
     (\<forall>p. p \<noteq> sockPath (objs h a) \<longrightarrow> p \<noteq> logPath (objs h a) \<longrightarrow> files h' p = files h p)"

lemma waitReadyE_run:
  "waitReadyE e h = (r, h') \<longleftrightarrow>
     r = WaitReady (api_polls e (tick h)) (api_waits e (tick h)) 0 \<and> h' = h\<lparr>tick := Suc (tick h)\<rparr>"
  by (auto simp: waitReadyE_def bindE_def tickE_def)

lemma attach_run: "attach e a h = (r, h') \<longleftrightarrow> r = Inr () \<and> h' =
    h\<lparr>procs := (procs h)(nextpid h \<mapsto> spawned e (ID (Cfg (objs h a)))), nextpid := Suc (nextpid h),
      throttle := Register (ID (Cfg (objs h a))) (nextpid h) (throttle h),
      objs := (objs h)(a := (objs h a)\<lparr>proc := Some (nextpid h), api := Some (nextpid h)\<rparr>)\<rparr>"
  by (auto simp: attach_def modE_def Let_def)

lemma spawnFirecracker_frame:
  assumes "spawnFirecracker e a h = (r, h')"
  shows "spawn_frame a h h'"
  using assms
  by (cases r) (auto simp: spawnFirecracker_def act_simps attach_run waitReadyE_run spawn_frame_def
      dest!: removeE_run createE_err)

lemma spawnFirecracker_ok:
  assumes "spawnFirecracker e a h = (Inr x, h')"
  shows "procs h' (nextpid h) = Some (spawned e (ID (Cfg (objs h a)))) \<and> nextpid h' = Suc (nextpid h) \<and>
    objs h' = (objs h)(a := (objs h a)\<lparr>proc := Some (nextpid h), api := Some (nextpid h)\<rparr>) \<and>
    procs h' = (procs h)(nextpid h \<mapsto> spawned e (ID (Cfg (objs h a)))) \<and>
    throttle h' = Register (ID (Cfg (objs h a))) (nextpid h) (throttle h) \<and> hub h' = hub h"
  using assms
  by (auto simp: spawnFirecracker_def act_simps attach_run waitReadyE_run dest!: removeE_run)

end
