(* ===== verification/Guest_Boot.thy ===== *)
theory Guest_Boot
  imports Guestd VM_Slot
begin

text \<open>
  The agreement between the agent and the guest about the workload: the kernel command line
  that \<open>bootArgs\<close> writes (\<open>internal/agent/vm.go\<close>) and that \<open>parseCmdline\<close> reads inside the guest
  (\<open>cmd/guestd\<close>).
\<close>

section \<open>Numbers\<close>

lemma nat_dec_Cons: "\<exists>c cs d. nat_dec n = c # cs \<and> d < 10 \<and> c = digit_char d"
proof -
  have "nat_dec n \<noteq> []" by (subst nat_dec.simps) simp
  then obtain c cs where "nat_dec n = c # cs" by (cases "nat_dec n") auto
  moreover from this have "\<exists>d<10. c = digit_char d" using nat_dec_digits [of c n] by simp
  ultimately show ?thesis by blast
qed

lemma digit_char_plain: "d < 10 \<Longrightarrow> digit_char d \<noteq> CHR ''-'' \<and> digit_char d \<noteq> CHR ''+'' \<and> \<not> is_space (digit_char d)"
proof -
  assume "d < 10"
  then have "d \<in> {0, 1, 2, 3, 4, 5, 6, 7, 8, 9}" by auto
  then show ?thesis by (auto simp: digit_char_def is_space_def char_of_def)
qed

lemma Atoi_Itoa:
  assumes "- (2 ^ 63) \<le> n" and "n < 2 ^ 63"
  shows "Atoi (Itoa n) = (n, True)"
proof (cases "n < 0")
  case True
  obtain c cs d where c: "nat_dec (nat (- n)) = c # cs" using nat_dec_Cons by blast
  have "digits_val 0 (nat_dec (nat (- n))) = Some (- n)" using True by (simp add: digits_val_dec)
  then show ?thesis using True assms c by (simp add: Atoi_def Itoa_def Let_def)
next
  case False
  obtain c cs d where c: "nat_dec (nat n) = c # cs" "d < 10" "c = digit_char d" using nat_dec_Cons by blast
  have "digits_val 0 (nat_dec (nat n)) = Some n" using False by (simp add: digits_val_dec)
  then show ?thesis using False assms c digit_char_plain [OF c(2)] by (simp add: Atoi_def Itoa_def Let_def)
qed

section \<open>Fields\<close>

definition spaceless :: "string \<Rightarrow> bool" where
  "spaceless s \<longleftrightarrow> (\<forall>c\<in>set s. \<not> is_space c)"

lemma spaceless_simps [simp]:
  "spaceless []" "spaceless (c # s) \<longleftrightarrow> \<not> is_space c \<and> spaceless s" "spaceless (s @ t) \<longleftrightarrow> spaceless s \<and> spaceless t"
  by (auto simp: spaceless_def)

lemma spaceless_Itoa [simp]: "spaceless (Itoa n)"
proof -
  have "spaceless (nat_dec m)" for m
    unfolding spaceless_def using nat_dec_digits digit_char_plain by metis
  then show ?thesis by (simp add: Itoa_def is_space_def)
qed

lemma fields_loop_word: "spaceless t \<Longrightarrow> fields_loop cur (t @ s) = fields_loop (cur @ t) s"
  by (induction t arbitrary: cur) auto

lemma Fields_word:
  assumes "spaceless t" and "t \<noteq> []" and "s = [] \<or> is_space (hd s)"
  shows "Fields (t @ s) = t # Fields s"
  using assms fields_loop_word [OF assms(1), of "[]" s] by (cases s) (auto simp: Fields_def)

lemma Fields_space: "is_space c \<Longrightarrow> Fields (c # s) = Fields s"
  by (simp add: Fields_def)

section \<open>The round trip\<close>

lemma fold_other:
  "(\<And>t. t \<in> set ts \<Longrightarrow> cmdline_step t st = st) \<Longrightarrow> fold cmdline_step ts st = st"
  by (induction ts) auto

lemma bootArgs_fields:
  assumes "spaceless (GuestCIDR c)" and "spaceless (GuestGW c)" and "rest = [] \<or> is_space (hd rest)"
  shows "Fields (bootArgs c @ rest) = [''console=ttyS0'', ''reboot=k'', ''panic=1'', ''pci=off'', ''root=/dev/vda'', ''rw'',
    ''guestd.ip='' @ GuestCIDR c, ''guestd.gw='' @ GuestGW c, ''guestd.dirty_mbps='' @ Itoa (DirtyMBps c),
    ''guestd.buf_mb='' @ Itoa (ScribBufMB c)] @ Fields rest"
proof -
  have head: "Fields (''console=ttyS0 reboot=k panic=1 pci=off root=/dev/vda rw '' @ s) =
      [''console=ttyS0'', ''reboot=k'', ''panic=1'', ''pci=off'', ''root=/dev/vda'', ''rw''] @ Fields s" for s
    by (simp add: Fields_def is_space_def)
  have word: "Fields (t @ '' '' @ s) = t # Fields s" if "spaceless t" "t \<noteq> []" for t s
    using Fields_word [OF that, of "'' '' @ s"] Fields_space [of "CHR '' ''" s] by (simp add: is_space_def)
  have last: "Fields ((''guestd.buf_mb='' @ Itoa (ScribBufMB c)) @ rest) = (''guestd.buf_mb='' @ Itoa (ScribBufMB c)) # Fields rest"
    by (rule Fields_word) (use assms(3) in \<open>simp_all add: is_space_def\<close>)
  have eq: "bootArgs c @ rest = ''console=ttyS0 reboot=k panic=1 pci=off root=/dev/vda rw '' @
      (''guestd.ip='' @ GuestCIDR c) @ '' '' @ (''guestd.gw='' @ GuestGW c) @ '' '' @
      (''guestd.dirty_mbps='' @ Itoa (DirtyMBps c)) @ '' '' @ (''guestd.buf_mb='' @ Itoa (ScribBufMB c)) @ rest"
    by (simp add: bootArgs_def)
  show ?thesis
    unfolding eq head
    by ((subst word, simp_all add: assms is_space_def del: append_assoc append.simps)+, subst last, simp)
qed

lemma steps_other:
  "cmdline_step ''console=ttyS0'' st = st" "cmdline_step ''reboot=k'' st = st" "cmdline_step ''panic=1'' st = st"
  "cmdline_step ''pci=off'' st = st" "cmdline_step ''root=/dev/vda'' st = st" "cmdline_step ''rw'' st = st"
  "cmdline_step (''guestd.ip='' @ x) st = st" "cmdline_step (''guestd.gw='' @ x) st = st"
  by (cases st; simp add: cmdline_step_def CutPrefix_def Let_def)+

lemma steps_own:
  "cmdline_step (''guestd.dirty_mbps='' @ x) (b, m) = (b, fst (Atoi x))"
  "cmdline_step (''guestd.buf_mb='' @ x) (b, m) = (fst (Atoi x), m)"
  by (simp_all add: cmdline_step_def CutPrefix_def Let_def)

text \<open>
  C28: The guest reads back what the agent configured: on the command line that \<open>bootArgs\<close> writes,
  with anything the boot loader appends after a space or a newline, \<open>parseCmdline\<close> returns the
  buffer size and the dirty rate of the configuration, for every 64-bit value of either and
  every address and gateway without white space.
\<close>

theorem bootArgs_parseCmdline:
  assumes "spaceless (GuestCIDR c)" and "spaceless (GuestGW c)" and "rest = [] \<or> is_space (hd rest)"
    and "\<forall>t\<in>set (Fields rest). CutPrefix t ''guestd.buf_mb='' = None \<and> CutPrefix t ''guestd.dirty_mbps='' = None"
    and "DirtyMBps c \<in> {- (2 ^ 63)..<2 ^ 63}" and "ScribBufMB c \<in> {- (2 ^ 63)..<2 ^ 63}"
  shows "parseCmdline (Some (bootArgs c @ rest)) = (ScribBufMB c, DirtyMBps c)"
proof -
  have "fold cmdline_step (Fields rest) st = st" for st
    by (rule fold_other) (use assms(4) in \<open>auto simp: cmdline_step_def split: prod.split\<close>)
  then show ?thesis
    unfolding parseCmdline_def option.case bootArgs_fields [OF assms(1-3)]
    using assms(5,6) by (simp add: steps_other steps_own Atoi_Itoa del: append.simps)
qed

theorem bootArgs_parseCmdline_witness:
  "parseCmdline (Some (bootArgs \<lparr>ID = ''vm0'', Vcpus = 2, MemMiB = 256, Kernel = ''k'', Rootfs = ''r'', TapDev = ''tap0'',
     GuestMAC = '''', GuestCIDR = ''172.30.0.50/24'', GuestGW = ''172.30.0.1'', DirtyMBps = -3, ScribBufMB = 64\<rparr> @ [CHR 0x0A])) = (64, -3)"
proof -
  let ?c = "\<lparr>ID = ''vm0'', Vcpus = 2, MemMiB = 256, Kernel = ''k'', Rootfs = ''r'', TapDev = ''tap0'',
     GuestMAC = '''', GuestCIDR = ''172.30.0.50/24'', GuestGW = ''172.30.0.1'', DirtyMBps = -3, ScribBufMB = 64\<rparr>"
  show ?thesis
    using bootArgs_parseCmdline [of ?c "[CHR 0x0A]"] by (simp add: is_space_def Fields_def)
qed

end
