(* ===== verification/Agent_Receive.thy ===== *)
theory Agent_Receive
  imports VM_Slot
begin

text \<open>
  The target-side handlers of \<open>internal/agent/receive.go\<close>. A handler always answers: its value
  is the response, and every early return of the source is a branch. Request bodies arrive as
  bytes with the read error that ended them, if any; JSON bodies arrive decoded.
\<close>

record finalizeResponse =
  ResumedNS :: int
  FinTimeline :: "Event list"

datatype reply_body = NoBody | Text gerror | Bytes int | Final finalizeResponse

record response =
  status :: int
  reply :: reply_body

definition http_error :: "int \<Rightarrow> gerror \<Rightarrow> ('p, response) host_act" where
  "http_error code err = retE \<lparr>status = code, reply = Text err\<rparr>"

definition http_ok :: "reply_body \<Rightarrow> ('p, response) host_act" where
  "http_ok b = retE \<lparr>status = 200, reply = b\<rparr>"

text \<open>The common pattern \<open>if err != nil { http.Error(...); return }\<close>.\<close>

definition orElse :: "('p, 'a) host_act \<Rightarrow> (gerror \<Rightarrow> ('p, 'r) host_act) \<Rightarrow>
    ('a \<Rightarrow> ('p, 'r) host_act) \<Rightarrow> ('p, 'r) host_act" where
  "orElse m bad good = bindE (tryE m) (\<lambda>r. case r of Inl err \<Rightarrow> bad err | Inr x \<Rightarrow> good x)"

definition receivingVM :: "string \<Rightarrow> 'p host \<Rightarrow> nat option" where
  "receivingVM i h =
     (case getVM i h of None \<Rightarrow> None
      | Some a \<Rightarrow> if vstate (objs h a) = StateReceiving then Some a else None)"

definition withReceiving :: "string \<Rightarrow> (nat \<Rightarrow> ('p, response) host_act) \<Rightarrow> ('p, response) host_act" where
  "withReceiving i k = bindE (askE (receivingVM i)) (\<lambda>vm.
     case vm of None \<Rightarrow> http_error 409 (Err ''no VM in receiving state'' []) | Some a \<Rightarrow> k a)"

definition fresh_slot :: "Config \<Rightarrow> VMConfig \<Rightarrow> VMState \<Rightarrow> VM" where
  "fresh_slot c vc s = \<lparr>Cfg = vc, vstate = s, vdir = vmDir c (ID vc), proc = None, api = None,
     baseMem = '''', needsResync = False\<rparr>"

definition handlePrepare :: "'p env \<Rightarrow> string \<Rightarrow> gerror + VMConfig \<Rightarrow> ('p, response) host_act" where
  "handlePrepare e i decoded =
     (case decoded of
        Inl err \<Rightarrow> http_error 400 (Wrap ''bad VMConfig: %w'' [] err)
      | Inr vc \<Rightarrow>
          if ID vc \<noteq> i then http_error 400 (Err ''config/path ID mismatch'' [])
          else bindE (askE cfg) (\<lambda>c. bindE (newVM (fresh_slot c vc StateReceiving)) (\<lambda>a.
            orElse (spawnFirecracker e a) (\<lambda>err. http_error 500 (Wrap ''spawn firecracker: %w'' [] err)) (\<lambda>_.
            bindE (vmE a) (\<lambda>v.
            orElse (createE e (recvMemPath v)) (\<lambda>err. thenE (kill a) (http_error 500 err)) (\<lambda>_.
            bindE (putVM_E a) (\<lambda>old.
            thenE (case old of None \<Rightarrow> retE () | Some b \<Rightarrow> kill b)
           (thenE (publishE e ''receive.prepared'' (''%s'', [AStr (ID vc)]))
                  (http_ok NoBody)))))))))"

definition handleMem :: "'p env \<Rightarrow> string \<Rightarrow> string \<Rightarrow> byte list \<Rightarrow> ('p, response) host_act" where
  "handleMem e i round stream = withReceiving i (\<lambda>a.
     bindE (vmE a) (\<lambda>v.
     orElse (openE e (recvMemPath v)) (http_error 500) (\<lambda>f.
       case Receive stream f of (n, err, f') \<Rightarrow>
         thenE (writeE (recvMemPath v) f')
          (case err of
             Some er \<Rightarrow> http_error 400 (Wrap ''receive stream: %w'' [] er)
           | None \<Rightarrow> thenE (publishE e ''receive.mem'' (''%s round=%s bytes=%d'', [AStr (ID (Cfg v)), AStr round, AInt n]))
                           (http_ok (Bytes n))))))"

text \<open>\<open>io.Copy\<close> stores what arrived, also when the body broke off.\<close>

definition handleVMState :: "'p env \<Rightarrow> string \<Rightarrow> byte list \<Rightarrow> gerror option \<Rightarrow> ('p, response) host_act" where
  "handleVMState e i bytes broken = withReceiving i (\<lambda>a.
     bindE (vmE a) (\<lambda>v.
     orElse (createE e (finalStatePath v)) (http_error 500) (\<lambda>_.
       thenE (writeE (finalStatePath v) (map Some bytes))
        (case broken of
           Some er \<Rightarrow> http_error 500 (Wrap ''store vmstate: %w'' [] er)
         | None \<Rightarrow> http_ok NoBody))))"

definition announce :: "'p env \<Rightarrow> VMConfig \<Rightarrow> ('p, unit) host_act" where
  "announce e vc = bindE tickE (\<lambda>t. bindE (askE cfg) (\<lambda>c.
     let (guestIP, _, _) = splitCIDR (GuestCIDR vc)
     in case sendGARP (netif e t) (GARPIface c) (GuestMAC vc) guestIP of (err, frames, _) \<Rightarrow>
          thenE (modE (\<lambda>h. h\<lparr>uplink := uplink h @ frames\<rparr>))
           (case err of None \<Rightarrow> retE () | Some er \<Rightarrow> publishE e ''garp.error'' (''%v'', [AErr er]))))"

definition markE :: "'p env \<Rightarrow> string \<Rightarrow> Recorder \<Rightarrow> ('p, int \<times> Recorder) host_act" where
  "markE e name rec = bindE (nowE e) (\<lambda>t. retE (Mark t name rec))"

definition handleFinalize :: "'p env \<Rightarrow> string \<Rightarrow> ('p, response) host_act" where
  "handleFinalize e i = withReceiving i (\<lambda>a.
     bindE (vmE a) (\<lambda>v.
     bindE (markE e ''target.load_start'' \<lparr>events = []\<rparr>) (\<lambda>(_, rec1).
     orElse (apiE e a (LoadSnapshot (finalStatePath v) (recvMemPath v) True True))
       (\<lambda>err. http_error 500 (Wrap ''snapshot load: %w'' [] err)) (\<lambda>_.
     bindE (markE e ''target.resumed'' rec1) (\<lambda>(resumedNS, rec2).
     thenE (announce e (Cfg v))
    (bindE (markE e ''target.garp_sent'' rec2) (\<lambda>(_, rec3).
     thenE (setVM a (baseMem_update (\<lambda>_. recvMemPath v)))
    (thenE (setState a StateRunning)
    (thenE (publishE e ''receive.resumed'' (''%s'', [AStr (ID (Cfg v))]))
           (http_ok (Final \<lparr>ResumedNS = resumedNS, FinTimeline = Events rec3\<rparr>)))))))))))"

definition handleAbort :: "'p env \<Rightarrow> string \<Rightarrow> ('p, response) host_act" where
  "handleAbort e i = bindE (askE (getVM i)) (\<lambda>vm.
     case vm of
       None \<Rightarrow> http_ok NoBody
     | Some a \<Rightarrow>
         bindE (vmE a) (\<lambda>v.
         if vstate v \<noteq> StateReceiving
         then http_error 409 (Err ''refusing to abort a VM not in receiving state'' [])
         else thenE (kill a)
             (thenE (modE (deleteVM (ID (Cfg v))))
             (bindE (askE cfg) (\<lambda>c.
              let preserved = Join (DataDir c) (ID (Cfg v) @ ''-fc.log.aborted'')
              in thenE (ignoreE (renameE e (logPath v) preserved))
                (thenE (ignoreE (removeAllE e (vdir v)))
                (thenE (publishE e ''receive.aborted'' (''%s (vmm log: %s)'', [AStr (ID (Cfg v)), AStr preserved]))
                       (http_ok NoBody))))))))"

section \<open>Inversion of the handlers\<close>

lemma orElse_ok [act_simps]:
  "orElse m bad good h = (Inr r, h') \<longleftrightarrow>
     (\<exists>err h1. m h = (Inl err, h1) \<and> bad err h1 = (Inr r, h')) \<or>
     (\<exists>x h1. m h = (Inr x, h1) \<and> good x h1 = (Inr r, h'))"
  by (auto simp: orElse_def bindE_def tryE_def split: prod.splits sum.splits)

lemma http_error_run [act_simps]:
  "http_error code err h = (r, h') \<longleftrightarrow> r = Inr \<lparr>status = code, reply = Text err\<rparr> \<and> h' = h"
  by (auto simp: http_error_def act_simps)

lemma http_ok_run [act_simps]:
  "http_ok b h = (r, h') \<longleftrightarrow> r = Inr \<lparr>status = 200, reply = b\<rparr> \<and> h' = h"
  by (auto simp: http_ok_def act_simps)

lemma withReceiving_run:
  "withReceiving i k h = (r, h') \<longleftrightarrow>
     (receivingVM i h = None \<and> r = Inr \<lparr>status = 409, reply = Text (Err ''no VM in receiving state'' [])\<rparr> \<and> h' = h) \<or>
     (\<exists>a. receivingVM i h = Some a \<and> k a h = (r, h'))"
  by (auto simp: withReceiving_def bindE_def askE_def http_error_def retE_def split: option.splits)

lemma receivingVM_iff:
  "receivingVM i h = Some a \<longleftrightarrow> vms h i = Some a \<and> vstate (objs h a) = StateReceiving"
  by (auto simp: receivingVM_def getVM_def split: option.splits)

lemma putVM_E_run [act_simps]:
  "putVM_E a h = (r, h') \<longleftrightarrow> r = Inr (vms h (ID (Cfg (objs h a)))) \<and>
     h' = h\<lparr>vms := (vms h)(ID (Cfg (objs h a)) \<mapsto> a)\<rparr>"
  by (auto simp: putVM_E_def putVM_def Let_def)

lemma markE_run [act_simps]:
  "markE e name rec h = (r, h') \<longleftrightarrow> r = Inr (Mark (clk e (tick h)) name rec) \<and> h' = h\<lparr>tick := Suc (tick h)\<rparr>"
  by (auto simp: markE_def nowE_def bindE_def tickE_def retE_def)

lemma quiet_announce: "announce e vc h = (r, h') \<Longrightarrow> quiet h h' \<and> r = Inr ()"
  unfolding announce_def
  by (auto simp: bindE_def tickE_def askE_def modE_def retE_def quiet_def Let_def
      split: prod.splits option.splits dest!: quiet_publish)

lemma quiet_after_files:
  "quiet (h\<lparr>files := fs, tick := t\<rparr>) h' \<Longrightarrow> quiet (h\<lparr>files := fs\<rparr>) h'"
  by (simp add: quiet_def)

lemma handleMem_ok:
  assumes "handleMem e i round bs h = (Inr r, h')" and "status r = 200"
  obtains a g n f' where "vms h i = Some a" "vstate (objs h a) = StateReceiving"
    "files h (recvMemPath (objs h a)) = Some g" "Receive bs g = (n, None, f')" "reply r = Bytes n"
    "quiet (h\<lparr>files := (files h)(recvMemPath (objs h a) \<mapsto> f')\<rparr>) h'"
proof -
  obtain a where a: "receivingVM i h = Some a"
    using assms by (auto simp: handleMem_def withReceiving_run)
  obtain g where g: "files h (recvMemPath (objs h a)) = Some g"
    using assms a by (auto simp: handleMem_def withReceiving_run act_simps)
  obtain n er f' where rv: "Receive bs g = (n, er, f')"
    by (rule prod_cases3)
  let ?h1 = "h\<lparr>tick := Suc (tick h), files := (files h)(recvMemPath (objs h a) \<mapsto> f')\<rparr>"
  have k: "(case er of
             Some er \<Rightarrow> http_error 400 (Wrap ''receive stream: %w'' [] er)
           | None \<Rightarrow> thenE (publishE e ''receive.mem'' (''%s round=%s bytes=%d'', [AStr (ID (Cfg (objs h a))), AStr round, AInt n]))
                           (http_ok (Bytes n))) ?h1 = (Inr r, h')"
    using assms a g rv by (auto simp: handleMem_def withReceiving_run act_simps)
  have "er = None"
    using k assms(2) by (cases er) (auto simp: act_simps)
  then have "quiet ?h1 h'" "reply r = Bytes n"
    using k by (auto simp: act_simps dest!: quiet_publish)
  then have "quiet (h\<lparr>files := (files h)(recvMemPath (objs h a) \<mapsto> f')\<rparr>) h'"
    by (simp add: quiet_def)
  with that a g rv \<open>er = None\<close> \<open>reply r = Bytes n\<close> show ?thesis
    by (auto simp: receivingVM_iff)
qed

lemma handleVMState_ok:
  assumes "handleVMState e i bs broken h = (Inr r, h')" and "status r = 200"
  obtains a where "vms h i = Some a" "vstate (objs h a) = StateReceiving" "broken = None"
    "quiet (h\<lparr>files := (files h)(finalStatePath (objs h a) \<mapsto> map Some bs)\<rparr>) h'"
  using assms
  by (auto simp: handleVMState_def withReceiving_run receivingVM_iff act_simps quiet_def split: option.splits)

lemma handleFinalize_ok:
  assumes "handleFinalize e i h = (Inr r, h')" and "status r = 200"
  obtains a h1 h2 h3 fin where "vms h i = Some a" "vstate (objs h a) = StateReceiving" "quiet h h1"
    "apiE e a (LoadSnapshot (finalStatePath (objs h a)) (recvMemPath (objs h a)) True True) h1 = (Inr (), h2)"
    "quiet h2 h3" "reply r = Final fin"
    "quiet (h3\<lparr>objs := (objs h3)(a := (objs h3 a)\<lparr>baseMem := recvMemPath (objs h a), vstate := StateRunning\<rparr>)\<rparr>) h'"
proof -
  obtain a where a: "vms h i = Some a" "vstate (objs h a) = StateReceiving"
    and b: "bindE (vmE a) (\<lambda>v.
     bindE (markE e ''target.load_start'' \<lparr>events = []\<rparr>) (\<lambda>(_, rec1).
     orElse (apiE e a (LoadSnapshot (finalStatePath v) (recvMemPath v) True True))
       (\<lambda>err. http_error 500 (Wrap ''snapshot load: %w'' [] err)) (\<lambda>_.
     bindE (markE e ''target.resumed'' rec1) (\<lambda>(resumedNS, rec2).
     thenE (announce e (Cfg v))
    (bindE (markE e ''target.garp_sent'' rec2) (\<lambda>(_, rec3).
     thenE (setVM a (baseMem_update (\<lambda>_. recvMemPath v)))
    (thenE (setState a StateRunning)
    (thenE (publishE e ''receive.resumed'' (''%s'', [AStr (ID (Cfg v))]))
           (http_ok (Final \<lparr>ResumedNS = resumedNS, FinTimeline = Events rec3\<rparr>)))))))))) h = (Inr r, h')"
    using assms by (auto simp: handleFinalize_def withReceiving_run receivingVM_iff)
  let ?h1 = "h\<lparr>tick := Suc (tick h)\<rparr>" and ?v = "objs h a"
  obtain h2 where l: "apiE e a (LoadSnapshot (finalStatePath ?v) (recvMemPath ?v) True True) ?h1 = (Inr (), h2)"
    and c: "bindE (markE e ''target.resumed'' (snd (Mark (clk e (tick h)) ''target.load_start'' \<lparr>events = []\<rparr>))) (\<lambda>(resumedNS, rec2).
     thenE (announce e (Cfg ?v))
    (bindE (markE e ''target.garp_sent'' rec2) (\<lambda>(_, rec3).
     thenE (setVM a (baseMem_update (\<lambda>_. recvMemPath ?v)))
    (thenE (setState a StateRunning)
    (thenE (publishE e ''receive.resumed'' (''%s'', [AStr (ID (Cfg ?v))]))
           (http_ok (Final \<lparr>ResumedNS = resumedNS, FinTimeline = Events rec3\<rparr>))))))) h2 = (Inr r, h')"
    using b assms(2) by (auto simp: act_simps Mark_def)
  obtain h3 where an: "announce e (Cfg ?v) (h2\<lparr>tick := Suc (tick h2)\<rparr>) = (Inr (), h3)"
    and d: "\<exists>rec2 ns. bindE (markE e ''target.garp_sent'' rec2) (\<lambda>(_, rec3).
     thenE (setVM a (baseMem_update (\<lambda>_. recvMemPath ?v)))
    (thenE (setState a StateRunning)
    (thenE (publishE e ''receive.resumed'' (''%s'', [AStr (ID (Cfg ?v))]))
           (http_ok (Final \<lparr>ResumedNS = ns, FinTimeline = Events rec3\<rparr>))))) h3 = (Inr r, h')"
    using c by (auto simp: act_simps Mark_def)
  have q: "quiet h2 h3"
    using quiet_announce [OF an] by (simp add: quiet_def)
  obtain fin where "reply r = Final fin"
    "quiet (h3\<lparr>objs := (objs h3)(a := (objs h3 a)\<lparr>baseMem := recvMemPath ?v, vstate := StateRunning\<rparr>)\<rparr>) h'"
    using d by (auto simp: act_simps Mark_def quiet_def dest!: quiet_publish)
  with that [of a ?h1 h2 h3] a l q show ?thesis by simp
qed

end
