(* ===== verification/Receive_Props.thy ===== *)
theory Receive_Props
  imports Agent_Receive
begin

text \<open>
  Properties of the target-side handlers: what each may change, which requests are refused, and
  what \<open>prepare\<close> and \<open>abort\<close> leave behind.
\<close>

lemma quiet_kill_opt:
  "(case old of None \<Rightarrow> retE () | Some b \<Rightarrow> kill b) h = (r, h') \<Longrightarrow>
     r = Inr () \<and> h' = (case old of None \<Rightarrow> h | Some b \<Rightarrow>
       case proc (objs h b) of None \<Rightarrow> h | Some pid \<Rightarrow> h\<lparr>procs := (procs h)(pid := None)\<rparr>)"
  by (cases old) (auto simp: act_simps)

lemma handlePrepare_ok:
  assumes "handlePrepare e i dec h = (Inr r, h')" and "status r = 200"
  obtains vc h1 h2 where "dec = Inr vc" "ID vc = i"
    "spawnFirecracker e (nextobj h) (h\<lparr>objs := (objs h)(nextobj h := fresh_slot (cfg h) vc StateReceiving),
       nextobj := Suc (nextobj h)\<rparr>) = (Inr (), h1)"
    "h2 = h1\<lparr>files := (files h1)(recvMemPath (objs h1 (nextobj h)) \<mapsto> []), vms := (vms h1)(i \<mapsto> nextobj h)\<rparr>"
    "quiet (case vms h1 i of None \<Rightarrow> h2 | Some b \<Rightarrow>
       (case proc (objs h1 b) of None \<Rightarrow> h2 | Some pid \<Rightarrow> h2\<lparr>procs := (procs h1)(pid := None)\<rparr>)) h'"
proof -
  obtain vc where vc: "dec = Inr vc" "ID vc = i"
    using assms by (auto simp: handlePrepare_def act_simps split: sum.splits if_splits)
  let ?a = "nextobj h"
  let ?h0 = "h\<lparr>objs := (objs h)(?a := fresh_slot (cfg h) vc StateReceiving), nextobj := Suc ?a\<rparr>"
  obtain h1 where sp: "spawnFirecracker e ?a ?h0 = (Inr (), h1)"
    and k: "bindE (vmE ?a) (\<lambda>v.
            orElse (createE e (recvMemPath v)) (\<lambda>err. thenE (kill ?a) (http_error 500 err)) (\<lambda>_.
            bindE (putVM_E ?a) (\<lambda>old.
            thenE (case old of None \<Rightarrow> retE () | Some b \<Rightarrow> kill b)
           (thenE (publishE e ''receive.prepared'' (''%s'', [AStr (ID vc)]))
                  (http_ok NoBody))))) h1 = (Inr r, h')"
    using assms vc by (auto simp: handlePrepare_def act_simps)
  have o: "Cfg (objs h1 ?a) = vc"
    using spawnFirecracker_ok [OF sp] by (simp add: fresh_slot_def)
  let ?h2 = "h1\<lparr>files := (files h1)(recvMemPath (objs h1 ?a) \<mapsto> []), vms := (vms h1)(i \<mapsto> ?a)\<rparr>"
  have "quiet (case vms h1 i of None \<Rightarrow> ?h2 | Some b \<Rightarrow>
       (case proc (objs h1 b) of None \<Rightarrow> ?h2 | Some pid \<Rightarrow> ?h2\<lparr>procs := (procs h1)(pid := None)\<rparr>)) h'"
    using k assms(2) o vc(2)
    by (auto simp: act_simps quiet_def split: option.splits dest!: quiet_publish)
  with that vc sp show ?thesis by blast
qed

lemma prepare_slot:
  assumes "handlePrepare e i dec h = (Inr r, h')" and "status r = 200"
    and "host_wf h"
  shows "\<exists>vc a v pid. dec = Inr vc \<and> vms h' = (vms h)(i \<mapsto> a) \<and> objs h' = (objs h)(a := v) \<and> vms h i \<noteq> Some a \<and>
    Cfg v = vc \<and> vstate v = StateReceiving \<and> vdir v = vmDir (cfg h) i \<and>
    proc v = Some pid \<and> api v = Some pid \<and> procs h' pid = Some (spawned e i) \<and>
    files h' (recvMemPath v) = Some [] \<and>
    (\<forall>b q. vms h i = Some b \<longrightarrow> proc (objs h b) = Some q \<longrightarrow> procs h' q = None) \<and>
    (\<forall>q<nextpid h. (\<forall>b. vms h i = Some b \<longrightarrow> proc (objs h b) \<noteq> Some q) \<longrightarrow> procs h' q = procs h q)"
proof -
  let ?a = "nextobj h"
  from handlePrepare_ok [OF assms(1,2)] obtain vc h1 h2 where vc: "dec = Inr vc" "ID vc = i"
    and sp: "spawnFirecracker e ?a (h\<lparr>objs := (objs h)(?a := fresh_slot (cfg h) vc StateReceiving),
       nextobj := Suc ?a\<rparr>) = (Inr (), h1)"
    and h2: "h2 = h1\<lparr>files := (files h1)(recvMemPath (objs h1 ?a) \<mapsto> []), vms := (vms h1)(i \<mapsto> ?a)\<rparr>"
    and q: "quiet (case vms h1 i of None \<Rightarrow> h2 | Some b \<Rightarrow>
       (case proc (objs h1 b) of None \<Rightarrow> h2 | Some pid \<Rightarrow> h2\<lparr>procs := (procs h1)(pid := None)\<rparr>)) h'"
    by metis
  let ?v = "(fresh_slot (cfg h) vc StateReceiving)\<lparr>proc := Some (nextpid h), api := Some (nextpid h)\<rparr>"
  have h1: "objs h1 = (objs h)(?a := ?v)" "procs h1 = (procs h)(nextpid h \<mapsto> spawned e i)"
    using spawnFirecracker_ok [OF sp] vc(2) by (auto simp: fresh_slot_def)
  have v1: "vms h1 = vms h"
    using spawnFirecracker_frame [OF sp] by (simp add: spawn_frame_def)
  have nb: "b \<noteq> ?a" if "vms h i = Some b" for b
    using assms(3) that by (auto simp: host_wf_def)
  have pb: "pid < nextpid h" if "vms h i = Some b" "proc (objs h b) = Some pid" for b pid
    using assms(3) that by (auto simp: host_wf_def)
  have "vms h' = (vms h)(i \<mapsto> ?a)" "objs h' = (objs h)(?a := ?v)" "files h' (recvMemPath ?v) = Some []"
    using q by (auto simp: h2 h1 v1 quiet_def split: option.splits)
  moreover have "procs h' (nextpid h) = Some (spawned e i)"
    "\<And>b q. vms h i = Some b \<Longrightarrow> proc (objs h b) = Some q \<Longrightarrow> procs h' q = None"
    "\<And>q. q < nextpid h \<Longrightarrow> (\<And>b. vms h i = Some b \<Longrightarrow> proc (objs h b) \<noteq> Some q) \<Longrightarrow> procs h' q = procs h q"
    using q nb by (auto simp: h2 h1 v1 quiet_def split: option.splits dest: pb)
  ultimately show ?thesis
    using vc nb by (intro exI [of _ vc] exI [of _ ?a] exI [of _ ?v] exI [of _ "nextpid h"])
      (auto simp: fresh_slot_def)
qed

text \<open>
  C12: A successful \<open>prepare\<close> leaves under the ID a fresh slot in state receiving with an empty
  memory image and a live process of its own, and kills the process of whatever slot held the ID
  before, in any state, a running VM included; every other process is untouched.
\<close>

theorem prepare_installs_slot:
  assumes "handlePrepare e i dec h = (Inr r, h')" and "status r = 200" and "host_wf h"
  shows "\<exists>vc a v pid. dec = Inr vc \<and> vms h' = (vms h)(i \<mapsto> a) \<and> objs h' = (objs h)(a := v) \<and> vms h i \<noteq> Some a \<and>
    Cfg v = vc \<and> vstate v = StateReceiving \<and> vdir v = vmDir (cfg h) i \<and>
    proc v = Some pid \<and> api v = Some pid \<and> procs h' pid = Some (spawned e i) \<and>
    files h' (recvMemPath v) = Some [] \<and>
    (\<forall>b q. vms h i = Some b \<longrightarrow> proc (objs h b) = Some q \<longrightarrow> procs h' q = None) \<and>
    (\<forall>q<nextpid h. (\<forall>b. vms h i = Some b \<longrightarrow> proc (objs h b) \<noteq> Some q) \<longrightarrow> procs h' q = procs h q)"
  by (rule prepare_slot [OF assms])

end
