(* ===== verification/Image_Channel.thy ===== *)
theory Image_Channel
  imports Agent_State
begin

text \<open>
  What the migration relies on outside this repository: the behaviour of the (patched)
  Firecracker process, seen through the guest memory, the set of bytes whose pages are tracked
  as dirty, the vCPU/device state and whether the vCPUs run. And what it builds on inside: a
  memory image on the target, kept in step with the source by shipping sparse files through
  \<open>Send\<close> and \<open>Receive\<close>.
\<close>

section \<open>The contract of the Firecracker process\<close>

record 'p fc_view =
  gmem :: "'p \<Rightarrow> byte list"
  gdirty :: "'p \<Rightarrow> nat set"
  gstate :: "'p \<Rightarrow> byte list"
  running :: "'p \<Rightarrow> bool"

text \<open>A running guest: memory changes only where it is marked dirty, and marks stay.\<close>

definition evolves :: "'p fc_view \<Rightarrow> 'p \<Rightarrow> 'p \<Rightarrow> bool" where
  "evolves V p p' \<longleftrightarrow> length (gmem V p') = length (gmem V p) \<and> gdirty V p \<subseteq> gdirty V p' \<and>
     (\<forall>i<length (gmem V p). i \<notin> gdirty V p' \<longrightarrow> gmem V p' ! i = gmem V p ! i)"

text \<open>
  A diff snapshot writes the dirty pages into the memory file at their offsets; a file of the
  right size that is already there is not truncated, so its other bytes stay (Firecracker's
  direct merging of diff snapshots into an existing memory file).
\<close>

definition stale :: "fs \<Rightarrow> string \<Rightarrow> nat \<Rightarrow> nat \<Rightarrow> byte option" where
  "stale fs mp n i = (case fs mp of None \<Rightarrow> None | Some g \<Rightarrow> if length g = n then g ! i else None)"

definition guest_law :: "'p fc_view \<Rightarrow> 'p env \<Rightarrow> bool" where
  "guest_law V e \<longleftrightarrow> (\<forall>t p. if running V p then evolves V p (guest e t p) \<and> running V (guest e t p)
     else guest e t p = p)"

definition pause_law :: "'p fc_view \<Rightarrow> 'p env \<Rightarrow> bool" where
  "pause_law V e \<longleftrightarrow> (\<forall>t p fs p' fs'. perform (fc e t) Pause (p, fs) = (Inr (), p', fs') \<longrightarrow>
     \<not> running V p' \<and> evolves V p p' \<and> fs' = fs)"

definition resume_law :: "'p fc_view \<Rightarrow> 'p env \<Rightarrow> bool" where
  "resume_law V e \<longleftrightarrow> (\<forall>t p fs p' fs'. perform (fc e t) Resume (p, fs) = (Inr (), p', fs') \<longrightarrow>
     running V p' \<and> evolves V p p' \<and> fs' = fs)"

definition full_law :: "'p fc_view \<Rightarrow> 'p env \<Rightarrow> bool" where
  "full_law V e \<longleftrightarrow> (\<forall>t p fs sp mp p' fs'. \<not> running V p \<longrightarrow> sp \<noteq> mp \<longrightarrow>
     perform (fc e t) (CreateSnapshot SnapshotFull sp mp 0) (p, fs) = (Inr (), p', fs') \<longrightarrow>
     \<not> running V p' \<and> gmem V p' = gmem V p \<and>
     (\<exists>f s. content f = gmem V p \<and> fs' = fs(sp \<mapsto> s, mp \<mapsto> f)))"

definition diff_law :: "'p fc_view \<Rightarrow> 'p env \<Rightarrow> bool" where
  "diff_law V e \<longleftrightarrow> (\<forall>t p fs sp mp p' fs'. \<not> running V p \<longrightarrow> sp \<noteq> mp \<longrightarrow>
     perform (fc e t) (CreateSnapshot SnapshotDiff sp mp 0) (p, fs) = (Inr (), p', fs') \<longrightarrow>
     \<not> running V p' \<and> gmem V p' = gmem V p \<and> gstate V p' = gstate V p \<and>
     (\<exists>f s dumped. length f = length (gmem V p) \<and> content s = gstate V p \<and> gdirty V p \<subseteq> dumped \<and>
        (\<forall>i<length f. f ! i = (if i \<in> dumped then Some (gmem V p ! i) else stale fs mp (length f) i)) \<and>
        fs' = fs(sp \<mapsto> s, mp \<mapsto> f)))"

text \<open>
  The live diff of the patch runs beside the vCPUs: a byte that is not dirty afterwards was
  either dumped with its present value, or was clean before and has not changed. Bytes beyond
  the budget stay dirty.
\<close>

definition live_law :: "'p fc_view \<Rightarrow> 'p env \<Rightarrow> bool" where
  "live_law V e \<longleftrightarrow> (\<forall>t p fs sp mp n p' fs'.
     perform (fc e t) (CreateSnapshot SnapshotDiffLive sp mp n) (p, fs) = (Inr (), p', fs') \<longrightarrow>
     length (gmem V p') = length (gmem V p) \<and>
     (\<exists>f dumped. length f = length (gmem V p) \<and> fs' = fs(mp \<mapsto> f) \<and>
        (\<forall>i<length f. i \<notin> dumped \<longrightarrow> f ! i = stale fs mp (length f) i) \<and>
        (\<forall>i<length f. i \<notin> gdirty V p' \<longrightarrow>
           (if i \<in> dumped then f ! i = Some (gmem V p' ! i)
            else i \<notin> gdirty V p \<and> gmem V p' ! i = gmem V p ! i))))"

text \<open>Restoring maps the two files; the guest then starts from them with nothing dirty.\<close>

definition load_law :: "'p fc_view \<Rightarrow> 'p env \<Rightarrow> bool" where
  "load_law V e \<longleftrightarrow> (\<forall>t p fs sp mp p' fs'.
     perform (fc e t) (LoadSnapshot sp mp True True) (p, fs) = (Inr (), p', fs') \<longrightarrow>
     fs' = fs \<and> running V p' \<and>
     (\<exists>s f p0. fs sp = Some s \<and> fs mp = Some f \<and> gmem V p0 = content f \<and> gstate V p0 = content s \<and>
        gdirty V p0 = {} \<and> evolves V p0 p'))"

definition fc_contract :: "'p fc_view \<Rightarrow> 'p env \<Rightarrow> bool" where
  "fc_contract V e \<longleftrightarrow> guest_law V e \<and> pause_law V e \<and> resume_law V e \<and> full_law V e \<and>
     diff_law V e \<and> live_law V e \<and> load_law V e"

section \<open>Images in step with a guest\<close>

definition synced :: "'p fc_view \<Rightarrow> 'p \<Rightarrow> sfile \<Rightarrow> bool" where
  "synced V p g \<longleftrightarrow> length g = length (gmem V p) \<and>
     (\<forall>i<length g. i \<notin> gdirty V p \<longrightarrow> content g ! i = gmem V p ! i)"

lemma evolves_refl [simp]: "evolves V p p"
  by (simp add: evolves_def)

lemma evolves_trans: "evolves V p q \<Longrightarrow> evolves V q r \<Longrightarrow> evolves V p r"
  by (auto simp: evolves_def)

lemma synced_evolves: "synced V p g \<Longrightarrow> evolves V p p' \<Longrightarrow> synced V p' g"
  by (auto simp: synced_def evolves_def)

lemma guest_evolves: "guest_law V e \<Longrightarrow> evolves V p (guest e t p)"
  by (cases "running V p") (auto simp: guest_law_def)

lemma guest_paused: "guest_law V e \<Longrightarrow> \<not> running V p \<Longrightarrow> guest e t p = p"
  by (auto simp: guest_law_def)

section \<open>Shipping a file onto an image\<close>

text \<open>
  The contract of a channel for memory images: what arrives has the size of the file sent, data
  replaces what was there, and holes leave it alone. The client lemmas are the steps of
  pre-copy: a base image, a live round, a paused round, the final round.
\<close>

locale image_channel =
  fixes deliver :: "sfile \<Rightarrow> sfile \<Rightarrow> sfile"
    and sendable :: "sfile \<Rightarrow> bool"
  assumes deliver_length: "sendable f \<Longrightarrow> length (deliver g f) = length f"
    and deliver_nth: "sendable f \<Longrightarrow> i < length f \<Longrightarrow> deliver g f ! i =
      (case f ! i of Some b \<Rightarrow> Some b | None \<Rightarrow> if i < length g then g ! i else None)"
begin

lemma content_deliver:
  "sendable f \<Longrightarrow> i < length f \<Longrightarrow> length g = length f \<Longrightarrow>
   content (deliver g f) ! i = (case f ! i of Some b \<Rightarrow> b | None \<Rightarrow> content g ! i)"
  by (simp add: nth_content deliver_nth deliver_length split: option.split)

lemma base_synced: "sendable f \<Longrightarrow> synced V p f \<Longrightarrow> synced V p (deliver [] f)"
  by (auto simp: synced_def deliver_length deliver_nth nth_content split: option.splits)

lemma live_synced:
  assumes "sendable f" and "synced V p g" and "length f = length (gmem V p)"
    and "length (gmem V p') = length (gmem V p)"
    and "\<And>i. i < length f \<Longrightarrow> i \<notin> dumped \<Longrightarrow> f ! i = None"
    and "\<And>i. i < length f \<Longrightarrow> i \<notin> gdirty V p' \<Longrightarrow>
      if i \<in> dumped then f ! i = Some (gmem V p' ! i) else i \<notin> gdirty V p \<and> gmem V p' ! i = gmem V p ! i"
  shows "synced V p' (deliver g f)"
  unfolding synced_def
proof (intro conjI allI impI)
  show "length (deliver g f) = length (gmem V p')"
    using assms(1,3,4) by (simp add: deliver_length)
  fix i assume i: "i < length (deliver g f)" "i \<notin> gdirty V p'"
  then have l: "i < length f" "length g = length f"
    using assms by (simp_all add: deliver_length synced_def)
  show "content (deliver g f) ! i = gmem V p' ! i"
    using assms(6) [OF l(1) i(2)] assms(2,5) l
    by (cases "i \<in> dumped") (auto simp: content_deliver [OF assms(1)] synced_def)
qed

lemma paused_exact:
  assumes "sendable f" and "synced V p g" and "length f = length (gmem V p)" and "gdirty V p \<subseteq> dumped"
    and "\<And>i. i < length f \<Longrightarrow> f ! i = (if i \<in> dumped then Some (gmem V p ! i) else None)"
  shows "content (deliver g f) = gmem V p"
proof (rule nth_equalityI)
  show "length (content (deliver g f)) = length (gmem V p)"
    using assms(1,3) by (simp add: deliver_length)
  fix i assume "i < length (content (deliver g f))"
  then have l: "i < length f" "length g = length f"
    using assms(1-3) by (simp_all add: deliver_length synced_def)
  show "content (deliver g f) ! i = gmem V p ! i"
    using assms(2,4,5) l by (auto simp: content_deliver [OF assms(1)] synced_def)
qed

end

text \<open>The bytes \<open>Send\<close> puts on the wire, and the image after \<open>Receive\<close> has applied them.\<close>

definition stream :: "(sfile \<Rightarrow> lseek) \<Rightarrow> sfile \<Rightarrow> byte list" where
  "stream sk f = out (snd (snd (Send (sk f) \<lparr>out = [], limit = None\<rparr> f)))"

definition shipped :: "(sfile \<Rightarrow> lseek) \<Rightarrow> sfile \<Rightarrow> sfile \<Rightarrow> sfile" where
  "shipped sk g f = snd (snd (Receive (stream sk f) g))"

definition seekable :: "(sfile \<Rightarrow> lseek) \<Rightarrow> sfile \<Rightarrow> bool" where
  "seekable sk f \<longleftrightarrow> lseek_ok (sk f) f \<and> length f < 2 ^ 63"

lemma stream_props:
  assumes "seekable sk f"
  shows "Send (sk f) \<lparr>out = [], limit = None\<rparr> f = (int (card (data_cells f)), None, \<lparr>out = stream sk f, limit = None\<rparr>)"
    and "Receive (stream sk f) g = (int (card (data_cells f)), None, overlay g f)"
proof -
  obtain bs where bs: "Send (sk f) \<lparr>out = [], limit = None\<rparr> f = (int (card (data_cells f)), None, \<lparr>out = bs, limit = None\<rparr>)"
    "\<And>r g. Receive (bs @ r) g = (int (card (data_cells f)), None, overlay g f)"
    using Send_Receive_overlay [of "sk f" f "\<lparr>out = [], limit = None\<rparr>"] assms by (auto simp: seekable_def)
  show "Send (sk f) \<lparr>out = [], limit = None\<rparr> f = (int (card (data_cells f)), None, \<lparr>out = stream sk f, limit = None\<rparr>)"
    using bs(1) by (simp add: stream_def)
  show "Receive (stream sk f) g = (int (card (data_cells f)), None, overlay g f)"
    using bs(1) bs(2) [of "[]" g] by (simp add: stream_def)
qed

lemma shipped_overlay: "seekable sk f \<Longrightarrow> shipped sk g f = overlay g f"
  by (simp add: shipped_def stream_props)

interpretation ship: image_channel "shipped sk" "seekable sk" for sk
  by unfold_locales (auto simp: shipped_overlay nth_overlay split: option.split)

end
