(* ===== verification/Agent_Migrate.thy ===== *)
theory Agent_Migrate
  imports Image_Channel Agent_Receive "HOL-Library.Signed_Division"
begin

text \<open>
  The source side of a migration, \<open>internal/agent/migrate.go\<close>: its tuning constants, the
  plateau test in IEEE double arithmetic, one pre-copy round, the round loop, the blackout
  window and the rollback. The state is a pair of hosts, the source agent's and the target
  agent's; a request to the target runs the target's handler, unless the network loses it, its
  body or its answer.
\<close>

section \<open>Constants\<close>

definition convergedBytes :: int where "convergedBytes = 2 ^ 20"
definition plateauBytes :: int where "plateauBytes = 4 * 2 ^ 20"
definition maxRounds :: nat where "maxRounds = 256"
definition maxRoundsStock :: nat where "maxRoundsStock = 8"
definition drainBudgetBytes :: int where "drainBudgetBytes = 2 * 2 ^ 20"
definition throttleEscalateEvery :: int where "throttleEscalateEvery = 2 * 10 ^ 9"
definition baseTransferMBps :: int where "baseTransferMBps = 120"
definition roundTransferMBps :: int where "roundTransferMBps = 60"

section \<open>The plateau test\<close>

text \<open>
  \<open>float64(dirty) > 0.9*float64(prevDirty)\<close> for non-negative counts. Rounding to 53 bits, ties
  to even, on integers; the double nearest to 0.9 is \<open>plateauMantissa / 2^53\<close>, so both sides are
  compared after multiplication by \<open>2^53\<close>, which is exact.
\<close>

fun bit_len :: "nat \<Rightarrow> nat" where
  "bit_len n = (if n = 0 then 0 else Suc (bit_len (n div 2)))"

declare bit_len.simps [simp del]

definition f64_round :: "nat \<Rightarrow> nat" where
  "f64_round n =
     (let e = bit_len n - 53; q = n div 2 ^ e; r = n mod 2 ^ e
      in if e = 0 then n
         else (if 2 * r > 2 ^ e \<or> 2 * r = 2 ^ e \<and> odd q then Suc q else q) * 2 ^ e)"

definition plateauMantissa :: nat where
  "plateauMantissa = 8106479329266893"

definition plateau_test :: "int \<Rightarrow> int \<Rightarrow> bool" where
  "plateau_test dirty prevDirty \<longleftrightarrow> prevDirty > 0 \<and> dirty \<ge> 0 \<and>
     f64_round (nat dirty) * 2 ^ 53 > f64_round (plateauMantissa * f64_round (nat prevDirty))"

section \<open>Two hosts and the network between them\<close>

record 'p world =
  src :: "'p host"
  dst :: "'p host"

type_synonym ('p, 'a) world_act = "('p world, 'a) act"

definition onSrc :: "('p, 'a) host_act \<Rightarrow> ('p, 'a) world_act" where
  "onSrc m w = (case m (src w) of (r, h) \<Rightarrow> (r, w\<lparr>src := h\<rparr>))"

definition onDst :: "('p, 'a) host_act \<Rightarrow> ('p, 'a) world_act" where
  "onDst m w = (case m (dst w) of (r, h) \<Rightarrow> (r, w\<lparr>dst := h\<rparr>))"

datatype peer_req = RPrepare VMConfig | RMem string "byte list" | RVMState "byte list" | RFinalize | RAbort

text \<open>The URL path of a request.\<close>

primrec peer_verb :: "peer_req \<Rightarrow> string" where
  "peer_verb (RPrepare vc) = ''prepare''"
| "peer_verb (RMem round bs) = ''mem?round='' @ round"
| "peer_verb (RVMState bs) = ''vmstate''"
| "peer_verb RFinalize = ''finalize''"
| "peer_verb RAbort = ''abort''"

definition peer_path :: "string \<Rightarrow> peer_req \<Rightarrow> string" where
  "peer_path i req = ''/internal/vms/'' @ i @ ''/'' @ peer_verb req"

text \<open>The routes of \<open>ListenAndServe\<close>; \<open>broken\<close> is the error that ended the request body early.\<close>

definition serve :: "'p env \<Rightarrow> string \<Rightarrow> peer_req \<Rightarrow> gerror option \<Rightarrow> ('p, response) host_act" where
  "serve ed i req broken =
     (case req of
        RPrepare vc \<Rightarrow> handlePrepare ed i (case broken of None \<Rightarrow> Inr vc | Some er \<Rightarrow> Inl er)
      | RMem round bs \<Rightarrow> handleMem ed i round bs
      | RVMState bs \<Rightarrow> handleVMState ed i bs broken
      | RFinalize \<Rightarrow> handleFinalize ed i
      | RAbort \<Rightarrow> handleAbort ed i)"

fun cut_req :: "nat \<Rightarrow> peer_req \<Rightarrow> peer_req" where
  "cut_req n (RMem round bs) = RMem round (take n bs)"
| "cut_req n (RVMState bs) = RVMState (take n bs)"
| "cut_req n req = req"

text \<open>\<open>peerClient.Do\<close>.\<close>

definition peerDo :: "'p env \<Rightarrow> 'p env \<Rightarrow> string \<Rightarrow> peer_req \<Rightarrow> ('p, response) world_act" where
  "peerDo es ed i req = bindE (onSrc tickE) (\<lambda>t.
     case peer es t of
       Delivered \<Rightarrow> onDst (serve ed i req None)
     | ReqLost er \<Rightarrow> failE er
     | CutOff n er \<Rightarrow> thenE (tryE (onDst (serve ed i (cut_req n req) (Some er)))) (failE er)
     | RespLost er \<Rightarrow> thenE (tryE (onDst (serve ed i req None))) (failE er))"

text \<open>A request whose body the sender itself breaks off with \<open>CloseWithError\<close>.\<close>

definition peerBroken :: "'p env \<Rightarrow> 'p env \<Rightarrow> string \<Rightarrow> peer_req \<Rightarrow> gerror \<Rightarrow> ('p, 'a) world_act" where
  "peerBroken es ed i req er = bindE (onSrc tickE) (\<lambda>t.
     case peer es t of
       ReqLost er' \<Rightarrow> failE er'
     | CutOff n _ \<Rightarrow> thenE (tryE (onDst (serve ed i (cut_req n req) (Some er)))) (failE er)
     | _ \<Rightarrow> thenE (tryE (onDst (serve ed i req (Some er)))) (failE er))"

definition rejected :: "string \<Rightarrow> arg list \<Rightarrow> response \<Rightarrow> gerror" where
  "rejected msg args r = (case reply r of Text er \<Rightarrow> Wrap msg (args @ [AInt (status r)]) er | _ \<Rightarrow> Err msg (args @ [AInt (status r)]))"

definition postJSON :: "'p env \<Rightarrow> 'p env \<Rightarrow> string \<Rightarrow> peer_req \<Rightarrow> ('p, response) world_act" where
  "postJSON es ed i req = bindE (peerDo es ed i req) (\<lambda>r.
     if status r \<noteq> 200 then failE (rejected ''%s: HTTP %d: %s'' [AStr (peer_path i req)] r) else retE r)"

definition sendFile :: "'p env \<Rightarrow> 'p env \<Rightarrow> string \<Rightarrow> string \<Rightarrow> ('p, unit) world_act" where
  "sendFile es ed i filePath = bindE (onSrc (openE es filePath)) (\<lambda>f.
     bindE (peerDo es ed i (RVMState (content f))) (\<lambda>r.
     if status r \<noteq> 200 then failE (rejected ''target rejected %s: HTTP %d: %s'' [AStr (peer_path i (RVMState (content f)))] r) else retE ()))"

text \<open>
  \<open>sendMemFile\<close>. The byte count is written by the sending goroutine and read without
  synchronisation once the answer is there, so the caller may still see its initial 0. Pacing
  delays the writes and does not change them.
\<close>

definition sendMemFile :: "'p env \<Rightarrow> 'p env \<Rightarrow> string \<Rightarrow> string \<Rightarrow> string \<Rightarrow> ('p, int) world_act" where
  "sendMemFile es ed i round filePath = bindE (onSrc (openE es filePath)) (\<lambda>f.
     case Send (seek es f) \<lparr>out = [], limit = None\<rparr> f of
       (n, Some er, w) \<Rightarrow> peerBroken es ed i (RMem round (out w)) er
     | (n, None, w) \<Rightarrow>
         bindE (peerDo es ed i (RMem round (out w))) (\<lambda>r.
         if status r \<noteq> 200 then failE (rejected ''target rejected %s round %s: HTTP %d: %s'' [AStr i, AStr round] r)
         else bindE (onSrc tickE) (\<lambda>t. retE (if sent_seen es t then n else 0))))"

section \<open>Rounds\<close>

record RoundStat =
  Round :: int
  DirtyBytes :: int
  StartNS :: int
  SnapshotNS :: int
  TransferNS :: int
  Paused :: bool
  ThrottleLevel :: int

record Report =
  RepVM :: string
  RepTarget :: string
  RepLive :: bool
  BaseBytes :: int
  Rounds :: "RoundStat list"
  FinalBytes :: int
  BlackoutNS :: int
  RepTimeline :: "Event list"

definition captureRound :: "'p env \<Rightarrow> nat \<Rightarrow> string \<Rightarrow> int \<Rightarrow> ('p, int) host_act" where
  "captureRound e a memPath budget = bindE (askE cfg) (\<lambda>c.
     thenE
      (if LiveRounds c then apiE e a (CreateSnapshot SnapshotDiffLive (memPath @ ''.unused-state'') memPath budget)
       else thenE (apiE e a Pause)
           (bindE (tryE (apiE e a (CreateSnapshot SnapshotDiff (memPath @ ''.state'') memPath 0))) (\<lambda>r.
            thenE (apiE e a Resume)
           (case r of Inl er \<Rightarrow> failE er | Inr _ \<Rightarrow> ignoreE (removeE e (memPath @ ''.state''))))))
      (bindE (openE e memPath) (\<lambda>f.
       case WalkExtents (seek e f) f of Inl er \<Rightarrow> failE er | Inr extents \<Rightarrow> retE (TotalBytes extents))))"

record loop_state =
  throttleLevel :: int
  prevDirty :: int
  plateaued :: int
  nextEscalation :: int
  drainStart :: int
  stats :: "RoundStat list"

text \<open>\<open>throttle.SetLevel\<close> with its error only published.\<close>

definition engage :: "'p env \<Rightarrow> string \<Rightarrow> int \<Rightarrow> ('p, unit) host_act" where
  "engage e v level = bindE (tryE (setLevelE e v level)) (\<lambda>r.
     case r of Inl er \<Rightarrow> publishE e ''throttle.error'' (''%v'', [AErr er]) | Inr _ \<Rightarrow> retE ())"

text \<open>The decisions at the end of a round: whether to go on, and with which state.\<close>

definition after_full_round :: "'p env \<Rightarrow> string \<Rightarrow> loop_state \<Rightarrow> ('p, bool \<times> loop_state) host_act" where
  "after_full_round e v st = bindE (nowE e) (\<lambda>t.
     if t > nextEscalation st \<and> throttleLevel st < maxThrottleLevel then
       bindE (nowE e) (\<lambda>t'.
       let st' = st\<lparr>throttleLevel := throttleLevel st + 1, nextEscalation := t' + throttleEscalateEvery\<rparr>
       in bindE (nowE e) (\<lambda>t2.
          thenE (publishE e ''throttle.engage'' (''%s level=%d after %.1fs of non-converging drain'',
                   [AStr v, AInt (throttleLevel st'), AInt (t2 - drainStart st')]))
         (thenE (engage e v (throttleLevel st'))
                (retE (True, st')))))
     else retE (True, st))"

definition after_round :: "'p env \<Rightarrow> string \<Rightarrow> int \<Rightarrow> loop_state \<Rightarrow> ('p, bool \<times> loop_state) host_act" where
  "after_round e v dirty st =
     (if dirty \<le> convergedBytes then retE (False, st)
      else
        let st1 = st\<lparr>plateaued := (if plateau_test dirty (prevDirty st) then plateaued st + 1 else 0)\<rparr>
        in if plateaued st1 \<ge> 2 \<and> dirty \<le> plateauBytes then retE (False, st1)
           else if plateaued st1 \<ge> 1 \<and> dirty > plateauBytes \<and> throttleLevel st1 < maxThrottleLevel then
             (let st2 = st1\<lparr>throttleLevel := throttleLevel st1 + 1\<rparr>
              in thenE (engage e v (throttleLevel st2)) (retE (True, st2\<lparr>prevDirty := dirty\<rparr>)))
           else retE (True, st1\<lparr>prevDirty := dirty\<rparr>))"

text \<open>The end of a round: its entry in the report, the event, and the decision.\<close>

definition end_round :: "'p env \<Rightarrow> string \<Rightarrow> int \<Rightarrow> int \<Rightarrow> int \<Rightarrow> int \<Rightarrow> int \<Rightarrow> loop_state \<Rightarrow> ('p, bool \<times> loop_state) host_act" where
  "end_round e v budget r dirty roundStart snapshotDone st = bindE (nowE e) (\<lambda>t.
     bindE (askE cfg) (\<lambda>c.
     let st' = st\<lparr>stats := stats st @ [\<lparr>Round = r, DirtyBytes = dirty, StartNS = roundStart,
                  SnapshotNS = snapshotDone - roundStart, TransferNS = t - snapshotDone,
                  Paused = (\<not> LiveRounds c), ThrottleLevel = throttleLevel st\<rparr>]\<rparr>
     in thenE (publishE e ''round'' (''%s r=%d dirty=%dKiB throttle=%d'',
                  [AStr v, AInt r, AInt (dirty div 1024), AInt (throttleLevel st)]))
              (if budget > 0 \<and> dirty \<ge> budget then after_full_round e v st' else after_round e v dirty st')))"

definition round_body :: "'p env \<Rightarrow> 'p env \<Rightarrow> nat \<Rightarrow> int \<Rightarrow> int \<Rightarrow> loop_state \<Rightarrow> ('p, bool \<times> loop_state) world_act" where
  "round_body es ed a budget r st = bindE (onSrc (nowE es)) (\<lambda>roundStart.
     bindE (onSrc (vmE a)) (\<lambda>v.
     bindE (wrapE ''pre-copy round %d: %w'' [AInt r] (onSrc (captureRound es a (roundMemPath v r) budget))) (\<lambda>dirty.
     bindE (onSrc (nowE es)) (\<lambda>snapshotDone.
     thenE (wrapE ''send round %d: %w'' [AInt r] (sendMemFile es ed (ID (Cfg v)) (Itoa r) (roundMemPath v r)))
    (thenE (onSrc (ignoreE (removeE es (roundMemPath v r))))
           (onSrc (end_round es (ID (Cfg v)) budget r dirty roundStart snapshotDone st)))))))"

fun rounds_loop :: "'p env \<Rightarrow> 'p env \<Rightarrow> nat \<Rightarrow> int \<Rightarrow> nat \<Rightarrow> int \<Rightarrow> loop_state \<Rightarrow> ('p, loop_state) world_act" where
  "rounds_loop es ed a budget 0 r st = retE st"
| "rounds_loop es ed a budget (Suc n) r st = bindE (round_body es ed a budget r st) (\<lambda>(go, st').
     if go then rounds_loop es ed a budget n (r + 1) st' else retE st')"

section \<open>The migration\<close>

definition start_state :: "int \<Rightarrow> int \<Rightarrow> loop_state" where
  "start_state memMiB t =
     (let honestDrain = i64 (i64 (2 * memMiB) * 10 ^ 9) sdiv roundTransferMBps
      in \<lparr>throttleLevel = 0, prevDirty = -1, plateaued = 0, nextEscalation = t + honestDrain, drainStart = t, stats = []\<rparr>)"

text \<open>Step 2: a fresh base when an earlier abort invalidated the old one.\<close>

definition resync :: "'p env \<Rightarrow> nat \<Rightarrow> Recorder \<Rightarrow> ('p, Recorder) host_act" where
  "resync e a rec = bindE (vmE a) (\<lambda>v.
     if needsResync v then
       thenE (apiE e a Pause)
      (bindE (tryE (apiE e a (CreateSnapshot SnapshotFull (baseStatePath v) (baseMemPath v) 0))) (\<lambda>r.
       thenE (apiE e a Resume)
      (case r of
         Inl er \<Rightarrow> failE er
       | Inr _ \<Rightarrow>
           thenE (setVM a (\<lambda>v'. v'\<lparr>baseMem := baseMemPath v, needsResync := False\<rparr>))
          (bindE (markE e ''base.resynced'' rec) (\<lambda>(_, rec'). retE rec')))))
     else retE rec)"

text \<open>Step 5, the blackout window.\<close>

definition blackout :: "'p env \<Rightarrow> 'p env \<Rightarrow> nat \<Rightarrow> Report \<Rightarrow> Recorder \<Rightarrow> ('p, Report) world_act" where
  "blackout es ed a rep rec = bindE (onSrc (vmE a)) (\<lambda>v.
     bindE (onSrc (markE es ''blackout.pause'' rec)) (\<lambda>(blackoutStart, rec1).
     thenE (onSrc (apiE es a Pause))
    (thenE (onSrc (apiE es a (CreateSnapshot SnapshotDiff (finalStatePath v) (finalMemPath v) 0)))
    (bindE (onSrc (markE es ''blackout.snapshotted'' rec1)) (\<lambda>(_, rec2).
     bindE (wrapE ''send final round: %w'' [] (sendMemFile es ed (ID (Cfg v)) ''final'' (finalMemPath v))) (\<lambda>n.
     thenE (wrapE ''send vmstate: %w'' [] (sendFile es ed (ID (Cfg v)) (finalStatePath v)))
    (bindE (onSrc (markE es ''blackout.state_sent'' rec2)) (\<lambda>(_, rec3).
     bindE (wrapE ''finalize on target: %w'' [] (postJSON es ed (ID (Cfg v)) RFinalize)) (\<lambda>r.
     case reply r of
       Final fin \<Rightarrow>
         (let rec4 = fold (\<lambda>ev rc. MarkAt (Name ev) (NS ev) rc) (FinTimeline fin) rec3
          in retE (rep\<lparr>FinalBytes := n, BlackoutNS := ResumedNS fin - blackoutStart, RepTimeline := Events rec4\<rparr>))
     | _ \<Rightarrow> failE (Wrap ''finalize on target: %w'' [] (Err ''EOF'' [])))))))))))"

definition migrateInner :: "'p env \<Rightarrow> 'p env \<Rightarrow> nat \<Rightarrow> string \<Rightarrow> Recorder \<Rightarrow> ('p, Report) world_act" where
  "migrateInner es ed a target rec = bindE (onSrc (vmE a)) (\<lambda>v0.
     bindE (onSrc (askE cfg)) (\<lambda>c.
     thenE (wrapE ''prepare target: %w'' [] (postJSON es ed (ID (Cfg v0)) (RPrepare (Cfg v0))))
    (bindE (onSrc (markE es ''target.prepared'' rec)) (\<lambda>(_, rec1).
     bindE (onSrc (resync es a rec1)) (\<lambda>rec2.
     bindE (onSrc (vmE a)) (\<lambda>v.
     bindE (wrapE ''send base image: %w'' [] (sendMemFile es ed (ID (Cfg v)) ''base'' (baseMem v))) (\<lambda>n.
     bindE (onSrc (markE es ''base.sent'' rec2)) (\<lambda>(_, rec3).
     bindE (onSrc (nowE es)) (\<lambda>drainStart.
     bindE (rounds_loop es ed a (if LiveRounds c then drainBudgetBytes else 0)
              (if LiveRounds c then maxRounds else maxRoundsStock) 1 (start_state (MemMiB (Cfg v)) drainStart)) (\<lambda>st.
     deferE (onSrc (setLevelE es (ID (Cfg v)) 0))
      (thenE (wrapE ''release throttle: %w'' [] (onSrc (setLevelE es (ID (Cfg v)) 0)))
             (blackout es ed a
                \<lparr>RepVM = ID (Cfg v), RepTarget = target, RepLive = LiveRounds c, BaseBytes = n, Rounds = stats st, FinalBytes = 0,
                  BlackoutNS = 0, RepTimeline = []\<rparr> rec3))))))))))))"

text \<open>The rollback of a failed migration.\<close>

definition rollback :: "'p env \<Rightarrow> 'p env \<Rightarrow> nat \<Rightarrow> gerror \<Rightarrow> ('p, Report) world_act" where
  "rollback es ed a err = bindE (onSrc (vmE a)) (\<lambda>v.
     thenE (onSrc (publishE es ''migrate.abort'' (''%s: %v'', [AStr (ID (Cfg v)), AErr err])))
    (thenE (tryE (postJSON es ed (ID (Cfg v)) RAbort))
    (thenE (onSrc (setVM a (needsResync_update (\<lambda>_. True))))
    (bindE (tryE (onSrc (apiE es a Resume))) (\<lambda>r.
     case r of
       Inr _ \<Rightarrow> thenE (onSrc (setState a StateRunning)) (failE err)
     | Inl rerr \<Rightarrow> thenE (onSrc (setState a StateDead))
         (failE (Wrap ''migration failed (%w) and source resume also failed: %v'' [AErr rerr] err)))))))"

definition migrate :: "'p env \<Rightarrow> 'p env \<Rightarrow> nat \<Rightarrow> string \<Rightarrow> ('p, Report) world_act" where
  "migrate es ed a target = bindE (onSrc (vmE a)) (\<lambda>v.
     if vstate v \<noteq> StateRunning then failE (Err ''vm %s is %s, not running'' [AStr (ID (Cfg v)), AStr (state_name (vstate v))])
     else
       thenE (onSrc (setState a StateMigrating))
      (bindE (onSrc (markE es ''migrate.start'' \<lparr>events = []\<rparr>)) (\<lambda>(_, rec).
       thenE (onSrc (publishE es ''migrate.start'' (''%s'', [AStr (ID (Cfg v))])))
      (bindE (tryE (migrateInner es ed a target rec)) (\<lambda>res.
       case res of
         Inl err \<Rightarrow> rollback es ed a err
       | Inr rep \<Rightarrow>
           thenE (onSrc (kill a))
          (thenE (onSrc (setState a StateMigrated))
          (thenE (onSrc (publishE es ''migrate.done'' (''%s blackout=%.2fms'', [AStr (ID (Cfg v)), AInt (BlackoutNS rep)])))
                 (retE rep))))))))"

end
