(* ===== verification/Migrate_Frame.thy ===== *)
theory Migrate_Frame
  imports Agent_Migrate
begin

text \<open>
  What a migration can change on the source host, step by step, and from that its outcome:
  rollback after a failure, the end of the local process after a success.
\<close>

section \<open>Keeping a predicate of the source host\<close>

lemma onSrc_run [act_simps]:
  "onSrc m w = (r, w') \<longleftrightarrow> (\<exists>h. m (src w) = (r, h) \<and> w' = w\<lparr>src := h\<rparr>)"
  by (auto simp: onSrc_def split: prod.splits)

lemma onDst_run [act_simps]:
  "onDst m w = (r, w') \<longleftrightarrow> (\<exists>h. m (dst w) = (r, h) \<and> w' = w\<lparr>dst := h\<rparr>)"
  by (auto simp: onDst_def split: prod.splits)

lemma keeps_onSrc [triple_rules]: "keeps P m \<Longrightarrow> keeps (\<lambda>w. P (src w)) (onSrc m)"
  by (rule keepsI) (auto simp: act_simps dest: keepsD)

lemma keeps_onDst [triple_rules]: "keeps (\<lambda>w. P (src w)) (onDst m)"
  by (rule keepsI) (auto simp: act_simps)

lemma keeps_defer [triple_rules]: "keeps P m \<Longrightarrow> keeps P d \<Longrightarrow> keeps P (deferE d m)"
proof (rule keepsI)
  fix s r s' assume m: "keeps P m" and d: "keeps P d" and s: "P s" "deferE d m s = (r, s')"
  then obtain s1 where "m s = (r, s1)" "s' = snd (d s1)" by (auto simp: act_simps)
  then show "P s'"
    using keepsD [OF m s(1)] keepsD [OF d, of s1 "fst (d s1)" s'] by simp
qed

text \<open>A predicate that the quiet effects and file changes cannot disturb.\<close>

definition steady :: "('p host \<Rightarrow> bool) \<Rightarrow> bool" where
  "steady P \<longleftrightarrow> (\<forall>h fs t th hb u. P h \<longrightarrow> pids th = pids (throttle h) \<longrightarrow> P (h\<lparr>files := fs, tick := t, throttle := th, hub := hb, uplink := u\<rparr>))"

lemma steadyD: "steady P \<Longrightarrow> P h \<Longrightarrow> quiet (h\<lparr>files := files h'\<rparr>) h' \<Longrightarrow> P h'"
proof -
  assume P: "steady P" "P h" and q: "quiet (h\<lparr>files := files h'\<rparr>) h'"
  have "h' = h\<lparr>files := files h', tick := tick h', throttle := throttle h', hub := hub h', uplink := uplink h'\<rparr>"
    using q by (cases h; cases h') (simp add: quiet_def)
  moreover have "P (h\<lparr>files := files h', tick := tick h', throttle := throttle h', hub := hub h', uplink := uplink h'\<rparr>)"
    using P q unfolding steady_def quiet_def by simp
  ultimately show "P h'" by simp
qed

lemma keeps_steady:
  assumes "steady P" and "\<And>h r h'. m h = (r, h') \<Longrightarrow> quiet (h\<lparr>files := files h'\<rparr>) h'"
  shows "keeps P m"
  by (rule keepsI) (blast intro: steadyD [OF assms(1)] assms(2))

lemma quiet_files: "quiet h h' \<Longrightarrow> quiet (h\<lparr>files := files h'\<rparr>) h'"
  by (simp add: quiet_def)

lemma keeps_effects:
  assumes P: "steady P"
  shows "keeps P tickE" "keeps P (nowE e)" "keeps P (markE e name rec)" "keeps P (publishE e k msg)"
    "keeps P (setLevelE e v l)" "keeps P (openE e p)" "keeps P (ignoreE (removeE e p))" "keeps P (vmE a)"
proof -
  show "keeps P tickE" "keeps P (nowE e)" "keeps P (markE e name rec)" "keeps P (vmE a)"
    by (rule keeps_steady [OF P]; simp add: act_simps quiet_def)+
  show "keeps P (publishE e k msg)"
    by (rule keeps_steady [OF P]) (blast dest: quiet_publish intro: quiet_files)
  show "keeps P (setLevelE e v l)"
    by (rule keeps_steady [OF P]) (blast dest: quiet_setLevel intro: quiet_files)
  show "keeps P (openE e p)"
  proof (rule keeps_steady [OF P])
    fix h r h' assume "openE e p h = (r, h')"
    then show "quiet (h\<lparr>files := files h'\<rparr>) h'"
      by (cases r) (auto simp: act_simps quiet_def dest: openE_err)
  qed
  show "keeps P (ignoreE (removeE e p))"
  proof (rule keeps_steady [OF P])
    fix h r h' assume "ignoreE (removeE e p) h = (r, h')"
    then show "quiet (h\<lparr>files := files h'\<rparr>) h'"
      by (auto simp: act_simps quiet_def dest!: removeE_run)
  qed
qed

lemma keeps_api:
  assumes "steady P" and "\<And>h pr. P h \<Longrightarrow> (\<forall>pid. (pr pid = None) = (procs h pid = None)) \<Longrightarrow> P (h\<lparr>procs := pr\<rparr>)"
  shows "keeps P (apiE e a c)"
proof (rule keepsI)
  fix h r h' assume h: "P h" "apiE e a c h = (r, h')"
  have f: "api_frame a h h'" by (rule apiE_frame [OF h(2)])
  then have "P (h\<lparr>procs := procs h'\<rparr>)"
    using assms(2) [OF h(1)] by (simp add: api_frame_def)
  moreover have "quiet ((h\<lparr>procs := procs h'\<rparr>)\<lparr>files := files h'\<rparr>) h'"
    using f by (simp add: quiet_def api_frame_def)
  ultimately show "P h'" by (rule steadyD [OF assms(1)])
qed

lemma keeps_peer:
  assumes "steady P"
  shows "keeps (\<lambda>w. P (src w)) (peerDo es ed i req)" "keeps (\<lambda>w. P (src w)) (peerBroken es ed i req er)"
  unfolding peerDo_def peerBroken_def
  by (auto intro!: triple_rules keeps_effects assms split: net_outcome.split)

lemma keeps_transfers:
  assumes "steady P"
  shows "keeps (\<lambda>w. P (src w)) (postJSON es ed i req)" "keeps (\<lambda>w. P (src w)) (sendFile es ed i p)"
    "keeps (\<lambda>w. P (src w)) (sendMemFile es ed i rd p)"
  unfolding postJSON_def sendFile_def sendMemFile_def
  by (auto intro!: triple_rules keeps_effects keeps_peer assms split: prod.split option.split)

section \<open>The frame of a migration\<close>

text \<open>
  Nothing but the base image and the resync flag of the VM being migrated, the state of the
  processes, files and the throttler moves on the source before the migration is decided.
\<close>

definition src_frame :: "nat \<Rightarrow> 'p host \<Rightarrow> 'p host \<Rightarrow> bool" where
  "src_frame a h h' \<longleftrightarrow> cfg h' = cfg h \<and> vms h' = vms h \<and> nextobj h' = nextobj h \<and> nextpid h' = nextpid h \<and>
     (\<forall>b. b \<noteq> a \<longrightarrow> objs h' b = objs h b) \<and>
     (\<exists>bm nr. objs h' a = (objs h a)\<lparr>baseMem := bm, needsResync := nr\<rparr>) \<and>
     (\<forall>pid. (procs h' pid = None) = (procs h pid = None)) \<and> pids (throttle h') = pids (throttle h)"

lemma src_frame_refl [simp]: "src_frame a h h"
proof -
  have "objs h a = (objs h a)\<lparr>baseMem := baseMem (objs h a), needsResync := needsResync (objs h a)\<rparr>" by simp
  then show ?thesis unfolding src_frame_def by blast
qed

lemma steady_frame [simp]: "steady (src_frame a h)"
  by (simp add: steady_def src_frame_def)

lemma keeps_frame_api: "keeps (src_frame a h) (apiE e a c)"
  by (rule keeps_api) (auto simp: src_frame_def)

lemma keeps_frame_setVM: "keeps (src_frame a h) (setVM a (\<lambda>v. v\<lparr>baseMem := bm, needsResync := nr\<rparr>))"
  by (rule keepsI) (auto simp: act_simps src_frame_def intro!: exI)

lemmas frame_rules = triple_rules keeps_effects [OF steady_frame] keeps_transfers [OF steady_frame]
  keeps_frame_api keeps_frame_setVM

lemma keeps_captureRound: "keeps (src_frame a h) (captureRound e a p budget)"
  unfolding captureRound_def by (auto intro!: frame_rules split: sum.split)

lemma keeps_engage: "keeps (src_frame a h) (engage e v l)"
  unfolding engage_def by (auto intro!: frame_rules split: sum.split)

lemma keeps_decisions:
  "keeps (src_frame a h) (after_full_round e v st)" "keeps (src_frame a h) (after_round e v d st)"
  unfolding after_full_round_def after_round_def Let_def
  by (auto intro!: frame_rules keeps_engage split: prod.split)

lemma keeps_end_round: "keeps (src_frame a h) (end_round e v budget r d t1 t2 st)"
  unfolding end_round_def Let_def by (auto intro!: frame_rules keeps_decisions)

lemma keeps_round_body: "keeps (\<lambda>w. src_frame a h (src w)) (round_body es ed a budget r st)"
  unfolding round_body_def
  by (auto intro!: frame_rules keeps_captureRound keeps_end_round)

lemma keeps_rounds_loop: "keeps (\<lambda>w. src_frame a h (src w)) (rounds_loop es ed a budget n r st)"
  by (induction n arbitrary: r st) (auto intro!: frame_rules keeps_round_body split: prod.split)

lemma keeps_resync: "keeps (src_frame a h) (resync e a rec)"
  unfolding resync_def by (auto intro!: frame_rules split: sum.split prod.split)

lemma keeps_blackout: "keeps (\<lambda>w. src_frame a h (src w)) (blackout es ed a rep rec)"
  unfolding blackout_def Let_def by (auto intro!: frame_rules split: prod.split reply_body.split)

lemma keeps_migrateInner: "keeps (\<lambda>w. src_frame a h (src w)) (migrateInner es ed a tgt rec)"
  unfolding migrateInner_def
  by (auto intro!: frame_rules keeps_resync keeps_rounds_loop keeps_blackout split: prod.split)

end
