(* ===== verification/Migrate_Fidelity.thy ===== *)
theory Migrate_Fidelity
  imports Migrate_Frame Receive_Props
begin

text \<open>
  Memory fidelity: under the contract of the Firecracker process and of \<open>lseek\<close>, a migration
  that succeeds restores on the target exactly the memory and device state that the source had
  at its final pause. The invariant of the rounds is that the target's image agrees with the
  source's memory outside the bytes that are still dirty.
\<close>

section \<open>The files of a slot are distinct\<close>

lemma slash_digit: "d < 10 \<Longrightarrow> CHR ''/'' \<noteq> digit_char d"
proof
  assume "d < 10" "CHR ''/'' = digit_char d"
  then have "digit_val CHR ''/'' = Some (int d)" by (simp add: digit_val_char)
  then show False by (simp add: digit_val_def Let_def)
qed

lemma round_plain: "plain_name (''round-'' @ Itoa r @ ''.mem'' @ suf) \<longleftrightarrow> CHR ''/'' \<notin> set suf"
proof -
  have "CHR ''/'' \<notin> set (Itoa r)"
    by (auto simp: Itoa_def slash_digit dest!: nat_dec_digits)
  then show ?thesis by (auto simp: plain_name_def)
qed

lemma Itoa_inject_nonneg: "0 \<le> r \<Longrightarrow> 0 \<le> s \<Longrightarrow> Itoa r = Itoa s \<longleftrightarrow> r = s"
  by (simp add: Itoa_def nat_dec_inject eq_nat_nat_iff)

lemma round_path: "roundMemPath v r = dir_prefix (vdir v) @ ''round-'' @ Itoa r @ ''.mem''"
  using round_plain [of r "''''"] by (simp add: roundMemPath_def Join_plain)

lemma slot_paths:
  "finalMemPath v = dir_prefix (vdir v) @ ''final.mem''"
  "finalStatePath v = dir_prefix (vdir v) @ ''final.vmstate''"
  "recvMemPath v = dir_prefix (vdir v) @ ''recv.mem''"
  "baseMemPath v = dir_prefix (vdir v) @ ''base.mem''"
  "baseStatePath v = dir_prefix (vdir v) @ ''base.vmstate''"
  by (simp_all add: finalMemPath_def finalStatePath_def recvMemPath_def baseMemPath_def baseStatePath_def
      Join_plain plain_name_def)

lemma round_path_inject: "0 \<le> r \<Longrightarrow> 0 \<le> s \<Longrightarrow> roundMemPath v r = roundMemPath v s \<longleftrightarrow> r = s"
  by (simp add: round_path Itoa_inject_nonneg)

lemma round_path_suffix:
  assumes "suf = ''.state'' \<or> suf = ''.unused-state''"
  shows "roundMemPath v r @ suf \<noteq> roundMemPath v s" "roundMemPath v r @ suf \<noteq> finalMemPath v"
    "roundMemPath v r \<noteq> finalMemPath v"
proof -
  have l: "last (roundMemPath v s) = CHR ''m''" "last (roundMemPath v r @ suf) = CHR ''e''"
    using assms by (auto simp: round_path)
  show "roundMemPath v r @ suf \<noteq> roundMemPath v s"
  proof
    assume "roundMemPath v r @ suf = roundMemPath v s"
    from arg_cong [OF this, of last] l show False by simp
  qed
  show "roundMemPath v r @ suf \<noteq> finalMemPath v" "roundMemPath v r \<noteq> finalMemPath v"
    by (simp_all add: round_path slot_paths)
qed

section \<open>Transfers that succeed\<close>

lemma peerDo_ok:
  assumes "peerDo es ed i req w = (Inr r, w')"
  shows "src w' = (src w)\<lparr>tick := Suc (tick (src w))\<rparr> \<and> serve ed i req None (dst w) = (Inr r, dst w')"
  using assms by (auto simp: peerDo_def act_simps split: net_outcome.splits)

lemma sendMemFile_handled:
  assumes "sendMemFile es ed i rd p w = (Inr n, w')"
  obtains f m u r where "files (src w) p = Some f" "quiet (src w) (src w')"
    "Send (seek es f) \<lparr>out = [], limit = None\<rparr> f = (m, None, u)"
    "handleMem ed i rd (out u) (dst w) = (Inr r, dst w')" "status r = 200"
proof -
  obtain f where f: "files (src w) p = Some f"
    using assms by (auto simp: sendMemFile_def act_simps)
  obtain m er u where sd: "Send (seek es f) \<lparr>out = [], limit = None\<rparr> f = (m, er, u)"
    by (rule prod_cases3)
  have er: "er = None"
    using assms f sd
    by (cases er) (auto simp: sendMemFile_def act_simps peerBroken_def split: net_outcome.splits)
  then obtain r w1 where pd: "peerDo es ed i (RMem rd (out u)) (w\<lparr>src := (src w)\<lparr>tick := Suc (tick (src w))\<rparr>\<rparr>) = (Inr r, w1)"
      "status r = 200"
    and w': "w' = w1\<lparr>src := (src w1)\<lparr>tick := Suc (tick (src w1))\<rparr>\<rparr>"
    using assms f sd by (auto simp: sendMemFile_def act_simps split: if_splits)
  have "handleMem ed i rd (out u) (dst w) = (Inr r, dst w')" "quiet (src w) (src w')"
    using peerDo_ok [OF pd(1)] w' by (simp_all add: serve_def quiet_def)
  with that f sd er pd(2) show ?thesis by blast
qed

lemma sendMemFile_dst:
  assumes "sendMemFile es ed i rd p w = (Inr n, w')"
  shows "vms (dst w') = vms (dst w)" "objs (dst w') = objs (dst w)" "procs (dst w') = procs (dst w)"
proof -
  obtain f m u r where "files (src w) p = Some f" "quiet (src w) (src w')"
    "Send (seek es f) \<lparr>out = [], limit = None\<rparr> f = (m, None, u)"
    and hm: "handleMem ed i rd (out u) (dst w) = (Inr r, dst w')" "status r = 200"
    by (rule sendMemFile_handled [OF assms])
  from handleMem_ok [OF hm] show "vms (dst w') = vms (dst w)" "objs (dst w') = objs (dst w)" "procs (dst w') = procs (dst w)"
    by (auto simp: quiet_def)
qed

lemma sendMemFile_ok:
  assumes "sendMemFile es ed i rd p w = (Inr n, w')"
  obtains f where "files (src w) p = Some f" "quiet (src w) (src w')"
    "seekable (seek es) f \<Longrightarrow> \<exists>b g. vms (dst w) i = Some b \<and> vstate (objs (dst w) b) = StateReceiving \<and>
       files (dst w) (recvMemPath (objs (dst w) b)) = Some g \<and>
       quiet ((dst w)\<lparr>files := (files (dst w))(recvMemPath (objs (dst w) b) \<mapsto> shipped (seek es) g f)\<rparr>) (dst w')"
proof -
  obtain f m u r where f: "files (src w) p = Some f" "quiet (src w) (src w')"
    and sd: "Send (seek es f) \<lparr>out = [], limit = None\<rparr> f = (m, None, u)"
    and hm: "handleMem ed i rd (out u) (dst w) = (Inr r, dst w')" "status r = 200"
    by (rule sendMemFile_handled [OF assms])
  have "\<exists>b g. vms (dst w) i = Some b \<and> vstate (objs (dst w) b) = StateReceiving \<and>
       files (dst w) (recvMemPath (objs (dst w) b)) = Some g \<and>
       quiet ((dst w)\<lparr>files := (files (dst w))(recvMemPath (objs (dst w) b) \<mapsto> shipped (seek es) g f)\<rparr>) (dst w')"
    if "seekable (seek es) f"
  proof -
    have "u = \<lparr>out = stream (seek es) f, limit = None\<rparr>"
      using sd stream_props(1) [OF that] by simp
    then have "out u = stream (seek es) f" by simp
    with handleMem_ok [OF hm] show ?thesis
      unfolding shipped_def by (metis snd_conv)
  qed
  with that f show ?thesis by blast
qed

lemma sendFile_ok:
  assumes "sendFile es ed i p w = (Inr x, w')"
  obtains f b where "files (src w) p = Some f" "quiet (src w) (src w')"
    "vms (dst w) i = Some b" "vstate (objs (dst w) b) = StateReceiving"
    "quiet ((dst w)\<lparr>files := (files (dst w))(finalStatePath (objs (dst w) b) \<mapsto> map Some (content f))\<rparr>) (dst w')"
proof -
  obtain f r where f: "files (src w) p = Some f"
    and pd: "peerDo es ed i (RVMState (content f)) (w\<lparr>src := (src w)\<lparr>tick := Suc (tick (src w))\<rparr>\<rparr>) = (Inr r, w')" "status r = 200"
    using assms by (auto simp: sendFile_def act_simps split: if_splits)
  have hv: "handleVMState ed i (content f) None (dst w) = (Inr r, dst w')"
    using peerDo_ok [OF pd(1)] by (simp add: serve_def)
  have "quiet (src w) (src w')"
    using peerDo_ok [OF pd(1)] by (simp add: quiet_def)
  with handleVMState_ok [OF hv pd(2)] that f show ?thesis by metis
qed

section \<open>The invariant of pre-copy\<close>

definition sender_ok :: "'p fc_view \<Rightarrow> 'p env \<Rightarrow> bool" where
  "sender_ok V e \<longleftrightarrow> fc_contract V e \<and> (\<forall>f. length f < 2 ^ 63 \<longrightarrow> lseek_ok (seek e f) f)"

text \<open>The source's process, and the target's slot with its image.\<close>

definition host_proc :: "nat \<Rightarrow> 'p host \<Rightarrow> 'p \<Rightarrow> bool" where
  "host_proc a h p \<longleftrightarrow> (\<exists>pid. api (objs h a) = Some pid \<and> procs h pid = Some p)"

definition dst_image :: "string \<Rightarrow> 'p world \<Rightarrow> nat \<Rightarrow> sfile \<Rightarrow> bool" where
  "dst_image i w b g \<longleftrightarrow> vms (dst w) i = Some b \<and> vstate (objs (dst w) b) = StateReceiving \<and>
     files (dst w) (recvMemPath (objs (dst w) b)) = Some g"

text \<open>No snapshot file is left over under the names the next rounds will use.\<close>

definition no_leftover :: "VM \<Rightarrow> int \<Rightarrow> fs \<Rightarrow> bool" where
  "no_leftover v r fs \<longleftrightarrow> fs (finalMemPath v) = None \<and> (\<forall>s\<ge>r. fs (roundMemPath v s) = None)"

definition precopy :: "'p fc_view \<Rightarrow> nat \<Rightarrow> VM \<Rightarrow> int \<Rightarrow> 'p world \<Rightarrow> bool" where
  "precopy V a v r w \<longleftrightarrow> objs (src w) a = v \<and> no_leftover v r (files (src w)) \<and>
     (\<exists>p b g. host_proc a (src w) p \<and> length (gmem V p) < 2 ^ 63 \<and> dst_image (ID (Cfg v)) w b g \<and> synced V p g)"

lemma precopy_quiet: "precopy V a v r w \<Longrightarrow> quiet (src w) h \<Longrightarrow> precopy V a v r (w\<lparr>src := h\<rparr>)"
  by (auto simp: precopy_def host_proc_def dst_image_def quiet_def)

lemma sender_seekable: "sender_ok V e \<Longrightarrow> length f < 2 ^ 63 \<Longrightarrow> seekable (seek e) f"
  by (simp add: sender_ok_def seekable_def)

lemma api_proc:
  assumes "apiE e a c h = (Inr x, h')" and "host_proc a h p"
  obtains p' where "host_proc a h' p'" "objs h' = objs h" "cfg h' = cfg h" "vms h' = vms h"
    "perform (fc e (tick h)) c (guest e (tick h) p, files h) = (Inr (), p', files h')"
proof -
  obtain pid q p' fs' where "api (objs h a) = Some pid" "procs h pid = Some q"
    "perform (fc e (tick h)) c (guest e (tick h) q, files h) = (Inr (), p', fs')"
    "h' = h\<lparr>tick := Suc (tick h), procs := (procs h)(pid \<mapsto> p'), files := fs'\<rparr>"
    by (rule apiE_ok [OF assms(1)])
  with assms(2) that [of p'] show ?thesis by (auto simp: host_proc_def)
qed

lemma fc_laws:
  assumes "sender_ok V e"
  shows "guest_law V e" "pause_law V e" "resume_law V e" "full_law V e" "diff_law V e" "live_law V e" "load_law V e"
  using assms by (simp_all add: sender_ok_def fc_contract_def)

text \<open>What a captured round is worth: shipped onto any image in step, it brings it in step again.\<close>

definition round_file :: "'p fc_view \<Rightarrow> 'p env \<Rightarrow> 'p \<Rightarrow> 'p \<Rightarrow> sfile \<Rightarrow> bool" where
  "round_file V e p p' f \<longleftrightarrow> length f = length (gmem V p) \<and> length (gmem V p') = length (gmem V p) \<and>
     (\<forall>g. synced V p g \<longrightarrow> synced V p' (shipped (seek e) g f))"

lemma live_round:
  assumes ok: "sender_ok V e" and p: "host_proc a h p" "length (gmem V p) < 2 ^ 63" and mp: "files h mp = None"
    and c: "apiE e a (CreateSnapshot SnapshotDiffLive sp mp n) h = (Inr x, h')"
  obtains p' f where "host_proc a h' p'" "round_file V e p p' f" "files h' = (files h)(mp \<mapsto> f)" "objs h' = objs h"
proof -
  let ?q = "guest e (tick h) p"
  obtain p' where p': "host_proc a h' p'" "objs h' = objs h"
    and pf: "perform (fc e (tick h)) (CreateSnapshot SnapshotDiffLive sp mp n) (?q, files h) = (Inr (), p', files h')"
    by (rule api_proc [OF c p(1)])
  have ev: "evolves V p ?q" by (rule guest_evolves [OF fc_laws(1) [OF ok]])
  from fc_laws(6) [OF ok] pf obtain f dumped where len: "length (gmem V p') = length (gmem V ?q)" "length f = length (gmem V ?q)"
    and fs: "files h' = (files h)(mp \<mapsto> f)"
    and clean: "\<And>i. i < length f \<Longrightarrow> i \<notin> dumped \<Longrightarrow> f ! i = stale (files h) mp (length f) i"
    and law: "\<And>i. i < length f \<Longrightarrow> i \<notin> gdirty V p' \<Longrightarrow> (if i \<in> dumped then f ! i = Some (gmem V p' ! i)
            else i \<notin> gdirty V ?q \<and> gmem V p' ! i = gmem V ?q ! i)"
    unfolding live_law_def by blast
  have holes: "f ! i = None" if "i < length f" "i \<notin> dumped" for i
    using clean [OF that] mp by (simp add: stale_def)
  have lf: "length f = length (gmem V p)" "length (gmem V p') = length (gmem V p)"
    using len ev by (simp_all add: evolves_def)
  have sk: "seekable (seek e) f"
    using sender_seekable [OF ok] lf p(2) by simp
  have "synced V p' (shipped (seek e) g f)" if "synced V p g" for g
    by (rule ship.live_synced [OF sk synced_evolves [OF that ev] len(2,1) holes law])
  then have "round_file V e p p' f" using lf by (simp add: round_file_def)
  with that p' fs show ?thesis by blast
qed

lemma paused_diff:
  assumes ok: "sender_ok V e" and p: "host_proc a h p" "length (gmem V p) < 2 ^ 63" "\<not> running V p"
    and mp: "files h mp = None" "sp \<noteq> mp"
    and c: "apiE e a (CreateSnapshot SnapshotDiff sp mp 0) h = (Inr x, h')"
  obtains p' f s where "host_proc a h' p'" "\<not> running V p'" "gmem V p' = gmem V p" "gstate V p' = gstate V p"
    "length f = length (gmem V p)" "\<forall>g. synced V p g \<longrightarrow> content (shipped (seek e) g f) = gmem V p"
    "content s = gstate V p" "files h' = (files h)(sp \<mapsto> s, mp \<mapsto> f)" "objs h' = objs h"
proof -
  have g: "guest e (tick h) p = p" by (rule guest_paused [OF fc_laws(1) [OF ok] p(3)])
  obtain p' where p': "host_proc a h' p'" "objs h' = objs h"
    and pf: "perform (fc e (tick h)) (CreateSnapshot SnapshotDiff sp mp 0) (p, files h) = (Inr (), p', files h')"
    by (rule api_proc [OF c p(1), unfolded g])
  from fc_laws(5) [OF ok] p(3) mp(2) pf obtain f s dumped where
    st: "\<not> running V p'" "gmem V p' = gmem V p" "gstate V p' = gstate V p" "length f = length (gmem V p)" "content s = gstate V p"
    and d: "gdirty V p \<subseteq> dumped"
    and law: "\<And>i. i < length f \<Longrightarrow> f ! i = (if i \<in> dumped then Some (gmem V p ! i) else stale (files h) mp (length f) i)"
    and fs: "files h' = (files h)(sp \<mapsto> s, mp \<mapsto> f)"
    unfolding diff_law_def by blast
  have f: "f ! i = (if i \<in> dumped then Some (gmem V p ! i) else None)" if "i < length f" for i
    using law [OF that] mp(1) by (simp add: stale_def)
  have sk: "seekable (seek e) f"
    using sender_seekable [OF ok] st(4) p(2) by simp
  have "content (shipped (seek e) g f) = gmem V p" if "synced V p g" for g
    by (rule ship.paused_exact [OF sk that st(4) d f])
  with that p' st fs show ?thesis by blast
qed

lemma pause_lawD:
  "pause_law V e \<Longrightarrow> perform (fc e t) Pause (p, fs) = (Inr (), p', fs') \<Longrightarrow> \<not> running V p' \<and> evolves V p p' \<and> fs' = fs"
  by (simp add: pause_law_def)

lemma resume_lawD:
  "resume_law V e \<Longrightarrow> perform (fc e t) Resume (p, fs) = (Inr (), p', fs') \<Longrightarrow> running V p' \<and> evolves V p p' \<and> fs' = fs"
  by (simp add: resume_law_def)

lemma walk_tail:
  "(case x of Inl er \<Rightarrow> failE er | Inr extents \<Rightarrow> retE (TotalBytes extents)) s = (Inr d, s') \<Longrightarrow> s' = s"
  by (cases x) (auto simp: act_simps)

lemma try_tail:
  "(case r of Inl er \<Rightarrow> failE er | Inr _ \<Rightarrow> m) s = (Inr x, s') \<longleftrightarrow> (\<exists>y. r = Inr y) \<and> m s = (Inr x, s')"
  by (cases r) (auto simp: act_simps)

lemma pause_proc:
  assumes ok: "sender_ok V e" and p: "host_proc a h p" and c: "apiE e a Pause h = (Inr x, h')"
  obtains p' where "host_proc a h' p'" "\<not> running V p'" "evolves V p p'" "files h' = files h" "objs h' = objs h"
proof -
  obtain p' where p': "host_proc a h' p'" "objs h' = objs h"
    and pf: "perform (fc e (tick h)) Pause (guest e (tick h) p, files h) = (Inr (), p', files h')"
    by (rule api_proc [OF c p])
  then have "\<not> running V p'" "evolves V (guest e (tick h) p) p'" "files h' = files h"
    using pause_lawD [OF fc_laws(2) [OF ok] pf] by simp_all
  moreover have "evolves V p (guest e (tick h) p)" by (rule guest_evolves [OF fc_laws(1) [OF ok]])
  ultimately show ?thesis using that [OF p'(1)] p'(2) evolves_trans [of V p "guest e (tick h) p" p'] by simp
qed

lemma resume_proc:
  assumes ok: "sender_ok V e" and p: "host_proc a h p" and c: "apiE e a Resume h = (Inr x, h')"
  obtains p' where "host_proc a h' p'" "running V p'" "evolves V p p'" "files h' = files h" "objs h' = objs h"
proof -
  obtain p' where p': "host_proc a h' p'" "objs h' = objs h"
    and pf: "perform (fc e (tick h)) Resume (guest e (tick h) p, files h) = (Inr (), p', files h')"
    by (rule api_proc [OF c p])
  then have "running V p'" "evolves V (guest e (tick h) p) p'" "files h' = files h"
    using resume_lawD [OF fc_laws(3) [OF ok] pf] by simp_all
  moreover have "evolves V p (guest e (tick h) p)" by (rule guest_evolves [OF fc_laws(1) [OF ok]])
  ultimately show ?thesis using that [OF p'(1)] p'(2) evolves_trans [of V p "guest e (tick h) p" p'] by simp
qed

lemma stock_round:
  assumes ok: "sender_ok V e" and p: "host_proc a h p" "length (gmem V p) < 2 ^ 63" and mp: "files h mp = None" "sp \<noteq> mp"
    and c: "apiE e a Pause h = (Inr x, h1)" "apiE e a (CreateSnapshot SnapshotDiff sp mp 0) h1 = (Inr y, h2)"
      "apiE e a Resume h2 = (Inr z, h3)"
  obtains p' f s where "host_proc a h3 p'" "round_file V e p p' f" "files h3 = (files h)(sp \<mapsto> s, mp \<mapsto> f)" "objs h3 = objs h"
proof -
  obtain p1 where p1: "host_proc a h1 p1" "\<not> running V p1" "evolves V p p1" "files h1 = files h" "objs h1 = objs h"
    by (rule pause_proc [OF ok p(1) c(1)])
  have l1: "length (gmem V p1) < 2 ^ 63" "files h1 mp = None"
    using p1(3,4) p(2) mp by (simp_all add: evolves_def)
  obtain p2 f s where p2: "host_proc a h2 p2" "\<not> running V p2" "gmem V p2 = gmem V p1" "gstate V p2 = gstate V p1"
    "length f = length (gmem V p1)" "\<forall>g. synced V p1 g \<longrightarrow> content (shipped (seek e) g f) = gmem V p1"
    "content s = gstate V p1" "files h2 = (files h1)(sp \<mapsto> s, mp \<mapsto> f)" "objs h2 = objs h1"
    by (rule paused_diff [OF ok p1(1) l1(1) p1(2) l1(2) mp(2) c(2)])
  obtain p3 where p3: "host_proc a h3 p3" "evolves V p2 p3" "files h3 = files h2" "objs h3 = objs h2"
    by (rule resume_proc [OF ok p2(1) c(3)])
  have sk: "seekable (seek e) f"
    using sender_seekable [OF ok] p2(5) l1(1) by simp
  have "synced V p3 (shipped (seek e) g f)" if "synced V p g" for g
  proof (rule synced_evolves [OF _ p3(2)])
    have "content (shipped (seek e) g f) = gmem V p2"
      using p2(3,6) synced_evolves [OF that p1(3)] by simp
    then show "synced V p2 (shipped (seek e) g f)"
      using ship.deliver_length [OF sk] p2(3,5) by (simp add: synced_def)
  qed
  then have "round_file V e p p3 f"
    using p1(3) p2(3,5) p3(2) by (simp add: round_file_def evolves_def)
  with that p3 p2(8,9) p1(4,5) show ?thesis by simp
qed

lemma captureRound_ok:
  assumes ok: "sender_ok V e" and p: "host_proc a h p" "length (gmem V p) < 2 ^ 63" and mp: "files h mp = None"
    and c: "captureRound e a mp budget h = (Inr d, h')"
  obtains p' f where "host_proc a h' p'" "round_file V e p p' f" "files h' mp = Some f" "objs h' = objs h"
    "\<And>q. q \<notin> {mp, mp @ ''.state'', mp @ ''.unused-state''} \<Longrightarrow> files h' q = files h q"
proof (cases "LiveRounds (cfg h)")
  case True
  then obtain h1 where s: "apiE e a (CreateSnapshot SnapshotDiffLive (mp @ ''.unused-state'') mp budget) h = (Inr (), h1)"
    and h': "h' = h1\<lparr>tick := Suc (tick h1)\<rparr>"
    using c by (auto simp: captureRound_def act_simps dest!: walk_tail)
  obtain p' f where "host_proc a h1 p'" "round_file V e p p' f" "files h1 = (files h)(mp \<mapsto> f)" "objs h1 = objs h"
    by (rule live_round [OF ok p mp s])
  with that [of p' f] show ?thesis by (simp add: h' host_proc_def)
next
  case False
  then obtain h1 h2 h3 h4 where s: "apiE e a Pause h = (Inr (), h1)"
      "apiE e a (CreateSnapshot SnapshotDiff (mp @ ''.state'') mp 0) h1 = (Inr (), h2)" "apiE e a Resume h2 = (Inr (), h3)"
    and rm: "h4 = h3\<lparr>tick := Suc (tick h3)\<rparr> \<or> h4 = h3\<lparr>tick := Suc (tick h3), files := (files h3)(mp @ ''.state'' := None)\<rparr>"
    and h': "h' = h4\<lparr>tick := Suc (tick h4)\<rparr>"
    using c by (auto simp: captureRound_def act_simps try_tail dest!: walk_tail removeE_run)
  obtain p' f st where p': "host_proc a h3 p'" "round_file V e p p' f" "files h3 = (files h)(mp @ ''.state'' \<mapsto> st, mp \<mapsto> f)" "objs h3 = objs h"
    by (rule stock_round [OF ok p mp _ s]) simp
  show ?thesis
  proof (rule that [of p' f])
    show "host_proc a h' p'" "objs h' = objs h" "files h' mp = Some f" "round_file V e p p' f"
      using rm p' by (auto simp: h' host_proc_def)
    show "files h' q = files h q" if "q \<notin> {mp, mp @ ''.state'', mp @ ''.unused-state''}" for q
      using rm p' that by (auto simp: h')
  qed
qed

lemma host_proc_quiet: "quiet h h' \<Longrightarrow> host_proc a h' p = host_proc a h p"
  by (simp add: quiet_def host_proc_def)

lemma send_image:
  assumes ok: "sender_ok V es" and f: "files (src w) mp = Some f" "length f < 2 ^ 63"
    and im: "dst_image i w b g" and s: "sendMemFile es ed i rd mp w = (Inr n, w')"
  shows "dst_image i w' b (shipped (seek es) g f)" "quiet (src w) (src w')"
    "cfg (dst w') = cfg (dst w)" "objs (dst w') = objs (dst w)" "procs (dst w') = procs (dst w)"
proof -
  obtain f' where f': "files (src w) mp = Some f'" "quiet (src w) (src w')"
    and d: "seekable (seek es) f' \<Longrightarrow> \<exists>b g. vms (dst w) i = Some b \<and> vstate (objs (dst w) b) = StateReceiving \<and>
       files (dst w) (recvMemPath (objs (dst w) b)) = Some g \<and>
       quiet ((dst w)\<lparr>files := (files (dst w))(recvMemPath (objs (dst w) b) \<mapsto> shipped (seek es) g f')\<rparr>) (dst w')"
    by (rule sendMemFile_ok [OF s]) blast
  have q: "quiet ((dst w)\<lparr>files := (files (dst w))(recvMemPath (objs (dst w) b) \<mapsto> shipped (seek es) g f)\<rparr>) (dst w')"
    using d f f' im sender_seekable [OF ok f(2)] by (auto simp: dst_image_def)
  show "dst_image i w' b (shipped (seek es) g f)" "quiet (src w) (src w')"
    "cfg (dst w') = cfg (dst w)" "objs (dst w') = objs (dst w)" "procs (dst w') = procs (dst w)"
    using q im f'(2) by (auto simp: dst_image_def quiet_def)
qed

lemma quiet_engage: "engage e v l h = (r, h') \<Longrightarrow> quiet h h'"
  unfolding engage_def
  by (auto simp: bindE_def tryE_def retE_def split: prod.splits sum.splits
      dest!: quiet_setLevel quiet_publish intro: quiet_trans)

lemma quiet_decisions:
  "after_full_round e v st h = (r, h') \<Longrightarrow> quiet h h'"
  "after_round e v d st h = (r, h') \<Longrightarrow> quiet h h'"
proof -
  assume "after_full_round e v st h = (r, h')"
  then show "quiet h h'"
    unfolding after_full_round_def Let_def
    by (cases r) (auto simp: act_simps split: if_splits
        dest!: quiet_publish quiet_engage intro: quiet_trans, (simp add: quiet_def)+)
next
  assume "after_round e v d st h = (r, h')"
  then show "quiet h h'"
    unfolding after_round_def Let_def
    by (cases r) (auto simp: act_simps split: if_splits dest!: quiet_engage)
qed

lemma no_leftover_step:
  assumes "no_leftover v r fs" "0 \<le> r"
    and "\<And>q. q \<notin> {roundMemPath v r, roundMemPath v r @ ''.state'', roundMemPath v r @ ''.unused-state''} \<Longrightarrow> fs' q = fs q"
  shows "no_leftover v (r + 1) fs'"
proof -
  have "fs' (finalMemPath v) = fs (finalMemPath v)"
    by (rule assms(3)) (use round_path_suffix [of "''.state''" v r] round_path_suffix [of "''.unused-state''" v r] in auto)
  moreover have "fs' (roundMemPath v s) = fs (roundMemPath v s)" if "r + 1 \<le> s" for s
    by (rule assms(3))
      (use that assms(2) round_path_suffix(1) [of "''.state''" v r s] round_path_suffix(1) [of "''.unused-state''" v r s]
        round_path_inject [of s r v] in auto)
  ultimately show ?thesis
    using assms(1) by (auto simp: no_leftover_def)
qed

lemma quiet_end_round:
  assumes "end_round e v budget r d t1 t2 st h = (Inr x, h')"
  shows "quiet h h'"
proof -
  obtain q h2 st' where p: "publishE e ''round'' (''%s r=%d dirty=%dKiB throttle=%d'',
      [AStr v, AInt r, AInt (d div 1024), AInt (throttleLevel st)]) (h\<lparr>tick := Suc (tick h)\<rparr>) = (q, h2)"
    and k: "after_full_round e v st' h2 = (Inr x, h') \<or> after_round e v d st' h2 = (Inr x, h')"
    using assms unfolding end_round_def Let_def by (auto simp: act_simps split: if_splits)
  have "quiet h h2" using quiet_publish [OF p] by (simp add: quiet_def)
  moreover have "quiet h2 h'" using k quiet_decisions by blast
  ultimately show ?thesis by (rule quiet_trans)
qed

lemma round_body_parts:
  assumes "round_body es ed a budget r st w = (Inr res, w')" and "objs (src w) a = v"
  obtains h1 d w2 n h3 where
    "captureRound es a (roundMemPath v r) budget ((src w)\<lparr>tick := Suc (tick (src w))\<rparr>) = (Inr d, h1)"
    "sendMemFile es ed (ID (Cfg v)) (Itoa r) (roundMemPath v r) (w\<lparr>src := h1\<lparr>tick := Suc (tick h1)\<rparr>\<rparr>) = (Inr n, w2)"
    "h3 = src w2 \<or> h3 = (src w2)\<lparr>files := (files (src w2))(roundMemPath v r := None)\<rparr>"
    "quiet h3 (src w')" "dst w' = dst w2"
proof -
  obtain h1 d w2 n x h3 t1 t2 h where
    c: "captureRound es a (roundMemPath v r) budget ((src w)\<lparr>tick := Suc (tick (src w))\<rparr>) = (Inr d, h1)"
    and s: "sendMemFile es ed (ID (Cfg v)) (Itoa r) (roundMemPath v r) (w\<lparr>src := h1\<lparr>tick := Suc (tick h1)\<rparr>\<rparr>) = (Inr n, w2)"
    and rm: "removeE es (roundMemPath v r) (src w2) = (x, h3)"
    and rest: "end_round es (ID (Cfg v)) budget r d t1 t2 st h3 = (Inr res, h)" "w' = w2\<lparr>src := h\<rparr>"
    using assms unfolding round_body_def by (auto simp: act_simps)
  have "quiet h3 (src w')" "dst w' = dst w2" using quiet_end_round [OF rest(1)] rest(2) by simp_all
  moreover have "\<exists>h. (h = src w2 \<or> h = (src w2)\<lparr>files := (files (src w2))(roundMemPath v r := None)\<rparr>) \<and> quiet h h3"
    using removeE_run [OF rm] by (auto simp: quiet_def)
  ultimately show ?thesis
    using that c s quiet_trans by blast
qed

lemma round_body_precopy:
  assumes ok: "sender_ok V es" and pc: "precopy V a v r w" "0 \<le> r"
    and rb: "round_body es ed a budget r st w = (Inr res, w')"
  shows "precopy V a v (r + 1) w'"
proof -
  let ?mp = "roundMemPath v r" and ?i = "ID (Cfg v)"
  have v: "objs (src w) a = v" using pc(1) by (simp add: precopy_def)
  obtain p b g where p: "host_proc a (src w) p" "length (gmem V p) < 2 ^ 63" and im: "dst_image ?i w b g" "synced V p g"
    using pc(1) by (auto simp: precopy_def)
  obtain h1 d w2 n h3 where
    c: "captureRound es a ?mp budget ((src w)\<lparr>tick := Suc (tick (src w))\<rparr>) = (Inr d, h1)"
    and s: "sendMemFile es ed ?i (Itoa r) ?mp (w\<lparr>src := h1\<lparr>tick := Suc (tick h1)\<rparr>\<rparr>) = (Inr n, w2)"
    and h3: "h3 = src w2 \<or> h3 = (src w2)\<lparr>files := (files (src w2))(?mp := None)\<rparr>"
    and fin: "quiet h3 (src w')" "dst w' = dst w2"
    by (rule round_body_parts [OF rb v])
  have p0: "host_proc a ((src w)\<lparr>tick := Suc (tick (src w))\<rparr>) p" "files ((src w)\<lparr>tick := Suc (tick (src w))\<rparr>) ?mp = None"
    using p(1) pc(1) by (simp_all add: host_proc_def precopy_def no_leftover_def)
  obtain p' f where cap: "host_proc a h1 p'" "round_file V es p p' f" "files h1 ?mp = Some f"
      "objs h1 = objs ((src w)\<lparr>tick := Suc (tick (src w))\<rparr>)"
    and oth: "\<And>q. q \<notin> {?mp, ?mp @ ''.state'', ?mp @ ''.unused-state''} \<Longrightarrow>
        files h1 q = files ((src w)\<lparr>tick := Suc (tick (src w))\<rparr>) q"
    by (rule captureRound_ok [OF ok p0(1) p(2) p0(2) c]) blast
  let ?w1 = "w\<lparr>src := h1\<lparr>tick := Suc (tick h1)\<rparr>\<rparr>"
  have lf: "files (src ?w1) ?mp = Some f" "length f < 2 ^ 63" "dst_image ?i ?w1 b g"
    using cap p(2) im by (simp_all add: round_file_def dst_image_def)
  note sent = send_image [OF ok lf s]
  have q13: "quiet h1 (src w2)" using sent(2) by (simp add: quiet_def)
  have "files (src w') q = files (src w) q" if "q \<notin> {?mp, ?mp @ ''.state'', ?mp @ ''.unused-state''}" for q
    using oth [OF that] q13 h3 fin(1) that by (auto simp: quiet_def)
  then have "no_leftover v (r + 1) (files (src w'))"
    using no_leftover_step [of v r "files (src w)"] pc by (simp add: precopy_def)
  moreover have "objs (src w') a = v" "host_proc a (src w') p'"
    using cap(1,4) v q13 h3 fin(1) by (auto simp: quiet_def host_proc_def)
  moreover have "dst_image ?i w' b (shipped (seek es) g f)"
    using sent(1) fin(2) by (simp add: dst_image_def)
  moreover have "synced V p' (shipped (seek es) g f)" "length (gmem V p') < 2 ^ 63"
    using cap(2) im(2) p(2) by (simp_all add: round_file_def)
  ultimately show ?thesis unfolding precopy_def by blast
qed

lemma rounds_loop_precopy:
  assumes ok: "sender_ok V es" and pc: "precopy V a v r w" "0 \<le> r"
    and rl: "rounds_loop es ed a budget n r st w = (Inr st', w')"
  shows "\<exists>r'\<ge>0. precopy V a v r' w'"
  using pc rl
proof (induction n arbitrary: r st w)
  case 0
  then show ?case by (auto simp: act_simps)
next
  case (Suc n)
  from Suc.prems(3) obtain go st1 w1 where rb: "round_body es ed a budget r st w = (Inr (go, st1), w1)"
    and k: "(if go then rounds_loop es ed a budget n (r + 1) st1 else retE st1) w1 = (Inr st', w')"
    by (auto simp: act_simps)
  have pc1: "precopy V a v (r + 1) w1"
    by (rule round_body_precopy [OF ok Suc.prems(1,2) rb])
  show ?case
  proof (cases go)
    case True
    then show ?thesis using Suc.IH [OF pc1 _ ] k Suc.prems(2) by simp
  next
    case False
    then show ?thesis using k pc1 Suc.prems(2) by (auto simp: act_simps intro!: exI [of _ "r + 1"])
  qed
qed

section \<open>The base image\<close>

text \<open>
  The invariant of a VM between migrations: its process is there, and its base image agrees with
  the memory outside what is dirty, unless a resync is due.
\<close>

definition base_ok :: "'p fc_view \<Rightarrow> nat \<Rightarrow> 'p host \<Rightarrow> bool" where
  "base_ok V a h \<longleftrightarrow> (\<exists>p. host_proc a h p \<and>
     (needsResync (objs h a) \<or> (\<exists>f. files h (baseMem (objs h a)) = Some f \<and> synced V p f)))"

lemma full_snapshot:
  assumes ok: "sender_ok V e" and p: "host_proc a h p" "\<not> running V p" and ne: "sp \<noteq> mp"
    and c: "apiE e a (CreateSnapshot SnapshotFull sp mp 0) h = (Inr x, h')"
  obtains p' f s where "host_proc a h' p'" "\<not> running V p'" "gmem V p' = gmem V p" "content f = gmem V p"
    "files h' = (files h)(sp \<mapsto> s, mp \<mapsto> f)" "objs h' = objs h"
proof -
  have g: "guest e (tick h) p = p" by (rule guest_paused [OF fc_laws(1) [OF ok] p(2)])
  obtain p' where p': "host_proc a h' p'" "objs h' = objs h"
    and pf: "perform (fc e (tick h)) (CreateSnapshot SnapshotFull sp mp 0) (p, files h) = (Inr (), p', files h')"
    by (rule api_proc [OF c p(1), unfolded g])
  from fc_laws(4) [OF ok] p(2) ne pf obtain f s where "\<not> running V p'" "gmem V p' = gmem V p" "content f = gmem V p"
    "files h' = (files h)(sp \<mapsto> s, mp \<mapsto> f)"
    unfolding full_law_def by blast
  with that p' show ?thesis by blast
qed

text \<open>Pause, full snapshot, resume: the sequence of \<open>boot\<close> and of a resync.\<close>

lemma full_base:
  assumes ok: "sender_ok V e" and p: "host_proc a h p" and ne: "sp \<noteq> mp"
    and c: "apiE e a Pause h = (Inr x, h1)" "apiE e a (CreateSnapshot SnapshotFull sp mp 0) h1 = (Inr y, h2)"
      "apiE e a Resume h2 = (Inr z, h3)"
  obtains p' f s where "host_proc a h3 p'" "synced V p' f" "files h3 = (files h)(sp \<mapsto> s, mp \<mapsto> f)" "objs h3 = objs h"
    "length (gmem V p') = length (gmem V p)"
proof -
  obtain p1 where p1: "host_proc a h1 p1" "\<not> running V p1" "evolves V p p1" "files h1 = files h" "objs h1 = objs h"
    by (rule pause_proc [OF ok p c(1)])
  obtain p2 f s where p2: "host_proc a h2 p2" "\<not> running V p2" "gmem V p2 = gmem V p1" "content f = gmem V p1"
    "files h2 = (files h1)(sp \<mapsto> s, mp \<mapsto> f)" "objs h2 = objs h1"
    by (rule full_snapshot [OF ok p1(1,2) ne c(2)])
  obtain p3 where p3: "host_proc a h3 p3" "evolves V p2 p3" "files h3 = files h2" "objs h3 = objs h2"
    by (rule resume_proc [OF ok p2(1) c(3)])
  have "length f = length (gmem V p2)"
    using p2(3,4) by (metis length_content)
  then have "synced V p2 f"
    using p2(3,4) by (simp add: synced_def)
  then have "synced V p3 f" by (rule synced_evolves [OF _ p3(2)])
  moreover have "length (gmem V p3) = length (gmem V p)"
    using p1(3) p2(3) p3(2) by (simp add: evolves_def)
  ultimately show ?thesis
    using that [OF p3(1)] p3 p2(5,6) p1(4,5) by simp
qed

lemma base_paths_apart: "baseStatePath v \<noteq> baseMemPath v" "roundMemPath v r \<notin> {baseStatePath v, baseMemPath v}"
  "finalMemPath v \<notin> {baseStatePath v, baseMemPath v}" "finalStatePath v \<noteq> finalMemPath v" "finalStatePath v \<noteq> recvMemPath v"
  by (simp_all add: slot_paths round_path)

lemma resync_ok:
  assumes ok: "sender_ok V e" and b: "host_proc a h p"
      "needsResync (objs h a) \<or> (\<exists>f. files h (baseMem (objs h a)) = Some f \<and> synced V p f)"
    and nl: "no_leftover (objs h a) r (files h)"
    and rs: "resync e a rec h = (Inr rec', h')"
  obtains p' f where "host_proc a h' p'" "files h' (baseMem (objs h' a)) = Some f" "synced V p' f"
    "length (gmem V p') = length (gmem V p)" "no_leftover (objs h' a) r (files h')"
    "Cfg (objs h' a) = Cfg (objs h a)"
proof (cases "needsResync (objs h a)")
  case False
  then have "h' = h" using rs by (auto simp: resync_def act_simps)
  with False b nl that show ?thesis by blast
next
  case True
  let ?v = "objs h a"
  obtain h1 h2 h3 where c: "apiE e a Pause h = (Inr (), h1)"
    "apiE e a (CreateSnapshot SnapshotFull (baseStatePath ?v) (baseMemPath ?v) 0) h1 = (Inr (), h2)"
    "apiE e a Resume h2 = (Inr (), h3)"
    and h': "h' = h3\<lparr>objs := (objs h3)(a := (objs h3 a)\<lparr>baseMem := baseMemPath ?v, needsResync := False\<rparr>), tick := Suc (tick h3)\<rparr>"
    using rs True by (auto simp: resync_def act_simps try_tail Mark_def)
  obtain p' f s where p': "host_proc a h3 p'" "synced V p' f"
    "files h3 = (files h)(baseStatePath ?v \<mapsto> s, baseMemPath ?v \<mapsto> f)" "objs h3 = objs h" "length (gmem V p') = length (gmem V p)"
    by (rule full_base [OF ok b(1) base_paths_apart(1) c])
  show ?thesis
  proof (rule that [of p' f])
    show "host_proc a h' p'" "synced V p' f" "length (gmem V p') = length (gmem V p)"
      "files h' (baseMem (objs h' a)) = Some f" "Cfg (objs h' a) = Cfg (objs h a)"
      using p' by (auto simp: h' host_proc_def)
    show "no_leftover (objs h' a) r (files h')"
      using nl p'(3,4) base_paths_apart(2,3) [of ?v]
      by (auto simp: h' no_leftover_def finalMemPath_def roundMemPath_def)
  qed
qed

lemma prepare_image:
  assumes "postJSON es ed i (RPrepare vc) w = (Inr r, w')"
  obtains b where "dst_image i w' b []" "quiet (src w) (src w')"
proof -
  have pd: "peerDo es ed i (RPrepare vc) w = (Inr r, w')" "status r = 200"
    using assms by (auto simp: postJSON_def act_simps split: if_splits)
  have hp: "handlePrepare ed i (Inr vc) (dst w) = (Inr r, dst w')" and q: "quiet (src w) (src w')"
    using peerDo_ok [OF pd(1)] by (simp_all add: serve_def quiet_def)
  let ?h = "dst w" let ?a = "nextobj ?h"
  obtain vc' h1 h2 where vc': "Inr vc = (Inr vc' :: gerror + VMConfig)" "ID vc' = i"
    and sp: "spawnFirecracker ed ?a (?h\<lparr>objs := (objs ?h)(?a := fresh_slot (cfg ?h) vc' StateReceiving),
       nextobj := Suc ?a\<rparr>) = (Inr (), h1)"
    and h2: "h2 = h1\<lparr>files := (files h1)(recvMemPath (objs h1 ?a) \<mapsto> []), vms := (vms h1)(i \<mapsto> ?a)\<rparr>"
    and f: "quiet (case vms h1 i of None \<Rightarrow> h2 | Some b \<Rightarrow>
       (case proc (objs h1 b) of None \<Rightarrow> h2 | Some pid \<Rightarrow> h2\<lparr>procs := (procs h1)(pid := None)\<rparr>)) (dst w')"
    by (rule handlePrepare_ok [OF hp pd(2)])
  have "vstate (objs h1 ?a) = StateReceiving"
    using spawnFirecracker_ok [OF sp] by (simp add: fresh_slot_def)
  then have "dst_image i w' ?a []"
    using f by (auto simp: h2 dst_image_def quiet_def split: option.splits)
  with that q show ?thesis by blast
qed

section \<open>The blackout window\<close>

text \<open>
  What a finished migration means: the source's process is paused with memory \<open>m\<close> and device
  state \<open>s\<close>, and the target's process, running, started from exactly \<open>m\<close> and \<open>s\<close>; the image it
  was restored from is its base image for the next migration.
\<close>

definition restored :: "'p fc_view \<Rightarrow> nat \<Rightarrow> string \<Rightarrow> 'p world \<Rightarrow> bool" where
  "restored V a i w \<longleftrightarrow> (\<exists>p b g p' p0.
     host_proc a (src w) p \<and> \<not> running V p \<and>
     vms (dst w) i = Some b \<and> vstate (objs (dst w) b) = StateRunning \<and>
     host_proc b (dst w) p' \<and> running V p' \<and>
     evolves V p0 p' \<and> gmem V p0 = gmem V p \<and> gstate V p0 = gstate V p \<and> gdirty V p0 = {} \<and>
     files (dst w) (baseMem (objs (dst w) b)) = Some g \<and> content g = gmem V p)"

lemma finalize_ok:
  assumes lo: "load_law V ed" and f: "postJSON es ed i RFinalize w = (Inr r, w')"
    and im: "dst_image i w b g" and sf: "files (dst w) (finalStatePath (objs (dst w) b)) = Some s"
  shows "quiet (src w) (src w') \<and> vms (dst w') i = Some b \<and> vstate (objs (dst w') b) = StateRunning \<and>
    baseMem (objs (dst w') b) = recvMemPath (objs (dst w) b) \<and> files (dst w') (recvMemPath (objs (dst w) b)) = Some g \<and>
    (\<exists>p' p0. host_proc b (dst w') p' \<and> running V p' \<and> evolves V p0 p' \<and> gmem V p0 = content g \<and>
       gstate V p0 = content s \<and> gdirty V p0 = {})"
proof -
  have pd: "peerDo es ed i RFinalize w = (Inr r, w')" "status r = 200"
    using f by (auto simp: postJSON_def act_simps split: if_splits)
  have hf: "handleFinalize ed i (dst w) = (Inr r, dst w')" and q: "quiet (src w) (src w')"
    using peerDo_ok [OF pd(1)] by (simp_all add: serve_def quiet_def)
  let ?v = "objs (dst w) b"
  obtain b' h1 h2 h3 fin where b': "vms (dst w) i = Some b'" "vstate (objs (dst w) b') = StateReceiving" and q1: "quiet (dst w) h1"
    and l: "apiE ed b' (LoadSnapshot (finalStatePath (objs (dst w) b')) (recvMemPath (objs (dst w) b')) True True) h1 = (Inr (), h2)"
    and q2: "quiet h2 h3" "reply r = Final fin"
    "quiet (h3\<lparr>objs := (objs h3)(b' := (objs h3 b')\<lparr>baseMem := recvMemPath (objs (dst w) b'), vstate := StateRunning\<rparr>)\<rparr>) (dst w')"
    by (rule handleFinalize_ok [OF hf pd(2)])
  have [simp]: "b' = b" using b'(1) im by (simp add: dst_image_def)
  obtain pid q p' fs' where pr: "api (objs h1 b') = Some pid" "procs h1 pid = Some q"
    "perform (fc ed (tick h1)) (LoadSnapshot (finalStatePath ?v) (recvMemPath ?v) True True) (guest ed (tick h1) q, files h1) = (Inr (), p', fs')"
    "h2 = h1\<lparr>tick := Suc (tick h1), procs := (procs h1)(pid \<mapsto> p'), files := fs'\<rparr>"
    by (rule apiE_ok [OF l]) simp
  from lo pr(3) obtain s' g' p0 where fs: "fs' = files h1" "running V p'"
    and fl: "files h1 (finalStatePath ?v) = Some s'" "files h1 (recvMemPath ?v) = Some g'"
    and p0: "gmem V p0 = content g'" "gstate V p0 = content s'" "gdirty V p0 = {}" "evolves V p0 p'"
    unfolding load_law_def by blast
  have "g' = g" "s' = s"
    using fl q1 im sf by (simp_all add: quiet_def dst_image_def)
  moreover have "host_proc b (dst w') p'"
    using pr q2 by (auto simp: host_proc_def quiet_def)
  ultimately show ?thesis
    using q q1 q2 pr(1,4) fs p0 im by (auto simp: quiet_def dst_image_def)
qed

lemma blackout_parts:
  assumes "blackout es ed a rep rec w = (Inr rep', w')" and "objs (src w) a = v"
  obtains h1 h2 w3 n w4 w5 r where
    "apiE es a Pause ((src w)\<lparr>tick := Suc (tick (src w))\<rparr>) = (Inr (), h1)"
    "apiE es a (CreateSnapshot SnapshotDiff (finalStatePath v) (finalMemPath v) 0) h1 = (Inr (), h2)"
    "sendMemFile es ed (ID (Cfg v)) ''final'' (finalMemPath v) (w\<lparr>src := h2\<lparr>tick := Suc (tick h2)\<rparr>\<rparr>) = (Inr n, w3)"
    "sendFile es ed (ID (Cfg v)) (finalStatePath v) w3 = (Inr (), w4)"
    "postJSON es ed (ID (Cfg v)) RFinalize (w4\<lparr>src := (src w4)\<lparr>tick := Suc (tick (src w4))\<rparr>\<rparr>) = (Inr r, w')"
proof -
  have *: "(case reply r of Final fin \<Rightarrow> retE (F fin) | _ \<Rightarrow> failE er) w1 = (Inr x, w2) \<Longrightarrow> w2 = w1" for r F er w1 w2 x
    by (cases "reply r") (auto simp: act_simps)
  show ?thesis
    using assms that unfolding blackout_def Let_def by (auto simp: act_simps Mark_def dest!: *)
qed

lemma blackout_restored:
  assumes ok: "sender_ok V es" and lo: "load_law V ed" and pc: "precopy V a v r w"
    and bo: "blackout es ed a rep rec w = (Inr rep', w')"
  shows "restored V a (ID (Cfg v)) w'"
proof -
  let ?i = "ID (Cfg v)"
  have v: "objs (src w) a = v" using pc by (simp add: precopy_def)
  obtain p b g where p: "host_proc a (src w) p" "length (gmem V p) < 2 ^ 63" and im: "dst_image ?i w b g" "synced V p g"
    using pc by (auto simp: precopy_def)
  obtain h1 h2 w3 n w4 w5 rr where c: "apiE es a Pause ((src w)\<lparr>tick := Suc (tick (src w))\<rparr>) = (Inr (), h1)"
    "apiE es a (CreateSnapshot SnapshotDiff (finalStatePath v) (finalMemPath v) 0) h1 = (Inr (), h2)"
    and s: "sendMemFile es ed ?i ''final'' (finalMemPath v) (w\<lparr>src := h2\<lparr>tick := Suc (tick h2)\<rparr>\<rparr>) = (Inr n, w3)"
    "sendFile es ed ?i (finalStatePath v) w3 = (Inr (), w4)"
    and fz: "postJSON es ed ?i RFinalize (w4\<lparr>src := (src w4)\<lparr>tick := Suc (tick (src w4))\<rparr>\<rparr>) = (Inr rr, w')"
    by (rule blackout_parts [OF bo v])
  have p0: "host_proc a ((src w)\<lparr>tick := Suc (tick (src w))\<rparr>) p" using p(1) by (simp add: host_proc_def)
  obtain p1 where p1: "host_proc a h1 p1" "\<not> running V p1" "evolves V p p1"
    "files h1 = files ((src w)\<lparr>tick := Suc (tick (src w))\<rparr>)" "objs h1 = objs ((src w)\<lparr>tick := Suc (tick (src w))\<rparr>)"
    by (rule pause_proc [OF ok p0 c(1)])
  have l1: "length (gmem V p1) < 2 ^ 63" "files h1 (finalMemPath v) = None"
    using p1(3,4) p(2) pc by (simp_all add: evolves_def precopy_def no_leftover_def)
  obtain p2 f st where p2: "host_proc a h2 p2" "\<not> running V p2" "gmem V p2 = gmem V p1" "gstate V p2 = gstate V p1"
    "length f = length (gmem V p1)" "\<forall>g. synced V p1 g \<longrightarrow> content (shipped (seek es) g f) = gmem V p1"
    "content st = gstate V p1" "files h2 = (files h1)(finalStatePath v \<mapsto> st, finalMemPath v \<mapsto> f)" "objs h2 = objs h1"
    by (rule paused_diff [OF ok p1(1) l1(1) p1(2) l1(2) base_paths_apart(4) c(2)])
  let ?w2 = "w\<lparr>src := h2\<lparr>tick := Suc (tick h2)\<rparr>\<rparr>" and ?g = "shipped (seek es) g f"
  have f: "files (src ?w2) (finalMemPath v) = Some f" "length f < 2 ^ 63" "dst_image ?i ?w2 b g"
    using p2(5,8) l1(1) im(1) by (simp_all add: dst_image_def)
  note s1 = send_image [OF ok f s(1)]
  obtain sf b' where sf: "files (src w3) (finalStatePath v) = Some sf" "quiet (src w3) (src w4)"
    "vms (dst w3) ?i = Some b'" "vstate (objs (dst w3) b') = StateReceiving"
    "quiet ((dst w3)\<lparr>files := (files (dst w3))(finalStatePath (objs (dst w3) b') \<mapsto> map Some (content sf))\<rparr>) (dst w4)"
    by (rule sendFile_ok [OF s(2)])
  have [simp]: "b' = b" using sf(3) s1(1) by (simp add: dst_image_def)
  have st: "sf = st"
    using sf(1) s1(2) p2(8) base_paths_apart(4) [of v] by (simp add: quiet_def)
  let ?w4 = "w4\<lparr>src := (src w4)\<lparr>tick := Suc (tick (src w4))\<rparr>\<rparr>"
  have im4: "dst_image ?i ?w4 b ?g" "files (dst ?w4) (finalStatePath (objs (dst ?w4) b)) = Some (map Some (content st))"
    using s1(1) sf(5) st by (auto simp: dst_image_def quiet_def base_paths_apart(5) base_paths_apart(5) [symmetric])
  have cont: "content ?g = gmem V p2"
    using p2(3,6) synced_evolves [OF im(2) p1(3)] by simp
  have "host_proc a (src w') p2"
  proof -
    have "quiet h2 (src w3)" using s1(2) by (simp add: quiet_def)
    moreover have "quiet (src w4) (src w')"
      using finalize_ok [OF lo fz im4] by (simp add: quiet_def)
    ultimately show ?thesis
      using p2(1) sf(2) by (simp add: host_proc_def quiet_def)
  qed
  moreover have "content (map Some (content st)) = gstate V p2"
    using p2(4,7) by (simp add: content_def comp_def)
  ultimately show ?thesis
    using finalize_ok [OF lo fz im4] cont p2(2) unfolding restored_def by metis
qed

section \<open>Fidelity of a migration\<close>

lemma quiet_setLevel_snd: "quiet h (snd (setLevelE e v l h))"
  using quiet_setLevel [of e v l h] by (cases "setLevelE e v l h") auto

lemma restored_quiet: "restored V a i w \<Longrightarrow> quiet (src w) h \<Longrightarrow> restored V a i (w\<lparr>src := h\<rparr>)"
  unfolding restored_def by (auto simp: host_proc_quiet)

lemma migrateInner_precopy:
  assumes ok: "sender_ok V es"
    and base: "base_ok V a (src w)" and nl: "no_leftover (objs (src w) a) 1 (files (src w))"
    and len: "\<And>p. host_proc a (src w) p \<Longrightarrow> length (gmem V p) < 2 ^ 63"
    and mi: "migrateInner es ed a tgt rec w = (Inr rep, w')"
  obtains v r w1 rep0 rec0 w2 l where "precopy V a v r w1" "blackout es ed a rep0 rec0 w1 = (Inr rep, w2)"
    "src w' = snd (setLevelE es l 0 (src w2))" "vdir v = vdir (objs (src w) a)"
    "ID (Cfg v) = ID (Cfg (objs (src w) a))" "dst w' = dst w2"
proof -
  let ?v0 = "objs (src w) a" let ?i = "ID (Cfg ?v0)"
  obtain r w1 rec1 rec2 h2 n w3 rec3 st w4 h5 w6 rep0 budget k st0 where
    prep: "postJSON es ed ?i (RPrepare (Cfg ?v0)) w = (Inr r, w1)"
    and rs: "resync es a rec1 ((src w1)\<lparr>tick := Suc (tick (src w1))\<rparr>) = (Inr rec2, h2)"
    and bs: "sendMemFile es ed (ID (Cfg (objs h2 a))) ''base'' (baseMem (objs h2 a)) (w1\<lparr>src := h2\<rparr>) = (Inr n, w3)"
    and lp: "rounds_loop es ed a budget k 1 st0 (w3\<lparr>src := (src w3)\<lparr>tick := Suc (Suc (tick (src w3)))\<rparr>\<rparr>) = (Inr st, w4)"
    and sl: "setLevelE es (ID (Cfg (objs h2 a))) 0 (src w4) = (Inr (), h5)"
    and bo: "blackout es ed a rep0 rec3 (w4\<lparr>src := h5\<rparr>) = (Inr rep, w6)"
    and w': "w' = snd (onSrc (setLevelE es (ID (Cfg (objs h2 a))) 0) w6)"
    using mi unfolding migrateInner_def by (auto simp: act_simps Mark_def)
  obtain b where im1: "dst_image ?i w1 b []" and q1: "quiet (src w) (src w1)"
    by (rule prepare_image [OF prep])
  let ?h1 = "(src w1)\<lparr>tick := Suc (tick (src w1))\<rparr>"
  have q01: "quiet (src w) ?h1" using q1 by (simp add: quiet_def)
  obtain p where p: "host_proc a ?h1 p" "length (gmem V p) < 2 ^ 63"
      "needsResync (objs ?h1 a) \<or> (\<exists>f. files ?h1 (baseMem (objs ?h1 a)) = Some f \<and> synced V p f)"
    using base len host_proc_quiet [OF q01] q01 unfolding base_ok_def by (auto simp: quiet_def)
  have nl1: "no_leftover (objs ?h1 a) 1 (files ?h1)" using nl q01 by (simp add: quiet_def)
  obtain p' f where p': "host_proc a h2 p'" "files h2 (baseMem (objs h2 a)) = Some f" "synced V p' f"
    "length (gmem V p') = length (gmem V p)" "no_leftover (objs h2 a) 1 (files h2)" "Cfg (objs h2 a) = Cfg (objs ?h1 a)"
    by (rule resync_ok [OF ok p(1,3) nl1 rs])
  have id: "ID (Cfg (objs h2 a)) = ?i" using p'(6) q01 by (simp add: quiet_def)
  let ?w2 = "w1\<lparr>src := h2\<rparr>"
  have lf: "files (src ?w2) (baseMem (objs h2 a)) = Some f" "length f < 2 ^ 63" "dst_image (ID (Cfg (objs h2 a))) ?w2 b []"
    using p'(2-4) p(2) im1 id by (simp_all add: synced_def dst_image_def)
  note sent = send_image [OF ok lf bs]
  have "synced V p' (shipped (seek es) [] f)"
    by (rule ship.base_synced [OF sender_seekable [OF ok lf(2)] p'(3)])
  then have "precopy V a (objs h2 a) 1 w3"
    using sent(1,2) p' p(2) host_proc_quiet [OF sent(2)] unfolding precopy_def
    by (intro conjI exI [of _ p'] exI [of _ b] exI [of _ "shipped (seek es) [] f"]) (auto simp: quiet_def)
  then have "precopy V a (objs h2 a) 1 (w3\<lparr>src := (src w3)\<lparr>tick := Suc (Suc (tick (src w3)))\<rparr>\<rparr>)"
    by (rule precopy_quiet) simp
  then obtain r' where "precopy V a (objs h2 a) r' w4"
    using rounds_loop_precopy [OF ok _ _ lp] by auto
  then have "precopy V a (objs h2 a) r' (w4\<lparr>src := h5\<rparr>)"
    by (rule precopy_quiet) (rule quiet_setLevel [OF sl])
  moreover have "vdir (objs h2 a) = vdir ?v0"
  proof -
    have "src_frame a ?h1 h2" using keepsD [OF keeps_resync _ rs, of ?h1] by simp
    then show ?thesis using q01 by (auto simp: src_frame_def quiet_def)
  qed
  moreover have "src w' = snd (setLevelE es (ID (Cfg (objs h2 a))) 0 (src w6))" "dst w' = dst w6"
    by (simp_all add: w' onSrc_def split: prod.split)
  ultimately show ?thesis
    using that bo id by blast
qed

lemma migrateInner_restored:
  assumes ok: "sender_ok V es" and lo: "load_law V ed"
    and base: "base_ok V a (src w)" and nl: "no_leftover (objs (src w) a) 1 (files (src w))"
    and len: "\<And>p. host_proc a (src w) p \<Longrightarrow> length (gmem V p) < 2 ^ 63"
    and mi: "migrateInner es ed a tgt rec w = (Inr rep, w')"
  shows "restored V a (ID (Cfg (objs (src w) a))) w'"
proof -
  obtain v r w1 rep0 rec0 w2 l where pc: "precopy V a v r w1" and bo: "blackout es ed a rep0 rec0 w1 = (Inr rep, w2)"
    and w': "src w' = snd (setLevelE es l 0 (src w2))" "vdir v = vdir (objs (src w) a)"
    "ID (Cfg v) = ID (Cfg (objs (src w) a))" "dst w' = dst w2"
    by (rule migrateInner_precopy [OF ok base nl len mi])
  have "restored V a (ID (Cfg v)) w2" by (rule blackout_restored [OF ok lo pc bo])
  then have "restored V a (ID (Cfg v)) (w2\<lparr>src := src w'\<rparr>)"
    unfolding w'(1) by (rule restored_quiet) (rule quiet_setLevel_snd)
  moreover have "w2\<lparr>src := src w'\<rparr> = w'" using w'(4) by (cases w2; cases w') simp
  ultimately show ?thesis using w'(3) by simp
qed

lemma restored_base_ok:
  assumes "restored V a i w" and "vms (dst w) i = Some b"
  shows "base_ok V b (dst w)"
proof -
  obtain p g p' p0 where r: "host_proc b (dst w) p'" "evolves V p0 p'" "gmem V p0 = gmem V p" "gdirty V p0 = {}"
    "files (dst w) (baseMem (objs (dst w) b)) = Some g" "content g = gmem V p"
    using assms unfolding restored_def by auto
  have "length g = length (gmem V p0)" using r(3,6) by (metis length_content)
  then have "synced V p0 g" using r(3,4,6) by (simp add: synced_def)
  then have "synced V p' g" by (rule synced_evolves [OF _ r(2)])
  with r(1,5) show ?thesis unfolding base_ok_def by blast
qed

end
