(* ===== verification/Fc_Sample.thy ===== *)
theory Fc_Sample
  imports Image_Channel Agent_Receive
begin

text \<open>
  A small executable Firecracker process that satisfies the contract of \<open>Image_Channel\<close>: it
  shows that the contract can hold, and the witnesses of the properties run on it. Its guest
  writes one byte whenever it is observed running.
\<close>

record sproc =
  s_mem :: "byte list"
  s_dirty :: "nat list"
  s_blob :: "byte list"
  s_run :: bool

definition s_view :: "sproc fc_view" where
  "s_view = \<lparr>gmem = s_mem, gdirty = \<lambda>p. set (s_dirty p), gstate = s_blob, running = s_run\<rparr>"

definition s_write :: "nat \<Rightarrow> sproc \<Rightarrow> sproc" where
  "s_write t p = (if s_run p \<and> s_mem p \<noteq> []
     then p\<lparr>s_mem := (s_mem p)[t mod length (s_mem p) := of_nat t], s_dirty := (t mod length (s_mem p)) # s_dirty p\<rparr>
     else p)"

definition s_diff :: "fs \<Rightarrow> string \<Rightarrow> sproc \<Rightarrow> sfile" where
  "s_diff fs mp p = map (\<lambda>i. if i \<in> set (s_dirty p) then Some (s_mem p ! i) else stale fs mp (length (s_mem p)) i)
     [0..<length (s_mem p)]"

definition field :: "string \<Rightarrow> json option \<Rightarrow> string" where
  "field k b = (case b of
     Some (JObj kvs) \<Rightarrow> (case map_of kvs k of Some (JStr s) \<Rightarrow> s
        | Some (JObj [(_, JStr s), _]) \<Rightarrow> s | _ \<Rightarrow> '''')
   | _ \<Rightarrow> '''')"

definition s_create :: "json option \<Rightarrow> sproc \<Rightarrow> fs \<Rightarrow> sproc \<times> fs" where
  "s_create b p fs =
     (let mp = field ''mem_file_path'' b; sp = field ''snapshot_path'' b; ty = field ''snapshot_type'' b
      in if ty = ''Full'' then (p\<lparr>s_dirty := []\<rparr>, fs(sp \<mapsto> map Some (s_blob p), mp \<mapsto> map Some (s_mem p)))
         else if ty = ''Diff'' then (p\<lparr>s_dirty := []\<rparr>, fs(sp \<mapsto> map Some (s_blob p), mp \<mapsto> s_diff fs mp p))
         else (p\<lparr>s_dirty := []\<rparr>, fs(mp \<mapsto> s_diff fs mp p)))"

definition s_ok :: http_result where
  "s_ok = Answer 204 '''' None"

definition s_fc :: "(sproc \<times> fs) transport" where
  "s_fc req w =
     (case w of (p, fs) \<Rightarrow>
        if path req = ''http://localhost/vm'' then (s_ok, p\<lparr>s_run := (field ''state'' (body req) = ''Resumed'')\<rparr>, fs)
        else if path req = ''http://localhost/snapshot/create'' then (s_ok, s_create (body req) p fs)
        else if path req = ''http://localhost/snapshot/load'' then
          (case (fs (field ''snapshot_path'' (body req)), fs (field ''mem_backend'' (body req))) of
             (Some s, Some f) \<Rightarrow> (s_ok, \<lparr>s_mem = content f, s_dirty = [], s_blob = content s, s_run = True\<rparr>, fs)
           | _ \<Rightarrow> (Answer 400 ''no file'' None, p, fs))
        else (s_ok, p\<lparr>s_run := True\<rparr>, fs))"

definition s_env :: "sproc env" where
  "s_env = \<lparr>fc = \<lambda>_. s_fc, guest = s_write, spawned = \<lambda>_. \<lparr>s_mem = [1, 2, 3, 4], s_dirty = [], s_blob = [9], s_run = False\<rparr>,
     oserr = \<lambda>_. None, clk = int, seek = lseek_of, tasks = \<lambda>_ _. Inr [], api_polls = \<lambda>_ _. True, api_waits = \<lambda>_. 0,
     guest_polls = \<lambda>_ _. True, guest_waits = \<lambda>_. 1, ctx_done = \<lambda>_ _. None,
     netif = \<lambda>_. \<lparr>InterfaceByName = \<lambda>_. Inr 1, Socket = None, Sendto = \<lambda>_. None, mapped4 = \<lambda>_. None\<rparr>,
     peer = \<lambda>_. Delivered, sent_seen = \<lambda>_. True\<rparr>"

section \<open>It satisfies the contract\<close>

lemma s_view_sel [simp]:
  "gmem s_view = s_mem" "gdirty s_view p = set (s_dirty p)" "gstate s_view = s_blob" "running s_view = s_run"
  by (simp_all add: s_view_def)

lemma s_env_fc [simp]: "fc s_env t = s_fc" "guest s_env = s_write" "seek s_env = lseek_of"
  by (simp_all add: s_env_def)

lemma s_fc_Pause: "perform s_fc Pause (p, fs) = (Inr (), p\<lparr>s_run := False\<rparr>, fs)"
  by (simp add: perform_def Pause_def api_do_def s_fc_def s_ok_def field_def)

lemma s_fc_Resume: "perform s_fc Resume (p, fs) = (Inr (), p\<lparr>s_run := True\<rparr>, fs)"
  by (simp add: perform_def Resume_def api_do_def s_fc_def s_ok_def field_def)

lemma s_fc_Create:
  "perform s_fc (CreateSnapshot ty sp mp n) (p, fs) = (Inr (), p\<lparr>s_dirty := []\<rparr>,
     (case ty of
        SnapshotFull \<Rightarrow> fs(sp \<mapsto> map Some (s_blob p), mp \<mapsto> map Some (s_mem p))
      | SnapshotDiff \<Rightarrow> fs(sp \<mapsto> map Some (s_blob p), mp \<mapsto> s_diff fs mp p)
      | SnapshotDiffLive \<Rightarrow> fs(mp \<mapsto> s_diff fs mp p)))"
  by (cases ty) (simp_all add: perform_def CreateSnapshot_def api_do_def s_fc_def s_ok_def field_def s_create_def)

lemma s_fc_Load:
  "perform s_fc (LoadSnapshot sp mp td re) (p, fs) =
     (case (fs sp, fs mp) of
        (Some s, Some f) \<Rightarrow> (Inr (), \<lparr>s_mem = content f, s_dirty = [], s_blob = content s, s_run = True\<rparr>, fs)
      | _ \<Rightarrow> (Inl (ApiError 400 ''no file''), p, fs))"
  by (simp add: perform_def LoadSnapshot_def api_do_def s_fc_def s_ok_def field_def fault_text_def split: option.split)

lemmas s_fc_calls = s_fc_Pause s_fc_Resume s_fc_Create s_fc_Load

lemma content_map_Some [simp]: "content (map Some bs) = bs"
  by (simp add: content_def comp_def)

lemma s_write_law: "guest_law s_view s_env"
  by (auto simp: guest_law_def s_write_def evolves_def nth_list_update)

lemma s_diff_nth:
  "i < length (s_mem p) \<Longrightarrow> s_diff fs mp p ! i =
     (if i \<in> set (s_dirty p) then Some (s_mem p ! i) else stale fs mp (length (s_mem p)) i)"
  by (simp add: s_diff_def)

lemma length_s_diff [simp]: "length (s_diff fs mp p) = length (s_mem p)"
  by (simp add: s_diff_def)

lemma s_diff_law: "diff_law s_view s_env"
  unfolding diff_law_def s_view_sel s_env_fc s_fc_calls SnapshotType.case prod.inject
proof (intro allI impI conjI, goal_cases)
  case (4 t p fs sp mp p' fs')
  then show ?case
    by (intro exI [of _ "s_diff fs mp p"] exI [of _ "map Some (s_blob p)"] exI [of _ "set (s_dirty p)"])
      (auto simp: s_diff_nth)
qed auto

lemma s_live_law: "live_law s_view s_env"
  unfolding live_law_def s_view_sel s_env_fc s_fc_calls SnapshotType.case prod.inject
  by (intro allI impI conjI, auto intro!: exI [of _ "s_diff fs mp p" for fs mp p] exI [of _ "set (s_dirty p)" for p]
      simp: s_diff_nth)

lemma s_contract: "fc_contract s_view s_env"
  unfolding fc_contract_def
proof (intro conjI s_write_law s_diff_law s_live_law)
  show "pause_law s_view s_env" "resume_law s_view s_env"
    by (simp_all add: pause_law_def resume_law_def s_fc_calls evolves_def)
  show "full_law s_view s_env"
    by (auto simp: full_law_def s_fc_calls) (metis content_map_Some)
  show "load_law s_view s_env"
    by (auto simp: load_law_def s_fc_calls split: option.splits intro!: exI evolves_refl)
qed

section \<open>Two sample hosts\<close>

definition s_config :: VMConfig where
  "s_config = \<lparr>ID = ''vm0'', Vcpus = 2, MemMiB = 256, Kernel = ''k'', Rootfs = ''r'', TapDev = ''tap0'',
     GuestMAC = ''06:00:ac:1e:00:32'', GuestCIDR = ''172.30.0.50/24'', GuestGW = ''172.30.0.1'', DirtyMBps = 0, ScribBufMB = 64\<rparr>"

definition s_cfg :: "bool \<Rightarrow> Config" where
  "s_cfg live = \<lparr>HostName = ''host-a'', Listen = '':7000'', DataDir = ''/run'', FirecrackerBin = ''fc'', DefKernel = ''k'',
     DefRootfs = ''r'', GARPIface = ''eth0'', LiveRounds = live\<rparr>"

definition s_vm :: VM where
  "s_vm = \<lparr>Cfg = s_config, vstate = StateRunning, vdir = ''/run/vm0'', proc = Some 0, api = Some 0,
     baseMem = ''/run/vm0/base.mem'', needsResync = False\<rparr>"

definition s_idle :: "bool \<Rightarrow> sproc host" where
  "s_idle live = \<lparr>cfg = s_cfg live, vms = Map.empty, objs = (\<lambda>_. s_vm), nextobj = 1, procs = Map.empty, nextpid = 1,
     files = Map.empty, throttle = NewThrottler, hub = newEventHub ''host-b'', uplink = [], tick = 0\<rparr>"

definition s_busy :: "bool \<Rightarrow> sproc host" where
  "s_busy live = (s_idle live)\<lparr>vms := [''vm0'' \<mapsto> 0], procs := [0 \<mapsto> \<lparr>s_mem = [1, 2], s_dirty = [], s_blob = [9], s_run = True\<rparr>],
     files := [''/run/vm0/base.mem'' \<mapsto> [Some 1, Some 2]], throttle := Register ''vm0'' 0 NewThrottler, hub := newEventHub ''host-a''\<rparr>"

end
