(* ===== verification/Migrate_Outcome.thy ===== *)
theory Migrate_Outcome
  imports Migrate_Frame Fc_Sample
begin

text \<open>
  The two outcomes of \<open>migrate\<close> on the source host: a failed migration is rolled back, a
  successful one ends the local process; a VM that is not running is refused.
\<close>

lemma migrate_enter:
  assumes "vstate (objs (src w) a) = StateRunning" and "migrate es ed a tgt w = (r, w')"
  obtains rec w1 res w2 where
    "quiet ((src w)\<lparr>objs := (objs (src w))(a := (objs (src w) a)\<lparr>vstate := StateMigrating\<rparr>)\<rparr>) (src w1)"
    "dst w1 = dst w" "migrateInner es ed a tgt rec w1 = (res, w2)"
    "(case res of
         Inl err \<Rightarrow> rollback es ed a err
       | Inr rep \<Rightarrow>
           thenE (onSrc (kill a))
          (thenE (onSrc (setState a StateMigrated))
          (thenE (onSrc (publishE es ''migrate.done'' (''%s blackout=%.2fms'', [AStr (ID (Cfg (objs (src w) a))), AInt (BlackoutNS rep)])))
                 (retE rep)))) w2 = (r, w')"
proof -
  define m where "m = (\<lambda>rec. bindE (tryE (migrateInner es ed a tgt rec)) (\<lambda>res.
       case res of
         Inl err \<Rightarrow> rollback es ed a err
       | Inr rep \<Rightarrow>
           thenE (onSrc (kill a))
          (thenE (onSrc (setState a StateMigrated))
          (thenE (onSrc (publishE es ''migrate.done'' (''%s blackout=%.2fms'', [AStr (ID (Cfg (objs (src w) a))), AInt (BlackoutNS rep)])))
                 (retE rep)))))"
  have mig: "migrate es ed a tgt w = thenE (onSrc (setState a StateMigrating))
      (bindE (onSrc (markE es ''migrate.start'' \<lparr>events = []\<rparr>)) (\<lambda>(_, rec).
       thenE (onSrc (publishE es ''migrate.start'' (''%s'', [AStr (ID (Cfg (objs (src w) a)))]))) (m rec))) w"
    using assms(1) by (simp add: migrate_def m_def bindE_def onSrc_def vmE_def askE_def)
  let ?h1 = "(src w)\<lparr>objs := (objs (src w))(a := (objs (src w) a)\<lparr>vstate := StateMigrating\<rparr>)\<rparr>"
  obtain rec h2 where p: "publishE es ''migrate.start'' (''%s'', [AStr (ID (Cfg (objs (src w) a)))])
      (?h1\<lparr>tick := Suc (tick ?h1)\<rparr>) = (Inr (), h2)"
    and k: "m rec (w\<lparr>src := h2\<rparr>) = (r, w')"
  proof -
    obtain q h2 where "publishE es ''migrate.start'' (''%s'', [AStr (ID (Cfg (objs (src w) a)))])
      (?h1\<lparr>tick := Suc (tick ?h1)\<rparr>) = (q, h2)" by fastforce
    moreover from quiet_publish [OF this] have "q = Inr ()" by simp
    ultimately show ?thesis
      using that assms(2) unfolding mig
      by (simp add: bindE_def onSrc_def setState_def setVM_def modE_def markE_def nowE_def tickE_def retE_def Mark_def)
  qed
  obtain res w2 where "migrateInner es ed a tgt rec (w\<lparr>src := h2\<rparr>) = (res, w2)" by fastforce
  moreover have "quiet ?h1 h2"
    using quiet_publish [OF p] by (simp add: quiet_def)
  ultimately show ?thesis
    using that [of "w\<lparr>src := h2\<rparr>" rec res w2] k by (simp add: m_def bindE_def tryE_def)
qed

lemma keeps_quiet_tick: "keeps (quiet h) tickE"
  by (rule keepsI) (auto simp: act_simps quiet_def)

lemma rollback_run:
  assumes "rollback es ed a err w = (r, w')"
  obtains h1 rr h2 where "quiet (src w) h1"
    "apiE es a Resume (h1\<lparr>objs := (objs h1)(a := (objs h1 a)\<lparr>needsResync := True\<rparr>)\<rparr>) = (rr, h2)"
    "src w' = h2\<lparr>objs := (objs h2)(a := (objs h2 a)\<lparr>vstate := (case rr of Inr _ \<Rightarrow> StateRunning | Inl _ \<Rightarrow> StateDead)\<rparr>)\<rparr>"
    "\<exists>e. r = Inl e"
proof -
  obtain q h0 where p: "publishE es ''migrate.abort'' (''%s: %v'', [AStr (ID (Cfg (objs (src w) a))), AErr err]) (src w) = (q, h0)"
    by fastforce
  note qp = quiet_publish [OF p]
  obtain pr w1 where pj: "postJSON es ed (ID (Cfg (objs (src w) a))) RAbort (w\<lparr>src := h0\<rparr>) = (pr, w1)" by fastforce
  have q1: "quiet h0 (src w1)"
  proof -
    have "keeps (\<lambda>w. quiet h0 (src w)) (postJSON es ed i RAbort)" for i
      unfolding postJSON_def peerDo_def
      by (auto intro!: triple_rules keeps_quiet_tick split: net_outcome.split)
    from keepsD [OF this _ pj] show ?thesis by simp
  qed
  obtain rr h2 where rs: "apiE es a Resume ((src w1)\<lparr>objs := (objs (src w1))(a := (objs (src w1) a)\<lparr>needsResync := True\<rparr>)\<rparr>) = (rr, h2)"
    by fastforce
  have "src w' = h2\<lparr>objs := (objs h2)(a := (objs h2 a)\<lparr>vstate := (case rr of Inr _ \<Rightarrow> StateRunning | Inl _ \<Rightarrow> StateDead)\<rparr>)\<rparr> \<and>
      (\<exists>e. r = Inl e)"
    using assms p qp pj rs unfolding rollback_def
    by (cases rr) (auto simp: bindE_def onSrc_def vmE_def askE_def tryE_def setVM_def modE_def setState_def failE_def)
  moreover have "quiet (src w) (src w1)"
    using qp q1 by (blast intro: quiet_trans)
  ultimately show ?thesis
    using that rs by blast
qed

text \<open>
  C2: Whatever goes wrong in a migration, at whatever step and whatever the target and the
  network did, the source is rolled back: its registry, configuration and other VMs are as
  before, no local process has been killed, the VM is marked for a fresh base, and it is either
  running again, with vCPUs that execute, or, when the process refuses to resume, dead.
\<close>

theorem migrate_failure_rolls_back:
  assumes "migrate es ed a tgt w = (Inl err, w')" and "vstate (objs (src w) a) = StateRunning"
    and "resume_law V es"
  shows "vms (src w') = vms (src w) \<and> cfg (src w') = cfg (src w) \<and>
    (\<forall>b. b \<noteq> a \<longrightarrow> objs (src w') b = objs (src w) b) \<and>
    (\<forall>pid. (procs (src w') pid = None) = (procs (src w) pid = None)) \<and>
    (\<exists>bm st. objs (src w') a = (objs (src w) a)\<lparr>vstate := st, baseMem := bm, needsResync := True\<rparr> \<and>
       (st = StateRunning \<and> (\<exists>pid p. api (objs (src w') a) = Some pid \<and> procs (src w') pid = Some p \<and> running V p) \<or>
        st = StateDead))"
proof -
  obtain rec w1 res w2 where
    q1: "quiet ((src w)\<lparr>objs := (objs (src w))(a := (objs (src w) a)\<lparr>vstate := StateMigrating\<rparr>)\<rparr>) (src w1)"
    and "dst w1 = dst w" and inner: "migrateInner es ed a tgt rec w1 = (res, w2)"
    and k: "(case res of
         Inl err \<Rightarrow> rollback es ed a err
       | Inr rep \<Rightarrow>
           thenE (onSrc (kill a))
          (thenE (onSrc (setState a StateMigrated))
          (thenE (onSrc (publishE es ''migrate.done'' (''%s blackout=%.2fms'', [AStr (ID (Cfg (objs (src w) a))), AInt (BlackoutNS rep)])))
                 (retE rep)))) w2 = (Inl err, w')"
    by (rule migrate_enter [OF assms(2,1)])
  obtain er where res: "res = Inl er"
    using k by (cases res) (auto simp: act_simps dest!: quiet_publish)
  have fr: "src_frame a (src w1) (src w2)"
    using keepsD [OF keeps_migrateInner _ inner, of "src w1"] by simp
  have "rollback es ed a er w2 = (Inl err, w')" using k res by simp
  then obtain h1 rr h2 where q2: "quiet (src w2) h1"
    and rs: "apiE es a Resume (h1\<lparr>objs := (objs h1)(a := (objs h1 a)\<lparr>needsResync := True\<rparr>)\<rparr>) = (rr, h2)"
    and w': "src w' = h2\<lparr>objs := (objs h2)(a := (objs h2 a)\<lparr>vstate := (case rr of Inr _ \<Rightarrow> StateRunning | Inl _ \<Rightarrow> StateDead)\<rparr>)\<rparr>"
    by (rule rollback_run)
  have af: "api_frame a (h1\<lparr>objs := (objs h1)(a := (objs h1 a)\<lparr>needsResync := True\<rparr>)\<rparr>) h2"
    by (rule apiE_frame [OF rs])
  have frame: "vms (src w') = vms (src w)" "cfg (src w') = cfg (src w)"
    "\<forall>b. b \<noteq> a \<longrightarrow> objs (src w') b = objs (src w) b"
    "\<forall>pid. (procs (src w') pid = None) = (procs (src w) pid = None)"
    using q1 fr q2 af by (simp_all add: w' quiet_def src_frame_def api_frame_def)
  obtain bm nr where "objs (src w2) a = (objs (src w1) a)\<lparr>baseMem := bm, needsResync := nr\<rparr>"
    using fr by (auto simp: src_frame_def)
  then have ob: "objs (src w') a = (objs (src w) a)\<lparr>vstate := (case rr of Inr _ \<Rightarrow> StateRunning | Inl _ \<Rightarrow> StateDead),
      baseMem := bm, needsResync := True\<rparr>"
    using q1 q2 af by (simp add: w' quiet_def api_frame_def)
  have "\<exists>pid p. api (objs (src w') a) = Some pid \<and> procs (src w') pid = Some p \<and> running V p" if rr: "rr = Inr x" for x
  proof -
    let ?h = "h1\<lparr>objs := (objs h1)(a := (objs h1 a)\<lparr>needsResync := True\<rparr>)\<rparr>"
    obtain pid p p' fs' where "api (objs ?h a) = Some pid" "procs ?h pid = Some p"
      and pf: "perform (fc es (tick ?h)) Resume (guest es (tick ?h) p, files ?h) = (Inr (), p', fs')"
      and "h2 = ?h\<lparr>tick := Suc (tick ?h), procs := (procs ?h)(pid \<mapsto> p'), files := fs'\<rparr>"
      by (rule apiE_ok [OF rs [unfolded rr]])
    moreover have "running V p'"
      using assms(3) pf unfolding resume_law_def by blast
    ultimately show ?thesis by (simp add: w')
  qed
  then show ?thesis
    using frame ob by (cases rr) auto
qed

end
