(* ===== verification/Migrate_Progress.thy ===== *)
theory Migrate_Progress
  imports Migrate_Fidelity Migrate_Outcome
begin

text \<open>
  Progress: when nothing outside fails - no file operation, no request to the peer or to the
  Firecracker process - a migration ends with success, whatever the guest writes meanwhile.
  The rounds are bounded by the code, so this needs no assumption on the dirty rate.
\<close>

section \<open>Actions that succeed\<close>

definition succ :: "('s, 'a) act \<Rightarrow> 's \<Rightarrow> bool" where
  "succ m s \<longleftrightarrow> (\<exists>x s'. m s = (Inr x, s'))"

lemma succE:
  assumes "succ m s"
  obtains x s' where "m s = (Inr x, s')"
  using assms by (auto simp: succ_def)

lemma succ_bindI: "m s = (Inr x, s1) \<Longrightarrow> succ (f x) s1 \<Longrightarrow> succ (bindE m f) s"
  by (auto simp: succ_def bindE_def)

lemma succ_simps [simp]:
  "succ (retE x) s" "succ (askE g) s" "succ (modE h) s" "succ (tryE m) s"
  "succ (wrapE msg args m) s = succ m s" "succ (onSrc n) w = succ n (src w)" "succ (deferE d m) s = succ m s"
  by (auto simp: succ_def retE_def askE_def modE_def tryE_def act_simps split: prod.splits)

lemma succ_bind: "succ (bindE m f) s \<longleftrightarrow> (\<exists>x s1. m s = (Inr x, s1) \<and> succ (f x) s1)"
  by (auto simp: succ_def act_simps)

text \<open>An environment in which nothing fails.\<close>

definition happy :: "'p env \<Rightarrow> bool" where
  "happy e \<longleftrightarrow> (\<forall>t. oserr e t = None \<and> peer e t = Delivered \<and> api_polls e t 0) \<and>
     (\<forall>t p fs. fst (perform (fc e t) Pause (p, fs)) = Inr ()) \<and>
     (\<forall>t p fs. fst (perform (fc e t) Resume (p, fs)) = Inr ()) \<and>
     (\<forall>t p fs ty sp mp n. fst (perform (fc e t) (CreateSnapshot ty sp mp n) (p, fs)) = Inr ()) \<and>
     (\<forall>t p fs sp mp. fs sp \<noteq> None \<longrightarrow> fs mp \<noteq> None \<longrightarrow>
        fst (perform (fc e t) (LoadSnapshot sp mp True True) (p, fs)) = Inr ())"

lemma happyD:
  assumes "happy e"
  shows "oserr e t = None" "peer e t = Delivered" "api_polls e t 0"
    "fst (perform (fc e t) Pause (p, fs)) = Inr ()" "fst (perform (fc e t) Resume (p, fs)) = Inr ()"
    "fst (perform (fc e t) (CreateSnapshot ty sp mp n) (p, fs)) = Inr ()"
  using assms by (simp_all add: happy_def)

lemma succ_api:
  assumes "host_proc a h p" and "\<And>t q. fst (perform (fc e t) c (q, files h)) = Inr ()"
  shows "succ (apiE e a c) h"
proof -
  obtain pid where "api (objs h a) = Some pid" "procs h pid = Some p"
    using assms(1) by (auto simp: host_proc_def)
  moreover obtain p' fs' where "perform (fc e (tick h)) c (guest e (tick h) p, files h) = (Inr (), p', fs')"
    using assms(2) by (metis prod.collapse)
  ultimately show ?thesis
    by (simp add: succ_def apiE_def bindE_def tickE_def)
qed

lemma api_succE:
  assumes "host_proc a h p" and "\<And>t q. fst (perform (fc e t) c (q, files h)) = Inr ()"
  obtains h' where "apiE e a c h = (Inr (), h')"
  using succ_api [OF assms] by (auto simp: succ_def)

text \<open>Actions that cannot fail at all.\<close>

definition never_fails :: "('s, 'a) act \<Rightarrow> bool" where
  "never_fails m \<longleftrightarrow> (\<forall>s. succ m s)"

named_theorems nf_rules \<open>actions that never fail\<close>

lemma never_failsD: "never_fails m \<Longrightarrow> succ m s"
  by (simp add: never_fails_def)

lemma nf_bind [nf_rules]: "never_fails m \<Longrightarrow> (\<And>x. never_fails (f x)) \<Longrightarrow> never_fails (bindE m f)"
  unfolding never_fails_def by (metis succE succ_bindI)

lemma nf_basic [nf_rules]: "never_fails (retE x)" "never_fails (askE g)" "never_fails (modE h)" "never_fails (tryE m)"
  "never_fails tickE"
  by (simp_all add: never_fails_def succ_def [of tickE] tickE_def)

lemma nf_effects [nf_rules]: "never_fails (nowE e)" "never_fails (publishE e k msg)" "never_fails (markE e n rec)"
  "never_fails (vmE a)" "never_fails (ignoreE m)" "never_fails (setVM a f)" "never_fails (setState a s)" "never_fails (kill a)"
  unfolding nowE_def publishE_def markE_def vmE_def ignoreE_def setVM_def setState_def kill_def
  by (auto intro!: nf_rules)

lemma nf_engage [nf_rules]: "never_fails (engage e v l)"
  unfolding engage_def by (auto intro!: nf_rules split: sum.split)

lemma nf_end_round: "never_fails (end_round e v budget r d t1 t2 st)"
  unfolding end_round_def after_full_round_def after_round_def Let_def by (auto intro!: nf_rules)

lemma openE_succ: "happy e \<Longrightarrow> files h p = Some f \<Longrightarrow> openE e p h = (Inr f, h\<lparr>tick := Suc (tick h)\<rparr>)"
  by (simp add: openE_ok happyD)

lemma walk_succ: "sender_ok V e \<Longrightarrow> length f < 2 ^ 63 \<Longrightarrow>
   succ (case WalkExtents (seek e f) f of Inl er \<Rightarrow> failE er | Inr extents \<Rightarrow> retE (TotalBytes extents)) h"
  using WalkExtents_correct [of "seek e f" f] by (auto simp: sender_ok_def)

lemma captureRound_succ:
  assumes ok: "sender_ok V e" "happy e" and p: "host_proc a h p" "length (gmem V p) < 2 ^ 63" and mp: "files h mp = None"
  shows "succ (captureRound e a mp budget) h"
proof (cases "LiveRounds (cfg h)")
  case True
  obtain h1 where c: "apiE e a (CreateSnapshot SnapshotDiffLive (mp @ ''.unused-state'') mp budget) h = (Inr (), h1)"
    by (rule api_succE [OF p(1) happyD(6) [OF ok(2)]])
  obtain p' f where f: "host_proc a h1 p'" "round_file V e p p' f" "files h1 = (files h)(mp \<mapsto> f)" "objs h1 = objs h"
    by (rule live_round [OF ok(1) p mp c])
  then have "openE e mp h1 = (Inr f, h1\<lparr>tick := Suc (tick h1)\<rparr>)" "length f < 2 ^ 63"
    using openE_succ [OF ok(2)] p(2) by (simp_all add: round_file_def)
  then show ?thesis
    using True c walk_succ [OF ok(1)] by (simp add: captureRound_def succ_bind act_simps)
next
  case False
  obtain h1 where c1: "apiE e a Pause h = (Inr (), h1)"
    by (rule api_succE [OF p(1) happyD(4) [OF ok(2)]])
  obtain p1 where p1: "host_proc a h1 p1" "\<not> running V p1" "evolves V p p1" "files h1 = files h" "objs h1 = objs h"
    by (rule pause_proc [OF ok(1) p(1) c1])
  obtain h2 where c2: "apiE e a (CreateSnapshot SnapshotDiff (mp @ ''.state'') mp 0) h1 = (Inr (), h2)"
    by (rule api_succE [OF p1(1) happyD(6) [OF ok(2)]])
  obtain p2 where p2: "host_proc a h2 p2"
    by (rule api_proc [OF c2 p1(1)])
  obtain h3 where c3: "apiE e a Resume h2 = (Inr (), h3)"
    by (rule api_succE [OF p2 happyD(5) [OF ok(2)]])
  obtain p' f st where f: "host_proc a h3 p'" "round_file V e p p' f" "files h3 = (files h)(mp @ ''.state'' \<mapsto> st, mp \<mapsto> f)" "objs h3 = objs h"
    by (rule stock_round [OF ok(1) p mp _ c1 c2 c3]) simp
  obtain h4 where h4: "ignoreE (removeE e (mp @ ''.state'')) h3 = (Inr (), h4)" "files h4 mp = Some f"
    using f(3) by (auto simp: act_simps removeE_def happyD(1) [OF ok(2)] bindE_def osE_def tickE_def retE_def modE_def)
  then have "openE e mp h4 = (Inr f, h4\<lparr>tick := Suc (tick h4)\<rparr>)" "length f < 2 ^ 63"
    using openE_succ [OF ok(2)] p(2) f(2) by (simp_all add: round_file_def)
  then show ?thesis
    using False c1 c2 c3 h4(1) walk_succ [OF ok(1)]
    by (simp add: captureRound_def succ_bind bindE_def tryE_def askE_def)
qed

section \<open>Transfers\<close>

lemma peerDo_happy:
  "happy es \<Longrightarrow> peerDo es ed i req w =
     onDst (serve ed i req None) (w\<lparr>src := (src w)\<lparr>tick := Suc (tick (src w))\<rparr>\<rparr>)"
  by (simp add: peerDo_def bindE_def onSrc_def tickE_def happyD)

lemma publish_runE:
  obtains h' where "publishE e k msg h = (Inr (), h')"
  using quiet_publish [of e k msg h] by (metis prod.collapse)

lemma sendMemFile_succ:
  assumes ok: "sender_ok V es" and es: "happy es" and ed: "happy ed"
    and f: "files (src w) mp = Some f" "length f < 2 ^ 63" and im: "dst_image i w b g"
  obtains n w' where "sendMemFile es ed i rd mp w = (Inr n, w')"
proof -
  let ?w1 = "w\<lparr>src := (src w)\<lparr>tick := Suc (tick (src w))\<rparr>\<rparr>"
  note st = stream_props [OF sender_seekable [OF ok f(2)]]
  have o: "openE es mp (src w) = (Inr f, (src w)\<lparr>tick := Suc (tick (src w))\<rparr>)"
    by (rule openE_succ [OF es f(1)])
  obtain r h where "handleMem ed i rd (stream (seek es) f) (dst w) = (Inr r, h)" "status r = 200"
  proof -
    let ?h = "(dst w)\<lparr>tick := Suc (tick (dst w)), files := (files (dst w))(recvMemPath (objs (dst w) b) \<mapsto> overlay g f)\<rparr>"
    obtain h' where p: "publishE ed ''receive.mem'' (''%s round=%s bytes=%d'',
        [AStr (ID (Cfg (objs (dst w) b))), AStr rd, AInt (int (card (data_cells f)))]) ?h = (Inr (), h')"
      by (rule publish_runE)
    have "receivingVM i (dst w) = Some b" "openE ed (recvMemPath (objs (dst w) b)) (dst w) = (Inr g, (dst w)\<lparr>tick := Suc (tick (dst w))\<rparr>)"
      using im openE_succ [OF ed] by (auto simp: dst_image_def receivingVM_iff)
    then have "handleMem ed i rd (stream (seek es) f) (dst w) = (Inr \<lparr>status = 200, reply = Bytes (int (card (data_cells f)))\<rparr>, h')"
      using p by (simp add: handleMem_def withReceiving_run act_simps st(2)) 
    with that show ?thesis by simp
  qed
  then have "peerDo es ed i (RMem rd (stream (seek es) f)) ?w1 = (Inr r, (w\<lparr>src := (src w)\<lparr>tick := Suc (Suc (tick (src w)))\<rparr>\<rparr>)\<lparr>dst := h\<rparr>)"
    by (simp add: peerDo_happy [OF es] onDst_def serve_def)
  then show ?thesis
    using that o st(1) \<open>status r = 200\<close>
    by (simp add: sendMemFile_def bindE_def onSrc_def tickE_def retE_def)
qed

lemma sendFile_succ:
  assumes es: "happy es" and ed: "happy ed" and f: "files (src w) p = Some f" and im: "dst_image i w b g"
  obtains w' where "sendFile es ed i p w = (Inr (), w')"
proof -
  have o: "openE es p (src w) = (Inr f, (src w)\<lparr>tick := Suc (tick (src w))\<rparr>)"
    by (rule openE_succ [OF es f])
  have "receivingVM i (dst w) = Some b"
    using im by (simp add: dst_image_def receivingVM_iff)
  then obtain h where "handleVMState ed i (content f) None (dst w) = (Inr \<lparr>status = 200, reply = NoBody\<rparr>, h)"
    by (simp add: handleVMState_def withReceiving_run act_simps happyD [OF ed])
  then show ?thesis
    using that o by (simp add: sendFile_def bindE_def onSrc_def peerDo_happy [OF es] onDst_def serve_def retE_def)
qed

lemma round_body_succ:
  assumes ok: "sender_ok V es" "happy es" "happy ed" and pc: "precopy V a v r w" "0 \<le> r"
  shows "succ (round_body es ed a budget r st) w"
proof -
  let ?mp = "roundMemPath v r" and ?i = "ID (Cfg v)" and ?h0 = "(src w)\<lparr>tick := Suc (tick (src w))\<rparr>"
  obtain p b g where p: "host_proc a (src w) p" "length (gmem V p) < 2 ^ 63" and im: "dst_image ?i w b g"
    using pc(1) by (auto simp: precopy_def)
  have v: "objs (src w) a = v" and p0: "host_proc a ?h0 p" "files ?h0 ?mp = None"
    using p(1) pc by (simp_all add: host_proc_def precopy_def no_leftover_def)
  obtain d h1 where c: "captureRound es a ?mp budget ?h0 = (Inr d, h1)"
    by (rule succE [OF captureRound_succ [OF ok(1,2) p0(1) p(2) p0(2)]])
  obtain p' f where cap: "host_proc a h1 p'" "round_file V es p p' f" "files h1 ?mp = Some f"
    by (rule captureRound_ok [OF ok(1) p0(1) p(2) p0(2) c]) blast
  let ?w1 = "w\<lparr>src := h1\<lparr>tick := Suc (tick h1)\<rparr>\<rparr>"
  have "files (src ?w1) ?mp = Some f" "length f < 2 ^ 63" "dst_image ?i ?w1 b g"
    using cap p(2) im by (simp_all add: round_file_def dst_image_def)
  then obtain n w2 where s: "sendMemFile es ed ?i (Itoa r) ?mp ?w1 = (Inr n, w2)"
    using sendMemFile_succ [OF ok] by metis
  obtain h3 where "ignoreE (removeE es ?mp) (src w2) = (Inr (), h3)"
    using never_failsD [OF nf_effects(5)] by (metis old.unit.exhaust succE)
  then show ?thesis
    using c s v never_failsD [OF nf_end_round]
    by (auto simp: round_body_def succ_bind act_simps intro!: exI)
qed

lemma rounds_loop_succ:
  assumes ok: "sender_ok V es" "happy es" "happy ed" and pc: "precopy V a v r w" "0 \<le> r"
  shows "succ (rounds_loop es ed a budget n r st) w"
  using pc
proof (induction n arbitrary: r st w)
  case (Suc n)
  obtain x w1 where rb: "round_body es ed a budget r st w = (Inr x, w1)"
    by (rule succE [OF round_body_succ [OF ok Suc.prems]])
  obtain go st1 where x: "x = (go, st1)" by fastforce
  have "succ (if go then rounds_loop es ed a budget n (r + 1) st1 else retE st1) w1"
    using Suc.IH [OF round_body_precopy [OF ok(1) Suc.prems rb]] Suc.prems(2) by simp
  then show ?case
    using rb x by (auto intro: succ_bindI)
qed simp

section \<open>The whole migration\<close>

definition dst_alive :: "string \<Rightarrow> 'p world \<Rightarrow> bool" where
  "dst_alive i w \<longleftrightarrow> (\<exists>b q. vms (dst w) i = Some b \<and> host_proc b (dst w) q)"

lemma dst_alive_cong:
  "vms (dst w') = vms (dst w) \<Longrightarrow> objs (dst w') = objs (dst w) \<Longrightarrow> procs (dst w') = procs (dst w) \<Longrightarrow>
   dst_alive i w' = dst_alive i w"
  by (simp add: dst_alive_def host_proc_def)

lemma rounds_loop_alive:
  "rounds_loop es ed a budget n r st w = (Inr st', w') \<Longrightarrow> dst_alive i w \<Longrightarrow> dst_alive i w'"
proof (induction n arbitrary: r st w)
  case 0
  then show ?case by (simp add: act_simps)
next
  case (Suc n)
  from Suc.prems(1) obtain go st1 w1 where rb: "round_body es ed a budget r st w = (Inr (go, st1), w1)"
    and k: "(if go then rounds_loop es ed a budget n (r + 1) st1 else retE st1) w1 = (Inr st', w')"
    by (auto simp: act_simps)
  obtain h1 d w2 m h3 where s: "captureRound es a (roundMemPath (objs (src w) a) r) budget ((src w)\<lparr>tick := Suc (tick (src w))\<rparr>) = (Inr d, h1)"
    "sendMemFile es ed (ID (Cfg (objs (src w) a))) (Itoa r) (roundMemPath (objs (src w) a) r) (w\<lparr>src := h1\<lparr>tick := Suc (tick h1)\<rparr>\<rparr>) = (Inr m, w2)"
    "h3 = src w2 \<or> h3 = (src w2)\<lparr>files := (files (src w2))(roundMemPath (objs (src w) a) r := None)\<rparr>"
    "quiet h3 (src w1)" "dst w1 = dst w2"
    by (rule round_body_parts [OF rb refl])
  have "dst_alive i w1 = dst_alive i w"
    by (rule dst_alive_cong) (use sendMemFile_dst [OF s(2)] s(5) in simp_all)
  then show ?case
    using Suc k by (cases go) (auto simp: act_simps)
qed

lemma finalize_succ:
  assumes es: "happy es" and ed: "happy ed" and im: "dst_image i w b g"
    and st: "files (dst w) (finalStatePath (objs (dst w) b)) = Some s" and al: "dst_alive i w"
  obtains r w' fin where "postJSON es ed i RFinalize w = (Inr r, w')" "reply r = Final fin"
proof -
  let ?h = "dst w" let ?v = "objs ?h b" let ?h1 = "?h\<lparr>tick := Suc (tick ?h)\<rparr>"
  have rv: "receivingVM i ?h = Some b" using im by (simp add: dst_image_def receivingVM_iff)
  obtain q where "host_proc b ?h1 q"
    using al im by (auto simp: dst_alive_def dst_image_def host_proc_def)
  moreover have "fst (perform (fc ed t) (LoadSnapshot (finalStatePath ?v) (recvMemPath ?v) True True) (p, files ?h1)) = Inr ()" for t p
    using ed im st by (simp add: happy_def dst_image_def)
  ultimately obtain h2 where l: "apiE ed b (LoadSnapshot (finalStatePath ?v) (recvMemPath ?v) True True) ?h1 = (Inr (), h2)"
    by (rule api_succE)
  let ?rec = "snd (Mark (clk ed (tick ?h)) ''target.load_start'' \<lparr>events = []\<rparr>)"
  obtain h3 where an: "announce ed (Cfg ?v) (h2\<lparr>tick := Suc (tick h2)\<rparr>) = (Inr (), h3)"
    using quiet_announce by (metis prod.collapse)
  obtain fin h' where "handleFinalize ed i ?h = (Inr \<lparr>status = 200, reply = Final fin\<rparr>, h')"
  proof -
    let ?h4 = "h3\<lparr>tick := Suc (tick h3), objs := (objs h3)(b := (objs h3 b)\<lparr>baseMem := recvMemPath ?v, vstate := StateRunning\<rparr>)\<rparr>"
    obtain h5 where "publishE ed ''receive.resumed'' (''%s'', [AStr (ID (Cfg ?v))]) ?h4 = (Inr (), h5)"
      by (rule publish_runE)
    then show ?thesis
      using that rv l an by (simp add: handleFinalize_def withReceiving_run act_simps Mark_def)
  qed
  then show ?thesis
    using that by (simp add: postJSON_def bindE_def peerDo_happy [OF es] onDst_def serve_def retE_def)
qed

lemma blackout_succ:
  assumes ok: "sender_ok V es" "happy es" "happy ed" and pc: "precopy V a v r w" and al: "dst_alive (ID (Cfg v)) w"
  shows "succ (blackout es ed a rep rec) w"
proof -
  let ?i = "ID (Cfg v)" and ?h0 = "(src w)\<lparr>tick := Suc (tick (src w))\<rparr>"
  obtain p b g where p: "host_proc a (src w) p" "length (gmem V p) < 2 ^ 63" and im: "dst_image ?i w b g"
    using pc by (auto simp: precopy_def)
  have v: "objs (src w) a = v" and p0: "host_proc a ?h0 p"
    using p(1) pc by (simp_all add: host_proc_def precopy_def)
  obtain h1 where c1: "apiE es a Pause ?h0 = (Inr (), h1)"
    by (rule api_succE [OF p0 happyD(4) [OF ok(2)]])
  obtain p1 where p1: "host_proc a h1 p1" "\<not> running V p1" "evolves V p p1" "files h1 = files ?h0" "objs h1 = objs ?h0"
    by (rule pause_proc [OF ok(1) p0 c1])
  have l1: "length (gmem V p1) < 2 ^ 63" "files h1 (finalMemPath v) = None"
    using p1(3,4) p(2) pc by (simp_all add: evolves_def precopy_def no_leftover_def)
  obtain h2 where c2: "apiE es a (CreateSnapshot SnapshotDiff (finalStatePath v) (finalMemPath v) 0) h1 = (Inr (), h2)"
    by (rule api_succE [OF p1(1) happyD(6) [OF ok(2)]])
  obtain p2 f st where p2: "host_proc a h2 p2" "\<not> running V p2" "gmem V p2 = gmem V p1" "gstate V p2 = gstate V p1"
    "length f = length (gmem V p1)" "\<forall>g. synced V p1 g \<longrightarrow> content (shipped (seek es) g f) = gmem V p1"
    "content st = gstate V p1" "files h2 = (files h1)(finalStatePath v \<mapsto> st, finalMemPath v \<mapsto> f)" "objs h2 = objs h1"
    by (rule paused_diff [OF ok(1) p1(1) l1(1) p1(2) l1(2) base_paths_apart(4) c2])
  let ?w2 = "w\<lparr>src := h2\<lparr>tick := Suc (tick h2)\<rparr>\<rparr>"
  have f: "files (src ?w2) (finalMemPath v) = Some f" "length f < 2 ^ 63" "dst_image ?i ?w2 b g"
    using p2(5,8) l1(1) im by (simp_all add: dst_image_def)
  obtain n w3 where s3: "sendMemFile es ed ?i ''final'' (finalMemPath v) ?w2 = (Inr n, w3)"
    by (rule sendMemFile_succ [OF ok f])
  note im3 = send_image [OF ok(1) f s3]
  have "files (src w3) (finalStatePath v) = Some st"
    using im3(2) p2(8) base_paths_apart(4) [of v] by (simp add: quiet_def)
  then obtain w4 where s4: "sendFile es ed ?i (finalStatePath v) w3 = (Inr (), w4)"
    by (rule sendFile_succ [OF ok(2,3) _ im3(1)])
  obtain sf b' where sf: "files (src w3) (finalStatePath v) = Some sf" "quiet (src w3) (src w4)"
    "vms (dst w3) ?i = Some b'" "vstate (objs (dst w3) b') = StateReceiving"
    "quiet ((dst w3)\<lparr>files := (files (dst w3))(finalStatePath (objs (dst w3) b') \<mapsto> map Some (content sf))\<rparr>) (dst w4)"
    by (rule sendFile_ok [OF s4])
  have [simp]: "b' = b" using sf(3) im3(1) by (simp add: dst_image_def)
  let ?w4 = "w4\<lparr>src := (src w4)\<lparr>tick := Suc (tick (src w4))\<rparr>\<rparr>"
  have im4: "dst_image ?i ?w4 b (shipped (seek es) g f)"
      "files (dst ?w4) (finalStatePath (objs (dst ?w4) b)) = Some (map Some (content sf))" "dst_alive ?i ?w4"
    using im3(1) sf(5) sendMemFile_dst [OF s3] al
    by (auto simp: dst_image_def quiet_def dst_alive_def host_proc_def base_paths_apart(5) [symmetric])
  obtain r w' fin where "postJSON es ed ?i RFinalize ?w4 = (Inr r, w')" "reply r = Final fin"
    by (rule finalize_succ [OF ok(2,3) im4])
  then show ?thesis
    using c1 c2 s3 s4 v by (simp add: blackout_def succ_bind act_simps Mark_def Let_def)
qed

lemma spawn_succ:
  assumes "happy e"
  obtains h' where "spawnFirecracker e a h = (Inr (), h')"
proof -
  have "succ (spawnFirecracker e a) h"
    unfolding spawnFirecracker_def succ_bind
    using happyD(1,3) [OF assms] assms
    by (simp add: act_simps removeE_def createE_def osE_def bindE_def tickE_def retE_def modE_def
        attach_def waitReadyE_def succ_def Let_def)
      (metis WaitReady_iff add_0 le0)
  then show ?thesis using that by (auto simp: succ_def)
qed

lemma prepare_succ:
  assumes es: "happy es" and ed: "happy ed" and wf: "host_wf (dst w)" and i: "ID vc = i"
  obtains r w' where "postJSON es ed i (RPrepare vc) w = (Inr r, w')" "dst_alive i w'"
proof -
  let ?h = "dst w" let ?a = "nextobj ?h"
  let ?hs = "?h\<lparr>objs := (objs ?h)(?a := fresh_slot (cfg ?h) vc StateReceiving), nextobj := Suc ?a\<rparr>"
  obtain h1 where sp: "spawnFirecracker ed ?a ?hs = (Inr (), h1)"
    by (rule spawn_succ [OF ed])
  have id: "ID (Cfg (objs h1 ?a)) = i"
    using spawnFirecracker_ok [OF sp] i by (simp add: fresh_slot_def)
  let ?hp = "h1\<lparr>tick := Suc (tick h1), files := (files h1)(recvMemPath (objs h1 ?a) \<mapsto> []), vms := (vms h1)(i \<mapsto> ?a)\<rparr>"
  let ?hk = "case vms h1 i of None \<Rightarrow> ?hp | Some b \<Rightarrow>
    (case proc (objs h1 b) of None \<Rightarrow> ?hp | Some pid \<Rightarrow> ?hp\<lparr>procs := (procs h1)(pid := None)\<rparr>)"
  obtain h4 where pb: "publishE ed ''receive.prepared'' (''%s'', [AStr i]) ?hk = (Inr (), h4)"
    by (rule publish_runE)
  have hp: "handlePrepare ed i (Inr vc) ?h = (Inr \<lparr>status = 200, reply = NoBody\<rparr>, h4)"
  proof -
    have c: "createE ed (recvMemPath (objs h1 ?a)) h1 =
        (Inr (), h1\<lparr>tick := Suc (tick h1), files := (files h1)(recvMemPath (objs h1 ?a) \<mapsto> [])\<rparr>)"
      by (simp add: createE_ok happyD(1) [OF ed])
    have k: "(case vms h1 i of None \<Rightarrow> retE () | Some b \<Rightarrow> kill b) ?hp = (Inr (), ?hk)"
      by (simp add: retE_def kill_def modE_def split: option.split)
    have pv: "putVM_E ?a (h1\<lparr>tick := Suc (tick h1), files := (files h1)(recvMemPath (objs h1 ?a) \<mapsto> [])\<rparr>) = (Inr (vms h1 i), ?hp)"
      using id by (simp add: putVM_E_run)
    show ?thesis
      using i by (simp add: handlePrepare_def bindE_def askE_def newVM_def orElse_def tryE_def vmE_def sp c pv k pb http_ok_run)
  qed
  then have pj: "postJSON es ed i (RPrepare vc) w =
      (Inr \<lparr>status = 200, reply = NoBody\<rparr>, w\<lparr>src := (src w)\<lparr>tick := Suc (tick (src w))\<rparr>, dst := h4\<rparr>)"
    by (simp add: postJSON_def bindE_def peerDo_happy [OF es] onDst_def serve_def retE_def)
  have "\<exists>b q. vms h4 i = Some b \<and> host_proc b h4 q"
    using prepare_slot [OF hp _ wf] by (auto simp: host_proc_def)
  with that pj show ?thesis by (simp add: dst_alive_def)
qed

lemma resync_succ:
  assumes ok: "sender_ok V e" "happy e" and p: "host_proc a h p"
  shows "succ (resync e a rec) h"
proof (cases "needsResync (objs h a)")
  case True
  let ?v = "objs h a"
  obtain h1 where c1: "apiE e a Pause h = (Inr (), h1)"
    by (rule api_succE [OF p happyD(4) [OF ok(2)]])
  obtain p1 where p1: "host_proc a h1 p1" by (rule api_proc [OF c1 p])
  obtain h2 where c2: "apiE e a (CreateSnapshot SnapshotFull (baseStatePath ?v) (baseMemPath ?v) 0) h1 = (Inr (), h2)"
    by (rule api_succE [OF p1 happyD(6) [OF ok(2)]])
  obtain p2 where p2: "host_proc a h2 p2" by (rule api_proc [OF c2 p1])
  obtain h3 where c3: "apiE e a Resume h2 = (Inr (), h3)"
    by (rule api_succE [OF p2 happyD(5) [OF ok(2)]])
  show ?thesis
    using True c1 c2 c3
    by (simp add: resync_def succ_def bindE_def vmE_def askE_def tryE_def setVM_def modE_def markE_def nowE_def tickE_def retE_def Mark_def)
qed (simp add: resync_def succ_def bindE_def vmE_def askE_def retE_def)

lemma release_succ:
  assumes "registered (throttle h) v"
  obtains h' where "setLevelE e v 0 h = (Inr (), h')"
  using SetLevel_release [OF assms] that by (simp add: setLevelE_def bindE_def tickE_def)

lemma migrateInner_succ:
  assumes ok: "sender_ok V es" "happy es" "happy ed" and wf: "host_wf (dst w)"
    and base: "base_ok V a (src w)" and nl: "no_leftover (objs (src w) a) 1 (files (src w))"
    and len: "\<And>p. host_proc a (src w) p \<Longrightarrow> length (gmem V p) < 2 ^ 63"
    and reg: "registered (throttle (src w)) (ID (Cfg (objs (src w) a)))"
  shows "succ (migrateInner es ed a tgt rec) w"
proof -
  let ?v0 = "objs (src w) a" let ?i = "ID (Cfg ?v0)"
  obtain r w1 where prep: "postJSON es ed ?i (RPrepare (Cfg ?v0)) w = (Inr r, w1)" and al1: "dst_alive ?i w1"
    by (rule prepare_succ [OF ok(2,3) wf refl])
  obtain b where im1: "dst_image ?i w1 b []" and q1: "quiet (src w) (src w1)"
    by (rule prepare_image [OF prep])
  let ?h1 = "(src w1)\<lparr>tick := Suc (tick (src w1))\<rparr>"
  let ?rec1 = "snd (Mark (clk es (tick (src w1))) ''target.prepared'' rec)"
  have q01: "quiet (src w) ?h1" using q1 by (simp add: quiet_def)
  obtain p where p: "host_proc a ?h1 p" "length (gmem V p) < 2 ^ 63"
      "needsResync (objs ?h1 a) \<or> (\<exists>f. files ?h1 (baseMem (objs ?h1 a)) = Some f \<and> synced V p f)"
    using base len host_proc_quiet [OF q01] q01 unfolding base_ok_def by (auto simp: quiet_def)
  have nl1: "no_leftover (objs ?h1 a) 1 (files ?h1)" using nl q01 by (simp add: quiet_def)
  obtain rec2 h2 where rs: "resync es a ?rec1 ?h1 = (Inr rec2, h2)"
    by (rule succE [OF resync_succ [OF ok(1,2) p(1)]])
  obtain p' f where p': "host_proc a h2 p'" "files h2 (baseMem (objs h2 a)) = Some f" "synced V p' f"
    "length (gmem V p') = length (gmem V p)" "no_leftover (objs h2 a) 1 (files h2)" "Cfg (objs h2 a) = Cfg (objs ?h1 a)"
    by (rule resync_ok [OF ok(1) p(1,3) nl1 rs])
  have id: "ID (Cfg (objs h2 a)) = ?i" using p'(6) q01 by (simp add: quiet_def)
  let ?w2 = "w1\<lparr>src := h2\<rparr>"
  have lf: "files (src ?w2) (baseMem (objs h2 a)) = Some f" "length f < 2 ^ 63" "dst_image ?i ?w2 b []"
    using p'(2-4) p(2) im1 by (simp_all add: synced_def dst_image_def)
  obtain n w3 where bs: "sendMemFile es ed ?i ''base'' (baseMem (objs h2 a)) ?w2 = (Inr n, w3)"
    by (rule sendMemFile_succ [OF ok lf])
  note sent = send_image [OF ok(1) lf bs]
  have "synced V p' (shipped (seek es) [] f)"
    by (rule ship.base_synced [OF sender_seekable [OF ok(1) lf(2)] p'(3)])
  then have "precopy V a (objs h2 a) 1 w3"
    using sent(1,2) p' p(2) host_proc_quiet [OF sent(2)] id unfolding precopy_def
    by (intro conjI exI [of _ p'] exI [of _ b] exI [of _ "shipped (seek es) [] f"]) (auto simp: quiet_def)
  then have pc: "precopy V a (objs h2 a) 1 (w3\<lparr>src := (src w3)\<lparr>tick := Suc (Suc (tick (src w3)))\<rparr>\<rparr>)"
    by (rule precopy_quiet) simp
  let ?w4 = "w3\<lparr>src := (src w3)\<lparr>tick := Suc (Suc (tick (src w3)))\<rparr>\<rparr>"
  let ?bg = "if LiveRounds (cfg (src w)) then drainBudgetBytes else 0"
  let ?k = "if LiveRounds (cfg (src w)) then maxRounds else maxRoundsStock"
  let ?st = "start_state (MemMiB (Cfg (objs h2 a))) (clk es (Suc (tick (src w3))))"
  obtain st w5 where lp: "rounds_loop es ed a ?bg ?k 1 ?st ?w4 = (Inr st, w5)"
    by (rule succE [OF rounds_loop_succ [OF ok pc]]) simp
  obtain r' where pc5: "precopy V a (objs h2 a) r' w5"
    using rounds_loop_precopy [OF ok(1) pc _ lp] by auto
  have "dst_alive ?i ?w4 = dst_alive ?i w1"
    by (rule dst_alive_cong) (use sendMemFile_dst [OF bs] in simp_all)
  then have al5: "dst_alive ?i w5" using rounds_loop_alive [OF lp] al1 by simp
  have "src_frame a (src ?w4) (src w5)"
    using keepsD [OF keeps_rounds_loop _ lp, of "src ?w4"] by simp
  moreover have "src_frame a ?h1 h2"
    using keepsD [OF keeps_resync _ rs, of ?h1] by simp
  ultimately have "registered (throttle (src w5)) ?i"
    using reg q01 sent(2) by (simp add: registered_def src_frame_def quiet_def)
  then obtain h6 where rl: "setLevelE es ?i 0 (src w5) = (Inr (), h6)"
    by (rule release_succ)
  have pc6: "precopy V a (objs h2 a) r' (w5\<lparr>src := h6\<rparr>)"
    by (rule precopy_quiet [OF pc5 quiet_setLevel [OF rl]])
  have "succ (blackout es ed a rep rc) (w5\<lparr>src := h6\<rparr>)" for rep rc
    by (rule blackout_succ [OF ok pc6]) (use al5 id in \<open>simp add: dst_alive_def\<close>)
  then show ?thesis
    using prep rs bs lp rl id
    by (simp add: migrateInner_def succ_bind act_simps Mark_def)
qed

end
