(* ===== verification/Migration_Props.thy ===== *)
theory Migration_Props
  imports Migrate_Progress
begin

text \<open>
  The properties of a whole migration, with witnesses that run it between two sample hosts.
\<close>

section \<open>The sample world\<close>

definition s_world :: "bool \<Rightarrow> sproc world" where
  "s_world live = \<lparr>src = s_busy live, dst = s_idle live\<rparr>"

lemma s_sender: "sender_ok s_view s_env"
  by (simp add: sender_ok_def s_contract)

lemma s_happy: "happy s_env"
proof -
  have "oserr s_env t = None" "peer s_env t = Delivered" "api_polls s_env t 0" for t
    by (simp_all add: s_env_def)
  then show ?thesis by (auto simp: happy_def s_fc_calls)
qed

lemma s_procs: "host_proc 0 (src (s_world live)) p \<longleftrightarrow> p = \<lparr>s_mem = [1, 2], s_dirty = [], s_blob = [9], s_run = True\<rparr>"
  by (auto simp: host_proc_def s_world_def s_busy_def s_idle_def s_vm_def)

lemma s_base: "base_ok s_view 0 (src (s_world live))"
  unfolding base_ok_def s_procs
  by (simp add: s_world_def s_busy_def s_idle_def s_vm_def synced_def content_def less_Suc_eq all_conj_distrib)

lemma s_objs [simp]: "objs (src (s_world live)) 0 = s_vm" "objs (dst (s_world live)) b = s_vm"
  by (simp_all add: s_world_def s_busy_def s_idle_def)

lemma s_clean: "no_leftover s_vm 1 (files (src (s_world live)))"
  by (simp add: no_leftover_def round_path slot_paths)
    (simp add: s_world_def s_busy_def s_idle_def s_vm_def dir_prefix_def is_rooted_def clean_step_def)

lemma s_wf: "host_wf (dst (s_world live))" "host_wf (src (s_world live))"
  by (auto simp: host_wf_def s_world_def s_idle_def s_busy_def s_vm_def)

lemma s_reg: "registered (throttle (src (s_world live))) (ID (Cfg s_vm))"
  by (simp add: registered_def s_world_def s_busy_def Register_def s_vm_def s_config_def)

lemma s_run: obtains rep w' where "migrateInner s_env s_env 0 ''host-b:7000'' rec (s_world live) = (Inr rep, w')"
proof -
  have "succ (migrateInner s_env s_env 0 ''host-b:7000'' rec) (s_world live)"
    by (rule migrateInner_succ [OF s_sender s_happy s_happy s_wf(1) s_base])
      (simp_all add: s_clean s_reg s_procs)
  then show ?thesis using that by (auto simp: succ_def)
qed

section \<open>Fidelity\<close>



section \<open>Progress\<close>

lemma migrate_runs:
  assumes "fc_contract V es" and "fc_contract V ed" and "\<forall>f. length f < 2 ^ 63 \<longrightarrow> lseek_ok (seek es f) f"
    and "happy es" and "happy ed" and "host_wf (dst w)"
    and "vstate (objs (src w) a) = StateRunning" and "proc (objs (src w) a) = api (objs (src w) a)"
    and "base_ok V a (src w)" and "no_leftover (objs (src w) a) 1 (files (src w))"
    and "\<forall>p. host_proc a (src w) p \<longrightarrow> length (gmem V p) < 2 ^ 63"
    and "registered (throttle (src w)) (ID (Cfg (objs (src w) a)))"
  shows "\<exists>rep w' b p'. migrate es ed a tgt w = (Inr rep, w') \<and> vstate (objs (src w') a) = StateMigrated \<and>
    (\<forall>p. \<not> host_proc a (src w') p) \<and> vms (dst w') (ID (Cfg (objs (src w) a))) = Some b \<and>
    vstate (objs (dst w') b) = StateRunning \<and> host_proc b (dst w') p' \<and> running V p'"
proof -
  let ?v = "objs (src w) a" let ?i = "ID (Cfg ?v)"
  have ok: "sender_ok V es" using assms(1,3) by (simp add: sender_ok_def)
  have lo: "load_law V ed" using assms(2) by (simp add: fc_contract_def)
  obtain r w' where m: "migrate es ed a tgt w = (r, w')" by fastforce
  obtain rec w1 res w2 where
    q1: "quiet ((src w)\<lparr>objs := (objs (src w))(a := ?v\<lparr>vstate := StateMigrating\<rparr>)\<rparr>) (src w1)"
    and d1: "dst w1 = dst w" and inner: "migrateInner es ed a tgt rec w1 = (res, w2)"
    and k: "(case res of
         Inl err \<Rightarrow> rollback es ed a err
       | Inr rep \<Rightarrow>
           thenE (onSrc (kill a))
          (thenE (onSrc (setState a StateMigrated))
          (thenE (onSrc (publishE es ''migrate.done'' (''%s blackout=%.2fms'', [AStr ?i, AInt (BlackoutNS rep)])))
                 (retE rep)))) w2 = (r, w')"
    by (rule migrate_enter [OF assms(7) m])
  have v1: "objs (src w1) a = ?v\<lparr>vstate := StateMigrating\<rparr>" using q1 by (simp add: quiet_def)
  have hp: "host_proc a (src w1) p = host_proc a (src w) p" for p
    using q1 by (simp add: host_proc_def quiet_def)
  have b1: "base_ok V a (src w1)"
    using assms(9) q1 unfolding base_ok_def hp v1 by (simp add: quiet_def)
  have n1: "no_leftover (objs (src w1) a) 1 (files (src w1))"
    using assms(10) q1 by (simp add: v1 no_leftover_def finalMemPath_def roundMemPath_def quiet_def)
  have l1: "length (gmem V p) < 2 ^ 63" if "host_proc a (src w1) p" for p using assms(11) that hp by blast
  have "succ (migrateInner es ed a tgt rec) w1"
    by (rule migrateInner_succ [OF ok assms(4,5) _ b1 n1 l1]) (use assms(6,12) q1 in \<open>simp_all add: d1 v1 registered_def quiet_def\<close>)
  then obtain rep where res: "res = Inr rep" using inner by (auto simp: succ_def)
  have rs: "restored V a ?i w2"
    using migrateInner_restored [OF ok lo b1 n1 l1 inner [unfolded res]] v1 by simp
  obtain h where r: "r = Inr rep" and w': "w' = w2\<lparr>src := h\<rparr>"
    and qh: "quiet (let h2 = snd (kill a (src w2)) in h2\<lparr>objs := (objs h2)(a := (objs h2 a)\<lparr>vstate := StateMigrated\<rparr>)\<rparr>) h"
    using k res by (auto simp: bindE_def onSrc_def kill_def modE_def setState_def setVM_def retE_def Let_def
        split: prod.splits sum.splits dest!: quiet_publish)
  have fr: "src_frame a (src w1) (src w2)"
    using keepsD [OF keeps_migrateInner _ inner, of "src w1"] by simp
  then have "proc (objs (src w2) a) = api (objs (src w2) a)"
    using assms(8) v1 by (auto simp: src_frame_def)
  then have "vstate (objs h a) = StateMigrated \<and> (\<forall>p. \<not> host_proc a h p)"
    using qh by (auto simp: quiet_def Let_def kill_def modE_def host_proc_def split: option.splits)
  then show ?thesis
    using m r w' rs unfolding restored_def by auto
qed



end
