(* ===== verification/Slot_Props.thy ===== *)
theory Slot_Props
  imports Migration_Props
begin

text \<open>
  Properties that join the life of a slot to migration: where the base image comes from, what
  a migration leaves behind on the source, and what that does to the next one.
\<close>

section \<open>Booting establishes the base image\<close>

lemma api_alive:
  assumes "apiE e a c h = (Inr x, h')" and "\<exists>p. host_proc a h p"
  shows "(\<exists>p. host_proc a h' p) \<and> objs h' = objs h"
proof -
  obtain p where "host_proc a h p" using assms(2) by blast
  from api_proc [OF assms(1) this] show ?thesis by metis
qed

lemma waitGuestReady_run: "waitGuestReady e a h = (r, h') \<Longrightarrow> quiet h h'"
  by (auto simp: waitGuestReady_def bindE_def vmE_def askE_def tickE_def quiet_def Let_def split: prod.splits)

lemma boot_parts:
  assumes "boot e a h = (Inr x, h')"
  obtains h1 h2 h3 h4 h5 where "\<exists>p. host_proc a h1 p"
    "objs h1 = (objs h)(a := (objs h a)\<lparr>vstate := StateBooting, proc := Some (nextpid h), api := Some (nextpid h)\<rparr>)"
    "apiE e a Pause h1 = (Inr (), h2)"
    "apiE e a (CreateSnapshot SnapshotFull (baseStatePath (objs h a)) (baseMemPath (objs h a)) 0) h2 = (Inr (), h3)"
    "apiE e a Resume h3 = (Inr (), h4)"
    "h' = h4\<lparr>objs := (objs h4)(a := (objs h4 a)\<lparr>baseMem := baseMemPath (objs h a), vstate := StateRunning\<rparr>)\<rparr>"
proof -
  let ?hb = "h\<lparr>objs := (objs h)(a := (objs h a)\<lparr>vstate := StateBooting\<rparr>)\<rparr>"
  obtain g0 where sp: "spawnFirecracker e a ?hb = (Inr (), g0)"
    and rest: "bindE (vmE a) (\<lambda>v.
     thenE (apiE e a (PutMachineConfig (machine_of (Cfg v))))
    (thenE (apiE e a (PutBootSource \<lparr>KernelImagePath = Kernel (Cfg v), BootArgs = bootArgs (Cfg v)\<rparr>))
    (thenE (apiE e a (PutDrive \<lparr>DriveID = ''rootfs'', PathOnHost = Rootfs (Cfg v), IsRootDevice = True, IsReadOnly = False\<rparr>))
    (thenE (apiE e a (PutNetworkInterface \<lparr>IfaceID = ''eth0'', IfaceMAC = GuestMAC (Cfg v), HostDevName = TapDev (Cfg v)\<rparr>))
    (thenE (apiE e a Start)
    (thenE (waitGuestReady e a)
    (thenE (apiE e a Pause)
    (thenE (apiE e a (CreateSnapshot SnapshotFull (baseStatePath v) (baseMemPath v) 0))
    (thenE (apiE e a Resume)
    (thenE (setVM a (baseMem_update (\<lambda>_. baseMemPath v)))
           (setState a StateRunning))))))))))) g0 = (Inr x, h')"
    using assms unfolding boot_def by (auto simp: act_simps)
  have o: "objs g0 = (objs h)(a := (objs h a)\<lparr>vstate := StateBooting, proc := Some (nextpid h), api := Some (nextpid h)\<rparr>)"
    "\<exists>p. host_proc a g0 p"
    using spawnFirecracker_ok [OF sp] by (simp_all add: host_proc_def)
  let ?v = "objs g0 a"
  have paths: "baseStatePath ?v = baseStatePath (objs h a)" "baseMemPath ?v = baseMemPath (objs h a)"
    by (simp_all add: o baseStatePath_def baseMemPath_def)
  obtain g1 g2 g3 g4 g5 g6 g7 g8 g9 where
    c: "apiE e a (PutMachineConfig (machine_of (Cfg ?v))) g0 = (Inr (), g1)"
      "apiE e a (PutBootSource \<lparr>KernelImagePath = Kernel (Cfg ?v), BootArgs = bootArgs (Cfg ?v)\<rparr>) g1 = (Inr (), g2)"
      "apiE e a (PutDrive \<lparr>DriveID = ''rootfs'', PathOnHost = Rootfs (Cfg ?v), IsRootDevice = True, IsReadOnly = False\<rparr>) g2 = (Inr (), g3)"
      "apiE e a (PutNetworkInterface \<lparr>IfaceID = ''eth0'', IfaceMAC = GuestMAC (Cfg ?v), HostDevName = TapDev (Cfg ?v)\<rparr>) g3 = (Inr (), g4)"
      "apiE e a Start g4 = (Inr (), g5)" "waitGuestReady e a g5 = (Inr (), g6)"
    and s: "apiE e a Pause g6 = (Inr (), g7)" "apiE e a (CreateSnapshot SnapshotFull (baseStatePath ?v) (baseMemPath ?v) 0) g7 = (Inr (), g8)"
      "apiE e a Resume g8 = (Inr (), g9)"
    and h': "h' = g9\<lparr>objs := (objs g9)(a := (objs g9 a)\<lparr>baseMem := baseMemPath ?v, vstate := StateRunning\<rparr>)\<rparr>"
    using rest by (auto simp: act_simps)
  have "(\<exists>p. host_proc a g5 p) \<and> objs g5 = objs g0"
    using c(1-5) o(2) api_alive by metis
  then have "(\<exists>p. host_proc a g6 p) \<and> objs g6 = objs g0"
    using waitGuestReady_run [OF c(6)] host_proc_quiet by (metis quiet_def)
  with that s h' o(1) paths show ?thesis by metis
qed

lemma boot_base:
  assumes "fc_contract V e" and "\<forall>f. length f < 2 ^ 63 \<longrightarrow> lseek_ok (seek e f) f"
    and "boot e a h = (Inr x, h')"
  shows "base_ok V a h' \<and> vstate (objs h' a) = StateRunning \<and> baseMem (objs h' a) = baseMemPath (objs h a) \<and>
    proc (objs h' a) = api (objs h' a) \<and> (\<exists>p f. host_proc a h' p \<and> files h' (baseMemPath (objs h a)) = Some f \<and> synced V p f)"
proof -
  have ok: "sender_ok V e" using assms(1,2) by (simp add: sender_ok_def)
  obtain h1 h2 h3 h4 h5 where p: "\<exists>p. host_proc a h1 p"
    and o: "objs h1 = (objs h)(a := (objs h a)\<lparr>vstate := StateBooting, proc := Some (nextpid h), api := Some (nextpid h)\<rparr>)"
    and c: "apiE e a Pause h1 = (Inr (), h2)"
    "apiE e a (CreateSnapshot SnapshotFull (baseStatePath (objs h a)) (baseMemPath (objs h a)) 0) h2 = (Inr (), h3)"
    "apiE e a Resume h3 = (Inr (), h4)"
    and h': "h' = h4\<lparr>objs := (objs h4)(a := (objs h4 a)\<lparr>baseMem := baseMemPath (objs h a), vstate := StateRunning\<rparr>)\<rparr>"
    by (rule boot_parts [OF assms(3)])
  obtain q where q: "host_proc a h1 q" using p by blast
  obtain p' f s where "host_proc a h4 p'" "synced V p' f"
    "files h4 = (files h1)(baseStatePath (objs h a) \<mapsto> s, baseMemPath (objs h a) \<mapsto> f)" "objs h4 = objs h1"
    "length (gmem V p') = length (gmem V q)"
    by (rule full_base [OF ok q base_paths_apart(1) c])
  then have "host_proc a h' p'" "files h' (baseMemPath (objs h a)) = Some f" "synced V p' f"
    "objs h' a = (objs h a)\<lparr>vstate := StateRunning, proc := Some (nextpid h), api := Some (nextpid h), baseMem := baseMemPath (objs h a)\<rparr>"
    by (simp_all add: h' o host_proc_def)
  then show ?thesis unfolding base_ok_def by auto
qed

text \<open>
  A boot that succeeds leaves the slot running with a base image that agrees with the guest's
  memory everywhere outside the bytes dirtied since, which is what the first migration builds
  on; the image is the full snapshot in the slot's own directory.
\<close>

theorem boot_establishes_base:
  assumes "fc_contract V e" and "\<forall>f. length f < 2 ^ 63 \<longrightarrow> lseek_ok (seek e f) f"
    and "boot e a h = (Inr x, h')"
  shows "base_ok V a h' \<and> vstate (objs h' a) = StateRunning \<and> baseMem (objs h' a) = baseMemPath (objs h a) \<and>
    proc (objs h' a) = api (objs h' a) \<and> (\<exists>p f. host_proc a h' p \<and> files h' (baseMemPath (objs h a)) = Some f \<and> synced V p f)"
  by (rule boot_base [OF assms])

lemma s_fc_any: "p \<notin> {''/vm'', ''/snapshot/create'', ''/snapshot/load''} \<Longrightarrow> fst (perform s_fc (m, p, b) (q, fs)) = Inr ()"
  by (auto simp: perform_def api_do_def s_fc_def s_ok_def split: prod.split)

lemma s_boot: obtains h' where "boot s_env a h = (Inr (), h')"
proof -
  have step: "succ (bindE (apiE s_env a c) k) h" if al: "\<exists>p. host_proc a h p" and pf: "\<And>q fs. fst (perform s_fc c (q, fs)) = Inr ()"
      and kk: "\<And>h'. \<exists>p. host_proc a h' p \<Longrightarrow> succ (k ()) h'" for c h and k :: "unit \<Rightarrow> (sproc, unit) host_act"
  proof -
    obtain p where p: "host_proc a h p" using al by blast
    have "fst (perform (fc s_env t) c (q, files h)) = Inr ()" for t q by (simp add: pf)
    from api_succE [OF p this] obtain h' where c: "apiE s_env a c h = (Inr (), h')" by blast
    show ?thesis
      unfolding succ_bind using c kk api_alive [OF c al] by blast
  qed
  have wait: "waitGuestReady s_env a h = (Inr (), h\<lparr>tick := Suc (tick h)\<rparr>)" for h :: "sproc host"
    by (simp add: waitGuestReady_def bindE_def vmE_def askE_def tickE_def Let_def s_env_def split: prod.split)
  obtain g0 where sp: "spawnFirecracker s_env a (h\<lparr>objs := (objs h)(a := (objs h a)\<lparr>vstate := StateBooting\<rparr>)\<rparr>) = (Inr (), g0)"
    by (rule spawn_succ [OF s_happy])
  have alive: "\<exists>p. host_proc a g0 p" using spawnFirecracker_ok [OF sp] by (simp add: host_proc_def)
  have tail: "succ (thenE (waitGuestReady s_env a) m) h" if "\<And>h. \<exists>p. host_proc a h p \<Longrightarrow> succ m h" "\<exists>p. host_proc a h p"
    for h and m :: "(sproc, unit) host_act"
    using that by (simp add: succ_bind wait host_proc_def)
  have "succ (boot s_env a) h"
    unfolding boot_def succ_bind [of "setState a StateBooting"] setState_run
    by (simp add: succ_bind [of "spawnFirecracker s_env a"] sp succ_bind [of "vmE a"] vmE_run,
      intro step alive tail)
      (simp_all add: s_fc_any s_fc_calls PutMachineConfig_def PutBootSource_def PutDrive_def PutNetworkInterface_def Start_def
        succ_def setVM_def setState_def modE_def bindE_def)
  then show ?thesis using that by (auto simp: succ_def)
qed

theorem boot_establishes_base_witness:
  "\<exists>h'. boot s_env 0 (s_idle True) = (Inr (), h') \<and> base_ok s_view 0 h' \<and> vstate (objs h' 0) = StateRunning"
proof -
  obtain h' where b: "boot s_env 0 (s_idle True) = (Inr (), h')" by (rule s_boot)
  show ?thesis using b boot_establishes_base [OF s_contract _ b] by simp
qed

section \<open>Witnesses of the handlers and of the rollback\<close>

theorem prepare_installs_slot_witness:
  "\<exists>r h'. handlePrepare s_env ''vm0'' (Inr s_config) (s_idle True) = (Inr r, h') \<and> status r = 200 \<and>
     (\<exists>a v pid. vms h' = [''vm0'' \<mapsto> a] \<and> Cfg v = s_config \<and> vstate v = StateReceiving \<and> objs h' a = v \<and>
        proc v = Some pid \<and> procs h' pid = Some (spawned s_env ''vm0'') \<and> files h' (recvMemPath v) = Some [])"
proof -
  let ?w = "\<lparr>src = s_idle True, dst = s_idle True\<rparr>"
  have wf: "host_wf (dst ?w)" using s_wf(1) [of True] by (simp add: s_world_def)
  have id: "ID s_config = ''vm0''" by (simp add: s_config_def)
  obtain r w' where "postJSON s_env s_env ''vm0'' (RPrepare s_config) ?w = (Inr r, w')" "dst_alive ''vm0'' w'"
    by (rule prepare_succ [OF s_happy s_happy wf id])
  then have h: "handlePrepare s_env ''vm0'' (Inr s_config) (s_idle True) = (Inr r, dst w')" "status r = 200"
    by (auto simp: postJSON_def peerDo_happy [OF s_happy] serve_def act_simps split: if_splits)
  have "vms (s_idle True) = Map.empty" by (simp add: s_idle_def)
  then show ?thesis
    using prepare_installs_slot [OF h] wf h by (auto simp: fun_upd_apply)
qed

definition s_deaf :: "sproc env" where
  "s_deaf = s_env\<lparr>peer := \<lambda>_. ReqLost (Err ''no route to host'' [])\<rparr>"

theorem migrate_failure_rolls_back_witness:
  "\<exists>err w'. migrate s_deaf s_env 0 ''host-b:7000'' (s_world True) = (Inl err, w') \<and> vms (src w') = vms (src (s_world True)) \<and>
     needsResync (objs (src w') 0) \<and> vstate (objs (src w') 0) \<in> {StateRunning, StateDead}"
proof -
  have inner: "\<exists>er w2. migrateInner s_deaf s_env 0 ''host-b:7000'' rec w = (Inl er, w2)" for rec w
    by (simp add: migrateInner_def postJSON_def peerDo_def s_deaf_def bindE_def wrapE_def onSrc_def vmE_def askE_def tickE_def failE_def)
  have st: "vstate (objs (src (s_world True)) 0) = StateRunning" by (simp add: s_vm_def)
  obtain r w' where m: "migrate s_deaf s_env 0 ''host-b:7000'' (s_world True) = (r, w')" by fastforce
  have "\<exists>err. r = Inl err"
  proof -
    obtain rec w1 res w2 where i: "migrateInner s_deaf s_env 0 ''host-b:7000'' rec w1 = (res, w2)"
      and k: "(case res of Inl err \<Rightarrow> rollback s_deaf s_env 0 err
       | Inr rep \<Rightarrow> thenE (onSrc (kill 0)) (thenE (onSrc (setState 0 StateMigrated))
          (thenE (onSrc (publishE s_deaf ''migrate.done'' (''%s blackout=%.2fms'', [AStr (ID (Cfg (objs (src (s_world True)) 0))), AInt (BlackoutNS rep)])))
                 (retE rep)))) w2 = (r, w')"
      by (rule migrate_enter [OF st m])
    obtain er where "res = Inl er" using i inner [of rec w1] by auto
    then have "rollback s_deaf s_env 0 er w2 = (r, w')" using k by simp
    then show ?thesis by (rule rollback_run)
  qed
  then obtain err where err: "r = Inl err" by blast
  have law: "resume_law s_view s_deaf"
    using s_contract by (simp add: fc_contract_def resume_law_def s_deaf_def)
  show ?thesis
    using m err migrate_failure_rolls_back [OF m [unfolded err] st law] by auto
qed

section \<open>What a migration leaves behind\<close>

text \<open>The final diff of a migration stays in the source's directory.\<close>

lemma blackout_leaves_final:
  assumes ok: "sender_ok V es" and pc: "precopy V a v r w" and bo: "blackout es ed a rep rec w = (Inr rep', w')"
  shows "files (src w') (finalMemPath v) \<noteq> None"
proof -
  have v: "objs (src w) a = v" using pc by (simp add: precopy_def)
  obtain h1 h2 w3 n w4 w5 rr where c: "apiE es a Pause ((src w)\<lparr>tick := Suc (tick (src w))\<rparr>) = (Inr (), h1)"
    "apiE es a (CreateSnapshot SnapshotDiff (finalStatePath v) (finalMemPath v) 0) h1 = (Inr (), h2)"
    and s: "sendMemFile es ed (ID (Cfg v)) ''final'' (finalMemPath v) (w\<lparr>src := h2\<lparr>tick := Suc (tick h2)\<rparr>\<rparr>) = (Inr n, w3)"
    "sendFile es ed (ID (Cfg v)) (finalStatePath v) w3 = (Inr (), w4)"
    and fz: "postJSON es ed (ID (Cfg v)) RFinalize (w4\<lparr>src := (src w4)\<lparr>tick := Suc (tick (src w4))\<rparr>\<rparr>) = (Inr rr, w')"
    by (rule blackout_parts [OF bo v])
  obtain f m u r where f: "files (src (w\<lparr>src := h2\<lparr>tick := Suc (tick h2)\<rparr>\<rparr>)) (finalMemPath v) = Some f"
    "quiet (src (w\<lparr>src := h2\<lparr>tick := Suc (tick h2)\<rparr>\<rparr>)) (src w3)"
    "Send (seek es f) \<lparr>out = [], limit = None\<rparr> f = (m, None, u)"
    "handleMem ed (ID (Cfg v)) ''final'' (out u) (dst (w\<lparr>src := h2\<lparr>tick := Suc (tick h2)\<rparr>\<rparr>)) = (Inr r, dst w3)" "status r = 200"
    by (rule sendMemFile_handled [OF s(1)])
  have "quiet (src w3) (src w4)" by (rule sendFile_ok [OF s(2)])
  moreover have "files (src w') = files (src w4)"
    using fz by (auto simp: postJSON_def act_simps split: if_splits dest!: peerDo_ok)
  ultimately show ?thesis using f(1,2) by (simp add: quiet_def)
qed

lemma migrateInner_leaves_final:
  assumes ok: "sender_ok V es"
    and base: "base_ok V a (src w)" and nl: "no_leftover (objs (src w) a) 1 (files (src w))"
    and len: "\<And>p. host_proc a (src w) p \<Longrightarrow> length (gmem V p) < 2 ^ 63"
    and mi: "migrateInner es ed a tgt rec w = (Inr rep, w')"
  shows "files (src w') (finalMemPath (objs (src w) a)) \<noteq> None"
proof -
  obtain v r w1 rep0 rec0 w2 l where pc: "precopy V a v r w1" and bo: "blackout es ed a rep0 rec0 w1 = (Inr rep, w2)"
    and w': "src w' = snd (setLevelE es l 0 (src w2))" and d: "vdir v = vdir (objs (src w) a)"
    "ID (Cfg v) = ID (Cfg (objs (src w) a))" "dst w' = dst w2"
    by (rule migrateInner_precopy [OF assms])
  have "files (src w') (finalMemPath v) \<noteq> None"
    using blackout_leaves_final [OF ok pc bo] quiet_setLevel_snd [of "src w2" es l 0] by (simp add: w' quiet_def)
  then show ?thesis using d by (simp add: finalMemPath_def)
qed

text \<open>
  C20: The final diff file survives the migration that wrote it: after a successful migration the
  source still holds \<open>final.mem\<close>, and preparing the same ID on that host for the way back does
  not remove it, so the next migration away from it starts with a leftover diff.
\<close>

theorem final_diff_survives:
  assumes "fc_contract V es" and "\<forall>f. length f < 2 ^ 63 \<longrightarrow> lseek_ok (seek es f) f"
    and "base_ok V a (src w)" and "no_leftover (objs (src w) a) 1 (files (src w))"
    and "\<forall>p. host_proc a (src w) p \<longrightarrow> length (gmem V p) < 2 ^ 63"
    and "vdir (objs (src w) a) = vmDir (cfg (src w)) i"
    and "migrateInner es ed a tgt rec w = (Inr rep, w')"
    and "handlePrepare e i dec (src w') = (Inr r, h)" and "status r = 200"
  shows "\<exists>b. vms h i = Some b \<and> files h (finalMemPath (objs h b)) \<noteq> None"
proof -
  have ok: "sender_ok V es" using assms(1,2) by (simp add: sender_ok_def)
  have f: "files (src w') (finalMemPath (objs (src w) a)) \<noteq> None"
    by (rule migrateInner_leaves_final [OF ok assms(3,4) _ assms(7)]) (use assms(5) in blast)
  have "src_frame a (src w) (src w')"
    using keepsD [OF keeps_migrateInner _ assms(7), of "src w"] by simp
  then have c: "cfg (src w') = cfg (src w)" by (simp add: src_frame_def)
  let ?a = "nextobj (src w')"
  obtain vc h1 h2 where vc: "dec = Inr vc" "ID vc = i"
    and sp: "spawnFirecracker e ?a ((src w')\<lparr>objs := (objs (src w'))(?a := fresh_slot (cfg (src w')) vc StateReceiving),
       nextobj := Suc ?a\<rparr>) = (Inr (), h1)"
    and h2: "h2 = h1\<lparr>files := (files h1)(recvMemPath (objs h1 ?a) \<mapsto> []), vms := (vms h1)(i \<mapsto> ?a)\<rparr>"
    and q: "quiet (case vms h1 i of None \<Rightarrow> h2 | Some b \<Rightarrow>
       (case proc (objs h1 b) of None \<Rightarrow> h2 | Some pid \<Rightarrow> h2\<lparr>procs := (procs h1)(pid := None)\<rparr>)) h"
    by (rule handlePrepare_ok [OF assms(8,9)])
  let ?v = "fresh_slot (cfg (src w')) vc StateReceiving"
  have o: "objs h1 ?a = ?v\<lparr>proc := Some (nextpid (src w')), api := Some (nextpid (src w'))\<rparr>"
    using spawnFirecracker_ok [OF sp] by simp
  have fp: "finalMemPath (objs h1 ?a) = finalMemPath (objs (src w) a)"
    using assms(6) vc(2) c by (simp add: o fresh_slot_def finalMemPath_def)
  have ne: "finalMemPath v \<noteq> sockPath v" "finalMemPath v \<noteq> logPath v" "finalMemPath v \<noteq> recvMemPath v" for v
    by (simp_all add: finalMemPath_def sockPath_def logPath_def recvMemPath_def Join_plain plain_name_def)
  have "finalMemPath ?v = finalMemPath (objs h1 ?a)" by (simp add: o finalMemPath_def)
  then have "files h1 (finalMemPath (objs h1 ?a)) = files (src w') (finalMemPath (objs h1 ?a))"
    using spawnFirecracker_frame [OF sp] ne [of ?v] by (simp add: spawn_frame_def)
  then have "files h (finalMemPath (objs h1 ?a)) \<noteq> None" "vms h i = Some ?a" "objs h ?a = objs h1 ?a"
    using q f fp ne(3) [of "objs h1 ?a"] by (auto simp: h2 quiet_def split: option.splits)
  then show ?thesis by metis
qed

lemma s_prepare:
  assumes "host_wf h"
  obtains r h' where "handlePrepare s_env ''vm0'' (Inr s_config) h = (Inr r, h')" "status r = 200"
proof -
  have id: "ID s_config = ''vm0''" by (simp add: s_config_def)
  have wf: "host_wf (dst \<lparr>src = h, dst = h\<rparr>)" using assms by simp
  obtain r w' where "postJSON s_env s_env ''vm0'' (RPrepare s_config) \<lparr>src = h, dst = h\<rparr> = (Inr r, w')" "dst_alive ''vm0'' w'"
    by (rule prepare_succ [OF s_happy s_happy wf id])
  then have "handlePrepare s_env ''vm0'' (Inr s_config) h = (Inr r, dst w')" "status r = 200"
    by (auto simp: postJSON_def peerDo_happy [OF s_happy] serve_def act_simps split: if_splits)
  then show ?thesis by (rule that)
qed

lemma host_wf_src_frame: "src_frame a h h' \<Longrightarrow> host_wf h \<Longrightarrow> host_wf h'"
proof -
  assume f: "src_frame a h h'" and wf: "host_wf h"
  have "proc (objs h' b) = proc (objs h b)" for b
    using f by (cases "b = a") (auto simp: src_frame_def)
  then show "host_wf h'" using f wf by (simp add: host_wf_def src_frame_def)
qed

theorem final_diff_survives_witness:
  "\<exists>rep w' r h b. migrateInner s_env s_env 0 ''host-b:7000'' \<lparr>events = []\<rparr> (s_world True) = (Inr rep, w') \<and>
     handlePrepare s_env ''vm0'' (Inr s_config) (src w') = (Inr r, h) \<and>
     vms h ''vm0'' = Some b \<and> files h (finalMemPath (objs h b)) \<noteq> None"
proof -
  obtain rep w' where m: "migrateInner s_env s_env 0 ''host-b:7000'' \<lparr>events = []\<rparr> (s_world True) = (Inr rep, w')"
    by (rule s_run)
  have "src_frame 0 (src (s_world True)) (src w')"
    using keepsD [OF keeps_migrateInner _ m, of "src (s_world True)"] by simp
  then have wf: "host_wf (src w')" by (rule host_wf_src_frame) (rule s_wf)
  obtain r h where p: "handlePrepare s_env ''vm0'' (Inr s_config) (src w') = (Inr r, h)" "status r = 200"
    by (rule s_prepare [OF wf])
  have d: "vdir (objs (src (s_world True)) 0) = vmDir (cfg (src (s_world True))) ''vm0''"
    by (simp add: s_vm_def vmDir_def Join_def s_world_def s_busy_def s_idle_def s_cfg_def Clean_def is_rooted_def clean_step_def)
  show ?thesis
    using m p(1) final_diff_survives [OF s_contract _ s_base _ _ d m p] by (simp add: s_clean s_procs)
qed


end
