(* ===== verification/Agent_Server.thy ===== *)
theory Agent_Server
  imports Agent_Migrate
begin

text \<open>
  The public API of the agent, \<open>internal/agent/server.go\<close>: creating, inspecting and deleting a
  VM, starting a migration, and the routes the agent serves. JSON bodies arrive decoded, with the
  decoder's error where there is one.
\<close>

record CreateVMRequest =
  ReqID :: string
  ReqVcpus :: int
  ReqMemMiB :: int
  ReqGuestMAC :: string
  ReqGuestCIDR :: string
  ReqGuestGW :: string
  ReqDirtyMBps :: int
  ReqScribBufMB :: int

record MigrateRequest =
  Target :: string

record vm_status =
  StID :: string
  StState :: string
  StHost :: string
  StCfg :: VMConfig

datatype api_body = ANone | AText gerror | AStatus vm_status | AReport Report

record api_response =
  code :: int
  abody :: api_body

definition api_error :: "int \<Rightarrow> gerror \<Rightarrow> ('s, api_response) act" where
  "api_error c err = retE \<lparr>code = c, abody = AText err\<rparr>"

definition api_reply :: "int \<Rightarrow> api_body \<Rightarrow> ('s, api_response) act" where
  "api_reply c b = retE \<lparr>code = c, abody = b\<rparr>"

definition orDefault :: "int \<Rightarrow> int \<Rightarrow> int" where
  "orDefault v def = (if v = 0 then def else v)"

definition orDefaultStr :: "string \<Rightarrow> string \<Rightarrow> string" where
  "orDefaultStr v def = (if v = '''' then def else v)"

text \<open>A fresh agent; the files that its runtime directory already holds are kept.\<close>

definition New :: "Config \<Rightarrow> fs \<Rightarrow> 'p host" where
  "New c fs = \<lparr>cfg = c, vms = Map.empty,
     objs = (\<lambda>_. \<lparr>Cfg = \<lparr>ID = '''', Vcpus = 0, MemMiB = 0, Kernel = '''', Rootfs = '''', TapDev = '''', GuestMAC = '''',
       GuestCIDR = '''', GuestGW = '''', DirtyMBps = 0, ScribBufMB = 0\<rparr>, vstate = StateZero, vdir = '''', proc = None,
       api = None, baseMem = '''', needsResync = False\<rparr>),
     nextobj = 0, procs = Map.empty, nextpid = 0, files = fs, throttle = NewThrottler,
     hub = newEventHub (HostName c), uplink = [], tick = 0\<rparr>"

definition create_config :: "Config \<Rightarrow> CreateVMRequest \<Rightarrow> VMConfig" where
  "create_config c req = \<lparr>ID = ReqID req, Vcpus = orDefault (ReqVcpus req) 2, MemMiB = orDefault (ReqMemMiB req) 256,
     Kernel = DefKernel c, Rootfs = DefRootfs c, TapDev = ''tap0'',
     GuestMAC = orDefaultStr (ReqGuestMAC req) ''06:00:ac:1e:00:32'',
     GuestCIDR = orDefaultStr (ReqGuestCIDR req) ''172.30.0.50/24'',
     GuestGW = orDefaultStr (ReqGuestGW req) ''172.30.0.1'',
     DirtyMBps = ReqDirtyMBps req, ScribBufMB = orDefault (ReqScribBufMB req) 64\<rparr>"

definition writeVMStatus :: "nat \<Rightarrow> ('p, api_response) host_act" where
  "writeVMStatus a = bindE (vmE a) (\<lambda>v. bindE (askE cfg) (\<lambda>c.
     api_reply 200 (AStatus \<lparr>StID = ID (Cfg v), StState = state_name (vstate v), StHost = HostName c, StCfg = Cfg v\<rparr>)))"

definition occupied :: "nat option \<Rightarrow> 'p host \<Rightarrow> bool" where
  "occupied old h = (case old of None \<Rightarrow> False
     | Some b \<Rightarrow> vstate (objs h b) \<noteq> StateMigrated \<and> vstate (objs h b) \<noteq> StateDead)"

definition handleCreateVM :: "'p env \<Rightarrow> gerror + CreateVMRequest \<Rightarrow> ('p, api_response) host_act" where
  "handleCreateVM e decoded =
     (case decoded of
        Inl err \<Rightarrow> api_error 400 (Wrap ''bad request: %w'' [] err)
      | Inr req \<Rightarrow>
          if ReqID req = '''' then api_error 400 (Err ''id is required'' [])
          else bindE (askE cfg) (\<lambda>c.
            bindE (newVM (fresh_slot c (create_config c req) StateZero)) (\<lambda>a.
            bindE (putVM_E a) (\<lambda>old.
            bindE (askE (occupied old)) (\<lambda>busy.
            if busy then thenE (modE (deleteVM (ReqID req))) (api_error 409 (Err ''vm already exists: %s'' [AStr (ReqID req)]))
            else orElse (boot e a)
              (\<lambda>err. thenE (kill a) (thenE (setState a StateDead) (api_error 500 (Wrap ''boot: %w'' [] err))))
              (\<lambda>_. thenE (publishE e ''vm.running'' (''%s'', [AStr (ReqID req)])) (writeVMStatus a)))))))"

definition handleGetVM :: "string \<Rightarrow> ('p, api_response) host_act" where
  "handleGetVM i = bindE (askE (getVM i)) (\<lambda>vm.
     case vm of None \<Rightarrow> api_error 404 (Err ''no such vm'' []) | Some a \<Rightarrow> writeVMStatus a)"

definition handleDeleteVM :: "'p env \<Rightarrow> string \<Rightarrow> ('p, api_response) host_act" where
  "handleDeleteVM e i = bindE (askE (getVM i)) (\<lambda>vm.
     thenE (case vm of None \<Rightarrow> retE ()
            | Some a \<Rightarrow> thenE (kill a) (thenE (setState a StateDead) (publishE e ''vm.deleted'' (''%s'', [AStr i]))))
    (thenE (modE (deleteVM i)) (api_reply 204 ANone)))"

definition handleMigrate ::
    "'p env \<Rightarrow> 'p env \<Rightarrow> string \<Rightarrow> gerror + MigrateRequest \<Rightarrow> ('p, api_response) world_act" where
  "handleMigrate es ed i decoded = bindE (onSrc (askE (getVM i))) (\<lambda>vm.
     case vm of
       None \<Rightarrow> api_error 404 (Err ''no such vm'' [])
     | Some a \<Rightarrow>
         (case decoded of
            Inl _ \<Rightarrow> api_error 400 (Err ''target is required'' [])
          | Inr req \<Rightarrow>
              if Target req = '''' then api_error 400 (Err ''target is required'' [])
              else bindE (tryE (migrate es ed a (Target req))) (\<lambda>r.
                case r of
                  Inl err \<Rightarrow> api_error 500 (Wrap ''migrate: %w'' [] err)
                | Inr rep \<Rightarrow> api_reply 200 (AReport rep))))"

section \<open>Evaluation\<close>

lemma api_error_run [act_simps]:
  "api_error c err s = (r, s') \<longleftrightarrow> r = Inr \<lparr>code = c, abody = AText err\<rparr> \<and> s' = s"
  by (auto simp: api_error_def act_simps)

lemma api_reply_run [act_simps]:
  "api_reply c b s = (r, s') \<longleftrightarrow> r = Inr \<lparr>code = c, abody = b\<rparr> \<and> s' = s"
  by (auto simp: api_reply_def act_simps)

lemma writeVMStatus_run [act_simps]:
  "writeVMStatus a h = (r, h') \<longleftrightarrow> h' = h \<and> r = Inr \<lparr>code = 200, abody = AStatus \<lparr>StID = ID (Cfg (objs h a)),
     StState = state_name (vstate (objs h a)), StHost = HostName (cfg h), StCfg = Cfg (objs h a)\<rparr>\<rparr>"
  by (auto simp: writeVMStatus_def bindE_def vmE_def askE_def api_reply_def retE_def)

lemma orElse_run:
  "orElse m bad good h = (case m h of (Inl err, h1) \<Rightarrow> bad err h1 | (Inr x, h1) \<Rightarrow> good x h1)"
  by (auto simp: orElse_def bindE_def tryE_def split: prod.splits sum.splits)

end
