(* ===== verification/Agent_Life.thy ===== *)
theory Agent_Life
  imports Agent_Server Migrate_Outcome
begin

text \<open>
  The agent as a state machine: any sequence of API requests and of requests from peers, each
  handled as a whole. The invariant of the reachable states says that slots, processes and the
  registry fit together; the abstract specification sees only, per ID, the state and the
  configuration of the slot that holds it.
\<close>

section \<open>Steps\<close>

datatype request = Create "gerror + CreateVMRequest" | Get string | Delete string
  | Migrate string "gerror + MigrateRequest" | Peer string peer_req "gerror option"

inductive agent_step :: "request \<Rightarrow> 'p host \<Rightarrow> 'p host \<Rightarrow> bool" where
  create: "handleCreateVM e dec h = (r, h') \<Longrightarrow> agent_step (Create dec) h h'"
| get: "handleGetVM i h = (r, h') \<Longrightarrow> agent_step (Get i) h h'"
| delete: "handleDeleteVM e i h = (r, h') \<Longrightarrow> agent_step (Delete i) h h'"
| migrate: "handleMigrate es ed i dec \<lparr>src = h, dst = d\<rparr> = (r, w') \<Longrightarrow> agent_step (Migrate i dec) h (src w')"
| peer: "serve e i req broken h = (r, h') \<Longrightarrow> agent_step (Peer i req broken) h h'"

inductive_cases agent_stepE: "agent_step req h h'"

inductive agent_reach :: "Config \<Rightarrow> fs \<Rightarrow> 'p host \<Rightarrow> bool" for c fs where
  init: "agent_reach c fs (New c fs)"
| step: "agent_reach c fs h \<Longrightarrow> agent_step req h h' \<Longrightarrow> agent_reach c fs h'"

section \<open>The invariant\<close>

definition live :: "'p host \<Rightarrow> nat \<Rightarrow> bool" where
  "live h a \<longleftrightarrow> (\<exists>pid. proc (objs h a) = Some pid \<and> procs h pid \<noteq> None)"

definition needs_process :: "VMState \<Rightarrow> bool" where
  "needs_process s \<longleftrightarrow> s \<in> {StateRunning, StateMigrating, StateReceiving}"

definition slot_ok :: "'p host \<Rightarrow> nat \<Rightarrow> bool" where
  "slot_ok h a \<longleftrightarrow> vdir (objs h a) = vmDir (cfg h) (ID (Cfg (objs h a))) \<and> api (objs h a) = proc (objs h a) \<and>
     (\<forall>pid. proc (objs h a) = Some pid \<longrightarrow> pid < nextpid h \<and> registered (throttle h) (ID (Cfg (objs h a))))"

definition owners_distinct :: "'p host \<Rightarrow> bool" where
  "owners_distinct h \<longleftrightarrow> (\<forall>a<nextobj h. \<forall>b<nextobj h. \<forall>pid.
     proc (objs h a) = Some pid \<longrightarrow> proc (objs h b) = Some pid \<longrightarrow> a = b)"

definition agent_inv :: "'p host \<Rightarrow> bool" where
  "agent_inv h \<longleftrightarrow> (\<forall>a<nextobj h. slot_ok h a) \<and> owners_distinct h \<and> (\<forall>pid\<ge>nextpid h. procs h pid = None) \<and>
     (\<forall>i a. vms h i = Some a \<longrightarrow> a < nextobj h \<and> ID (Cfg (objs h a)) = i \<and>
        (needs_process (vstate (objs h a)) \<longrightarrow> live h a))"

lemma agent_inv_wf: "agent_inv h \<Longrightarrow> host_wf h"
  by (auto simp: agent_inv_def host_wf_def slot_ok_def)

lemma agent_inv_slot: "agent_inv h \<Longrightarrow> vms h i = Some a \<Longrightarrow> a < nextobj h \<and> ID (Cfg (objs h a)) = i"
  by (auto simp: agent_inv_def)

text \<open>What leaves the slots alone: files, clock, events, and the inside of processes.\<close>

definition calm :: "'p host \<Rightarrow> 'p host \<Rightarrow> bool" where
  "calm h h' \<longleftrightarrow> cfg h' = cfg h \<and> vms h' = vms h \<and> objs h' = objs h \<and> nextobj h' = nextobj h \<and>
     nextpid h' = nextpid h \<and> pids (throttle h') = pids (throttle h) \<and>
     (\<forall>pid. (procs h' pid = None) = (procs h pid = None))"

lemma calm_refl [simp, intro]: "calm h h"
  by (simp add: calm_def)

lemma calm_trans: "calm h h1 \<Longrightarrow> calm h1 h2 \<Longrightarrow> calm h h2"
  by (simp add: calm_def)

lemma calm_quiet: "quiet h h' \<Longrightarrow> calm h h'"
  by (simp add: calm_def quiet_def)

lemma calm_api: "apiE e a c h = (r, h') \<Longrightarrow> calm h h'"
  by (drule apiE_frame) (simp add: calm_def api_frame_def)

lemma live_calm: "calm h h' \<Longrightarrow> live h' a = live h a"
  by (simp add: live_def calm_def)

lemma agent_inv_calm: "calm h h' \<Longrightarrow> agent_inv h' = agent_inv h"
  by (auto simp: agent_inv_def slot_ok_def owners_distinct_def live_calm registered_def)
    (simp_all add: calm_def)

section \<open>Changes of single slots\<close>

abbreviation upd_slot :: "nat \<Rightarrow> (VM \<Rightarrow> VM) \<Rightarrow> 'p host \<Rightarrow> 'p host" where
  "upd_slot a f h \<equiv> h\<lparr>objs := (objs h)(a := f (objs h a))\<rparr>"

definition keeps_identity :: "(VM \<Rightarrow> VM) \<Rightarrow> bool" where
  "keeps_identity f \<longleftrightarrow> (\<forall>v. Cfg (f v) = Cfg v \<and> vdir (f v) = vdir v \<and> proc (f v) = proc v \<and> api (f v) = api v)"

lemma inv_upd_slot:
  assumes inv: "agent_inv h" and f: "keeps_identity f" and l: "needs_process (vstate (f (objs h a))) \<Longrightarrow> live h a"
  shows "agent_inv (upd_slot a f h)"
proof -
  have e: "Cfg (objs (upd_slot a f h) b) = Cfg (objs h b)" "proc (objs (upd_slot a f h) b) = proc (objs h b)" for b
    using f by (auto simp: keeps_identity_def)
  have sl: "slot_ok (upd_slot a f h) b = slot_ok h b" "live (upd_slot a f h) b = live h b" for b
    using f by (auto simp: slot_ok_def live_def keeps_identity_def)
  have "owners_distinct (upd_slot a f h)"
    using inv unfolding agent_inv_def owners_distinct_def e by simp
  moreover have "needs_process (vstate (objs (upd_slot a f h) b)) \<longrightarrow> live h b" if "vms h i = Some b" for i b
    using inv l that by (cases "b = a") (auto simp: agent_inv_def)
  ultimately show ?thesis
    using inv unfolding agent_inv_def sl e by simp
qed

lemma inv_new:
  assumes inv: "agent_inv h"
  shows "agent_inv (h\<lparr>objs := (objs h)(nextobj h := fresh_slot (cfg h) vc s), nextobj := Suc (nextobj h)\<rparr>)" (is "agent_inv ?h")
proof -
  have sl: "slot_ok ?h b = slot_ok h b" "live ?h b = live h b" if "b < nextobj h" for b
    using that by (auto simp: slot_ok_def live_def)
  moreover have "slot_ok ?h (nextobj h)" by (simp add: slot_ok_def fresh_slot_def)
  moreover have "owners_distinct ?h"
    using inv by (auto simp: agent_inv_def owners_distinct_def fresh_slot_def less_Suc_eq)
  moreover have "b < Suc (nextobj h) \<and> ID (Cfg (objs ?h b)) = i \<and> (needs_process (vstate (objs ?h b)) \<longrightarrow> live ?h b)"
    if "vms h i = Some b" for i b
  proof -
    have b: "b < nextobj h" "ID (Cfg (objs h b)) = i \<and> (needs_process (vstate (objs h b)) \<longrightarrow> live h b)"
      using inv that by (auto simp: agent_inv_def)
    then show ?thesis using sl(2) [OF b(1)] by simp
  qed
  ultimately show ?thesis
    using inv unfolding agent_inv_def by (simp add: less_Suc_eq)
qed

lemma inv_del: "agent_inv h \<Longrightarrow> agent_inv (deleteVM i h)"
  by (auto simp: agent_inv_def deleteVM_def slot_ok_def owners_distinct_def live_def)

lemma inv_put:
  assumes "agent_inv h" and "a < nextobj h" and "needs_process (vstate (objs h a)) \<Longrightarrow> live h a"
  shows "agent_inv (h\<lparr>vms := (vms h)(ID (Cfg (objs h a)) \<mapsto> a)\<rparr>)"
  using assms by (auto simp: agent_inv_def slot_ok_def owners_distinct_def live_def)

text \<open>A slot whose process is killed must leave the registry or a state that needs one.\<close>

definition killed :: "nat \<Rightarrow> 'p host \<Rightarrow> 'p host" where
  "killed a h = snd (kill a h)"

lemma kill_fields:
  "cfg (killed a h) = cfg h" "vms (killed a h) = vms h" "objs (killed a h) = objs h" "nextobj (killed a h) = nextobj h"
  "nextpid (killed a h) = nextpid h" "throttle (killed a h) = throttle h"
  "procs (killed a h) pid = (if proc (objs h a) = Some pid then None else procs h pid)"
  by (auto simp: killed_def kill_def modE_def split: option.splits)

lemma killed_objs: "(killed a h)\<lparr>objs := objs h\<rparr> = killed a h"
  by (subst kill_fields(3) [symmetric, of h a]) simp

lemma live_kill:
  "agent_inv h \<Longrightarrow> a < nextobj h \<Longrightarrow> b < nextobj h \<Longrightarrow> b \<noteq> a \<Longrightarrow> live (killed a h) b = live h b"
proof -
  assume h: "agent_inv h" "a < nextobj h" "b < nextobj h" "b \<noteq> a"
  then have "\<not> (proc (objs h a) = Some pid \<and> proc (objs h b) = Some pid)" for pid
    unfolding agent_inv_def owners_distinct_def by metis
  then show "live (killed a h) b = live h b" by (auto simp: live_def kill_fields)
qed

lemma inv_kill:
  assumes inv: "agent_inv h" and a: "a < nextobj h" and m: "vms h' = vms h \<or> (\<exists>i. vms h' = (vms h)(i := None))"
    and f: "cfg h' = cfg h" "nextobj h' = nextobj h" "nextpid h' = nextpid h" "throttle h' = throttle h" "procs h' = procs (killed a h)"
    and o: "objs h' = (objs h)(a := f (objs h a))" "keeps_identity f"
    and gone: "\<And>i. vms h' i = Some a \<Longrightarrow> \<not> needs_process (vstate (f (objs h a)))"
  shows "agent_inv h'"
proof -
  have sl: "slot_ok h' b = slot_ok h b" "proc (objs h' b) = proc (objs h b)" for b
    using f o by (auto simp: slot_ok_def keeps_identity_def)
  have lv: "live h' b = live (killed a h) b" for b
    using f sl(2) by (simp add: live_def kill_fields)
  have reg: "b < nextobj h' \<and> ID (Cfg (objs h' b)) = i \<and> (needs_process (vstate (objs h' b)) \<longrightarrow> live h' b)"
    if "vms h' i = Some b" for i b
  proof -
    have "vms h i = Some b" using m that by (auto split: if_splits)
    then have b: "b < nextobj h" "ID (Cfg (objs h b)) = i" "needs_process (vstate (objs h b)) \<longrightarrow> live h b"
      using inv by (auto simp: agent_inv_def)
    then show ?thesis
    proof (cases "b = a")
      case True
      then show ?thesis using gone that b o f by (auto simp: keeps_identity_def)
    next
      case False
      then show ?thesis using b live_kill [OF inv a b(1)] o f by (simp add: lv)
    qed
  qed
  show ?thesis
    unfolding agent_inv_def
  proof (intro conjI allI impI)
    show "slot_ok h' b" if "b < nextobj h'" for b using inv that f sl by (simp add: agent_inv_def)
    show "owners_distinct h'" using inv f unfolding agent_inv_def owners_distinct_def sl(2) by auto
    show "procs h' pid = None" if "nextpid h' \<le> pid" for pid using inv that f by (simp add: agent_inv_def kill_fields)
  qed (use reg in blast)+
qed

section \<open>Actions that leave the slots alone\<close>

named_theorems calm_rules \<open>actions that keep \<open>calm\<close>\<close>

lemma calm_files [simp]: "calm h0 (h\<lparr>files := fs\<rparr>) = calm h0 h" "calm h0 (h\<lparr>tick := t\<rparr>) = calm h0 h"
  "calm h0 (h\<lparr>uplink := u\<rparr>) = calm h0 h" "calm h0 (h\<lparr>hub := hb\<rparr>) = calm h0 h"
  by (simp_all add: calm_def)

lemma keeps_calmI: "(\<And>h r h'. m h = (r, h') \<Longrightarrow> calm h h') \<Longrightarrow> keeps (calm h0) m"
  by (rule keepsI) (blast intro: calm_trans)

lemma keeps_calmD: "(\<And>h0. keeps (calm h0) m) \<Longrightarrow> m h = (r, h') \<Longrightarrow> calm h h'"
  by (meson calm_refl keepsD)

lemma calm_effects [calm_rules]:
  "keeps (calm h0) tickE" "keeps (calm h0) (vmE a)" "keeps (calm h0) (nowE e)" "keeps (calm h0) (osE e)" "keeps (calm h0) (publishE e k msg)" "keeps (calm h0) (setLevelE e v l)" "keeps (calm h0) (markE e n rec)"
  "keeps (calm h0) (waitReadyE e)" "keeps (calm h0) (waitGuestReady e a)" "keeps (calm h0) (announce e vc)"
  by (auto intro!: keeps_calmI calm_quiet simp: act_simps waitReadyE_run
      dest: quiet_publish quiet_setLevel quiet_announce)
    (simp_all add: quiet_def waitGuestReady_def bindE_def vmE_def askE_def tickE_def Let_def split: prod.splits)

lemma calm_apiE [calm_rules]: "keeps (calm h0) (apiE e a c)"
  by (rule keeps_calmI) (rule calm_api)

lemma calm_modE: "(\<And>h. calm h (f h)) \<Longrightarrow> keeps (calm h0) (modE f)"
  by (rule keeps_calmI) (auto simp: act_simps)

lemma calm_file_ops [calm_rules]:
  "keeps (calm h0) (openE e p)" "keeps (calm h0) (createE e p)" "keeps (calm h0) (removeE e p)" "keeps (calm h0) (renameE e p q)"
  "keeps (calm h0) (removeAllE e p)" "keeps (calm h0) (writeE p f)"
  unfolding writeE_def openE_def createE_def removeE_def renameE_def removeAllE_def
  by (auto intro!: calm_rules triple_rules calm_modE split: option.split)

lemma calm_ignore [calm_rules]: "keeps (calm h0) m \<Longrightarrow> keeps (calm h0) (ignoreE m)"
  unfolding ignoreE_def by (intro triple_rules)

lemma calm_http [calm_rules]: "keeps (calm h0) (http_error c err)" "keeps (calm h0) (http_ok b)"
  "keeps (calm h0) (api_error c err)" "keeps (calm h0) (api_reply c x)" "keeps (calm h0) (writeVMStatus a)"
  unfolding http_error_def http_ok_def api_error_def api_reply_def writeVMStatus_def by (intro calm_rules triple_rules)+

lemma keeps_orElse [calm_rules]:
  "keeps P m \<Longrightarrow> (\<And>err. keeps P (bad err)) \<Longrightarrow> (\<And>x. keeps P (good x)) \<Longrightarrow> keeps P (orElse m bad good)"
  unfolding orElse_def by (intro triple_rules) (auto split: sum.split)

lemmas calm_steps = calm_rules triple_rules

section \<open>Starting and booting a slot\<close>

text \<open>\<open>work h0 a s lv h\<close>: since \<open>h0\<close> only slot \<open>a\<close> has changed; it is in state \<open>s\<close>, with a process if \<open>lv\<close>.\<close>

definition work :: "'p host \<Rightarrow> nat \<Rightarrow> VMState \<Rightarrow> bool \<Rightarrow> 'p host \<Rightarrow> bool" where
  "work h0 a s lv h \<longleftrightarrow> agent_inv h \<and> a < nextobj h \<and> cfg h = cfg h0 \<and> vms h = vms h0 \<and> nextobj h = nextobj h0 \<and>
     (\<forall>b. b \<noteq> a \<longrightarrow> objs h b = objs h0 b) \<and> Cfg (objs h a) = Cfg (objs h0 a) \<and> vstate (objs h a) = s \<and>
     (lv \<longrightarrow> live h a)"

lemma work_calm: "calm h h' \<Longrightarrow> work h0 a s lv h' = work h0 a s lv h"
  by (simp add: work_def agent_inv_calm live_calm) (simp add: calm_def)

lemma work_triple:
  assumes "\<And>h0. keeps (calm h0) m" and "lv' \<Longrightarrow> lv"
  shows "triple (work h0 a s lv) m (\<lambda>_. work h0 a s lv) (work h0 a s lv')"
proof (rule tripleI)
  fix h x h' assume "work h0 a s lv h" "m h = (Inr x, h')"
  then show "work h0 a s lv h'" using keeps_calmD [OF assms(1)] work_calm by metis
next
  fix h e h' assume "work h0 a s lv h" "m h = (Inl e, h')"
  then have "work h0 a s lv h'" using keeps_calmD [OF assms(1)] work_calm by metis
  then show "work h0 a s lv' h'" using assms(2) by (auto simp: work_def)
qed

lemma work_any: "work h0 a s True h \<Longrightarrow> work h0 a s lv h"
  by (simp add: work_def)

lemma inv_attach:
  assumes inv: "agent_inv h" and a: "a < nextobj h" and at: "attach e a h = (r, h')"
  shows "agent_inv h' \<and> live h' a"
proof -
  let ?v = "objs h a" let ?n = "nextpid h"
  have h': "h' = h\<lparr>procs := (procs h)(?n \<mapsto> spawned e (ID (Cfg ?v))), nextpid := Suc ?n,
      throttle := Register (ID (Cfg ?v)) ?n (throttle h), objs := (objs h)(a := ?v\<lparr>proc := Some ?n, api := Some ?n\<rparr>)\<rparr>"
    using at by (simp add: attach_run)
  have reg: "registered (throttle h') i" if "registered (throttle h) i \<or> i = ID (Cfg ?v)" for i
    using that by (auto simp: h' registered_def Register_def)
  have lt: "pid < ?n" if "b < nextobj h" "proc (objs h b) = Some pid" for b pid
    using inv that by (auto simp: agent_inv_def slot_ok_def)
  have sl: "slot_ok h' b" if "b < nextobj h" for b
  proof -
    have "slot_ok h b" using inv that by (simp add: agent_inv_def)
    then show ?thesis
      using reg by (auto simp: slot_ok_def h')
  qed
  have la: "live h' a" by (simp add: live_def h')
  have lv: "live h' b" if "b < nextobj h" "live h b" for b
    using that la by (cases "b = a") (auto simp: live_def h')
  have "owners_distinct h'"
    unfolding owners_distinct_def
  proof (intro allI impI)
    fix b c pid assume b: "b < nextobj h'" "c < nextobj h'" "proc (objs h' b) = Some pid" "proc (objs h' c) = Some pid"
    show "b = c"
    proof (cases "b = a \<or> c = a")
      case True
      then show ?thesis using b lt [of b] lt [of c] by (auto simp: h' split: if_splits)
    next
      case False
      then show ?thesis using b inv unfolding agent_inv_def owners_distinct_def by (simp add: h')
    qed
  qed
  moreover have "b < nextobj h' \<and> ID (Cfg (objs h' b)) = i \<and> (needs_process (vstate (objs h' b)) \<longrightarrow> live h' b)"
    if "vms h' i = Some b" for i b
  proof -
    have "vms h i = Some b" using that by (simp add: h')
    then have b: "b < nextobj h" "ID (Cfg (objs h b)) = i" "needs_process (vstate (objs h b)) \<longrightarrow> live h b"
      using inv by (auto simp: agent_inv_def)
    then show ?thesis using la lv [OF b(1)] by (cases "b = a") (auto simp: h')
  qed
  moreover have "\<forall>pid\<ge>nextpid h'. procs h' pid = None"
    using inv by (simp add: agent_inv_def h')
  ultimately show ?thesis
    using sl la by (simp add: agent_inv_def h')
qed

lemma work_attach: "triple (work h0 a s lv) (attach e a) (\<lambda>_. work h0 a s True) (work h0 a s lv)"
proof (rule tripleI)
  fix h x h' assume "work h0 a s lv h" "attach e a h = (Inr x, h')"
  then show "work h0 a s True h'"
    using inv_attach [of h a e "Inr x" h'] by (auto simp: work_def attach_run)
qed (simp add: attach_run)

lemma work_spawn: "triple (work h0 a s False) (spawnFirecracker e a) (\<lambda>_. work h0 a s True) (work h0 a s False)"
  unfolding spawnFirecracker_def
  by (rule triple_bind [OF work_triple] triple_bind [OF work_attach] work_triple | intro calm_steps | simp)+

lemma work_setVM:
  assumes "keeps_identity f" and "\<And>v. vstate v = s \<Longrightarrow> vstate (f v) = s'" and "needs_process s' \<Longrightarrow> lv"
  shows "triple (work h0 a s lv) (setVM a f) (\<lambda>_. work h0 a s' lv) E"
proof (rule tripleI)
  fix h x h' assume w: "work h0 a s lv h" and "setVM a f h = (Inr x, h')"
  then have h': "h' = upd_slot a f h" by (simp add: act_simps)
  have f: "Cfg (f v) = Cfg v" "proc (f v) = proc v" for v
    using assms(1) by (simp_all add: keeps_identity_def)
  have "agent_inv h'"
    unfolding h' by (rule inv_upd_slot) (use w assms in \<open>auto simp: work_def\<close>)
  then show "work h0 a s' lv h'"
    using w assms(2) by (simp add: work_def h' f live_def)
qed (simp add: act_simps)

lemma work_setState:
  "(needs_process s' \<Longrightarrow> lv) \<Longrightarrow> triple (work h0 a s lv) (setState a s') (\<lambda>_. work h0 a s' lv) E"
  unfolding setState_def by (rule work_setVM) (simp_all add: keeps_identity_def)

lemma work_boot:
  "triple (work h0 a s False) (boot e a) (\<lambda>_. work h0 a StateRunning True) (work h0 a StateBooting False)"
  unfolding boot_def
  by (rule triple_bind [OF work_setState] triple_bind [OF work_spawn] work_setState
      triple_bind [OF work_setVM [where s = StateBooting and s' = StateBooting]]
      triple_bind [OF work_triple] | intro calm_steps | simp add: needs_process_def keeps_identity_def)+

section \<open>The specification\<close>

text \<open>Per ID, the state and the configuration of the slot that holds it.\<close>

type_synonym slots = "string \<Rightarrow> (VMState \<times> VMConfig) option"

definition absm :: "'p host \<Rightarrow> slots" where
  "absm h i = map_option (\<lambda>a. (vstate (objs h a), Cfg (objs h a))) (vms h i)"

definition settled :: "(VMState \<times> VMConfig) option \<Rightarrow> bool" where
  "settled x = (case x of None \<Rightarrow> True | Some (s, _) \<Rightarrow> s = StateMigrated \<or> s = StateDead)"

text \<open>What each request may do to the table of slots.\<close>

fun spec_next :: "Config \<Rightarrow> request \<Rightarrow> slots \<Rightarrow> slots \<Rightarrow> bool" where
  "spec_next c (Create (Inl _)) m m' = (m' = m)"
| "spec_next c (Create (Inr req)) m m' =
     (if ReqID req = '''' then m' = m
      else if settled (m (ReqID req)) then
        \<exists>s \<in> {StateRunning, StateDead}. m' = m(ReqID req \<mapsto> (s, create_config c req))
      else m' = m(ReqID req := None))"
| "spec_next c (Get _) m m' = (m' = m)"
| "spec_next c (Delete i) m m' = (m' = m(i := None))"
| "spec_next c (Migrate i _) m m' =
     (m' = m \<or> (\<exists>vc. m i = Some (StateRunning, vc) \<and>
        (\<exists>s \<in> {StateMigrated, StateDead}. m' = m(i \<mapsto> (s, vc)))))"
| "spec_next c (Peer i (RPrepare vc) _) m m' = (m' = m \<or> ID vc = i \<and> m' = m(i \<mapsto> (StateReceiving, vc)))"
| "spec_next c (Peer i (RMem _ _) _) m m' = (m' = m)"
| "spec_next c (Peer i (RVMState _) _) m m' = (m' = m)"
| "spec_next c (Peer i RFinalize _) m m' =
     (m' = m \<or> (\<exists>vc. m i = Some (StateReceiving, vc) \<and> m' = m(i \<mapsto> (StateRunning, vc))))"
| "spec_next c (Peer i RAbort _) m m' =
     (if \<exists>vc. m i = Some (StateReceiving, vc) then m' = m(i := None) else m' = m)"

lemma absm_calm: "calm h h' \<Longrightarrow> absm h' = absm h"
  by (rule ext) (simp add: absm_def calm_def)

text \<open>Simulation of one handler: the invariant, the configuration, and the abstract table.\<close>

definition simulates :: "(slots \<Rightarrow> slots \<Rightarrow> bool) \<Rightarrow> 'p host \<Rightarrow> 'p host \<Rightarrow> bool" where
  "simulates S h h' \<longleftrightarrow> agent_inv h' \<and> cfg h' = cfg h \<and> S (absm h) (absm h')"

lemma simulates_calm: "agent_inv h \<Longrightarrow> calm h h' \<Longrightarrow> S (absm h) (absm h) \<Longrightarrow> simulates S h h'"
  by (simp add: simulates_def agent_inv_calm absm_calm) (simp add: calm_def)

lemma simulates_then_calm: "simulates S h h1 \<Longrightarrow> calm h1 h' \<Longrightarrow> simulates S h h'"
  by (simp add: simulates_def agent_inv_calm absm_calm) (simp add: calm_def)

text \<open>Objects outside a slot do not show in the table of the other IDs.\<close>

lemma absm_upd:
  assumes "agent_inv h" and "vms h i = Some a" and "\<And>b. b \<noteq> a \<Longrightarrow> objs h' b = objs h b" and "vms h' = vms h"
  shows "absm h' = (absm h)(i \<mapsto> (vstate (objs h' a), Cfg (objs h' a)))"
proof (rule ext)
  fix j
  show "absm h' j = ((absm h)(i \<mapsto> (vstate (objs h' a), Cfg (objs h' a)))) j"
  proof (cases "j = i")
    case False
    then have "vms h j \<noteq> Some a" using agent_inv_slot [OF assms(1)] assms(2) by blast
    then show ?thesis using False assms(3,4) by (cases "vms h j") (auto simp: absm_def)
  qed (simp add: absm_def assms(2,4))
qed

section \<open>The handlers simulate the specification\<close>

text \<open>A request for a body the slots never see.\<close>

lemma calm_withReceiving [calm_rules]:
  "(\<And>a. keeps (calm h0) (k a)) \<Longrightarrow> keeps (calm h0) (withReceiving i k)"
  unfolding withReceiving_def by (intro calm_steps) (auto intro: calm_steps split: option.split)

lemma calm_handleMem: "keeps (calm h0) (handleMem e i round bs)"
  unfolding handleMem_def by (intro calm_rules calm_steps) (auto intro!: calm_rules calm_steps split: prod.split option.split)

lemma calm_handleVMState: "keeps (calm h0) (handleVMState e i bs broken)"
  unfolding handleVMState_def by (intro calm_rules calm_steps) (auto intro!: calm_rules calm_steps split: option.split)

lemma calm_handleGetVM: "keeps (calm h0) (handleGetVM i)"
  unfolding handleGetVM_def by (intro calm_steps) (auto intro!: calm_rules calm_steps split: option.split)

text \<open>Killing a slot and giving it a state without a process.\<close>

lemma simulates_kill:
  assumes inv: "agent_inv h" and v: "vms h i = Some a" and s: "\<not> needs_process s" "\<And>m. S m (m(i \<mapsto> (s, Cfg (objs h a))))"
  shows "simulates S h ((killed a h)\<lparr>objs := (objs h)(a := (objs h a)\<lparr>vstate := s\<rparr>)\<rparr>)" (is "simulates S h ?h")
proof -
  have a: "a < nextobj h" using agent_inv_slot [OF inv v] by simp
  have "agent_inv ?h"
    by (rule inv_kill [OF inv a, of _ "vstate_update (\<lambda>_. s)"]) (simp_all add: kill_fields keeps_identity_def s(1))
  moreover have "absm ?h = (absm h)(i \<mapsto> (s, Cfg (objs h a)))"
    using absm_upd [OF inv v, of ?h] by (simp add: kill_fields)
  ultimately show ?thesis using s(2) by (simp add: simulates_def kill_fields)
qed

lemma simulates_drop:
  assumes inv: "agent_inv h" and v: "vms h i = Some a" and f: "keeps_identity f"
  shows "simulates (\<lambda>m m'. m' = m(i := None)) h (deleteVM i ((killed a h)\<lparr>objs := (objs h)(a := f (objs h a))\<rparr>))"
    (is "simulates _ h ?h")
proof -
  have a: "a < nextobj h" "ID (Cfg (objs h a)) = i" using agent_inv_slot [OF inv v] by simp_all
  have other: "vms h j \<noteq> Some a" if "j \<noteq> i" for j
    using agent_inv_slot [OF inv, of j a] a(2) that by auto
  have "agent_inv ?h"
    by (rule inv_kill [OF inv a(1), of _ f])
      (use f other in \<open>auto simp: kill_fields deleteVM_def split: if_splits\<close>)
  moreover have "absm ?h = (absm h)(i := None)"
  proof (rule ext)
    fix j
    show "absm ?h j = ((absm h)(i := None)) j"
      using other [of j] by (cases "vms h j") (auto simp: absm_def kill_fields deleteVM_def)
  qed
  ultimately show ?thesis by (simp add: simulates_def kill_fields deleteVM_def)
qed

lemma simulates_none:
  assumes "agent_inv h" and "vms h i = None"
  shows "simulates (\<lambda>m m'. m' = m(i := None)) h (deleteVM i h)"
proof -
  have "absm (deleteVM i h) = (absm h)(i := None)" by (auto simp: absm_def deleteVM_def)
  then show ?thesis using inv_del [OF assms(1)] by (simp add: simulates_def deleteVM_def)
qed

lemma kill_is: "kill a h = (Inr (), killed a h)"
  by (simp add: killed_def kill_def modE_def)

lemma calm_deleteVM: "calm h h' \<Longrightarrow> calm (deleteVM i h) (deleteVM i h')"
  by (simp add: calm_def deleteVM_def)

lemma delete_simulates:
  assumes inv: "agent_inv h" and d: "handleDeleteVM e i h = (r, h')"
  shows "simulates (\<lambda>m m'. m' = m(i := None)) h h'"
proof (cases "vms h i")
  case None
  then have "h' = deleteVM i h"
    using d by (simp add: handleDeleteVM_def bindE_def askE_def getVM_def modE_def retE_def api_reply_def)
  then show ?thesis using simulates_none [OF inv None] by simp
next
  case (Some a)
  let ?h1 = "(killed a h)\<lparr>objs := (objs h)(a := (objs h a)\<lparr>vstate := StateDead\<rparr>)\<rparr>"
  obtain q h2 where p: "publishE e ''vm.deleted'' (''%s'', [AStr i]) ?h1 = (q, h2)" by fastforce
  have "q = Inr ()" "calm ?h1 h2" using quiet_publish [OF p] by (simp_all add: calm_quiet)
  moreover have "h' = deleteVM i h2"
    using d p \<open>q = Inr ()\<close> Some
    by (simp add: handleDeleteVM_def bindE_def askE_def getVM_def modE_def retE_def api_reply_def kill_is
        setState_def setVM_def kill_fields)
  ultimately show ?thesis
    using simulates_then_calm [OF simulates_drop [OF inv Some, of "vstate_update (\<lambda>_. StateDead)"] calm_deleteVM]
    by (simp add: keeps_identity_def)
qed

lemma work_absm:
  assumes "work h0 a s lv h" and "agent_inv h0" and "vms h0 i = Some a"
  shows "absm h = (absm h0)(i \<mapsto> (s, Cfg (objs h0 a)))" and "vms h i = Some a" and "agent_inv h"
    and "cfg h = cfg h0" and "Cfg (objs h a) = Cfg (objs h0 a)"
  using assms(1) absm_upd [OF assms(2,3), of h] assms(3) by (simp_all add: work_def)

lemma boot_work:
  assumes "work h0 a s False h"
  shows "boot e a h = (Inl err, h') \<Longrightarrow> work h0 a StateBooting False h'"
    and "boot e a h = (Inr x, h') \<Longrightarrow> work h0 a StateRunning True h'"
  by (rule triple_errD [OF work_boot assms], assumption) (rule triple_okD [OF work_boot assms])

abbreviation create_start :: "CreateVMRequest \<Rightarrow> 'p host \<Rightarrow> 'p host" where
  "create_start req h \<equiv> h\<lparr>objs := (objs h)(nextobj h := fresh_slot (cfg h) (create_config (cfg h) req) StateZero),
     nextobj := Suc (nextobj h), vms := (vms h)(ReqID req \<mapsto> nextobj h)\<rparr>"

lemma create_start_ok:
  assumes inv: "agent_inv h"
  shows "agent_inv (create_start req h)" and "work (create_start req h) (nextobj h) StateZero False (create_start req h)"
    and "absm (create_start req h) = (absm h)(ReqID req \<mapsto> (StateZero, create_config (cfg h) req))"
    and "occupied (vms h (ReqID req)) (create_start req h) = (\<not> settled (absm h (ReqID req)))"
proof -
  let ?a = "nextobj h" let ?vc = "create_config (cfg h) req"
  have id: "ID ?vc = ReqID req" by (simp add: create_config_def)
  show inv2: "agent_inv (create_start req h)"
    using inv_put [OF inv_new [OF inv], of ?a ?vc StateZero] by (simp add: id fresh_slot_def needs_process_def)
  then show "work (create_start req h) ?a StateZero False (create_start req h)" by (simp add: work_def fresh_slot_def)
  have new: "b \<noteq> ?a" if "vms h j = Some b" for j b using agent_inv_slot [OF inv that] by simp
  show "occupied (vms h (ReqID req)) (create_start req h) = (\<not> settled (absm h (ReqID req)))"
    using new by (cases "vms h (ReqID req)") (auto simp: occupied_def settled_def absm_def)
  show "absm (create_start req h) = (absm h)(ReqID req \<mapsto> (StateZero, ?vc))"
  proof (rule ext)
    fix j
    show "absm (create_start req h) j = ((absm h)(ReqID req \<mapsto> (StateZero, ?vc))) j"
      using new [of j] by (cases "vms h j") (auto simp: absm_def fresh_slot_def)
  qed
qed

lemma create_enter:
  assumes "agent_inv h" and "ReqID req \<noteq> ''''" and "handleCreateVM e (Inr req) h = (r, h')"
  shows "(if settled (absm h (ReqID req)) then orElse (boot e (nextobj h))
            (\<lambda>err. thenE (kill (nextobj h)) (thenE (setState (nextobj h) StateDead) (api_error 500 (Wrap ''boot: %w'' [] err))))
            (\<lambda>_. thenE (publishE e ''vm.running'' (''%s'', [AStr (ReqID req)])) (writeVMStatus (nextobj h)))
          else thenE (modE (deleteVM (ReqID req))) (api_error 409 (Err ''vm already exists: %s'' [AStr (ReqID req)])))
         (create_start req h) = (r, h')"
proof -
  have "(if occupied (vms h (ReqID req)) (create_start req h)
         then thenE (modE (deleteVM (ReqID req))) (api_error 409 (Err ''vm already exists: %s'' [AStr (ReqID req)]))
         else orElse (boot e (nextobj h))
            (\<lambda>err. thenE (kill (nextobj h)) (thenE (setState (nextobj h) StateDead) (api_error 500 (Wrap ''boot: %w'' [] err))))
            (\<lambda>_. thenE (publishE e ''vm.running'' (''%s'', [AStr (ReqID req)])) (writeVMStatus (nextobj h))))
         (create_start req h) = (r, h')"
    using assms(2,3)
    by (simp add: handleCreateVM_def bindE_def askE_def newVM_def putVM_E_def putVM_def Let_def fresh_slot_def create_config_def)
  then show ?thesis unfolding create_start_ok(4) [OF assms(1)] by (simp split: if_splits)
qed

definition created :: "(gerror + api_response) \<Rightarrow> bool" where
  "created r \<longleftrightarrow> (\<exists>resp. r = Inr resp \<and> code resp = 200)"

text \<open>A create request for a free ID ends with a running slot or, if the boot fails, a dead one.\<close>

lemma create_settled:
  assumes inv: "agent_inv h" and ne: "ReqID req \<noteq> ''''" and c: "handleCreateVM e (Inr req) h = (r, h')"
    and st: "settled (absm h (ReqID req))"
  shows "agent_inv h'" and "cfg h' = cfg h"
    and "absm h' = (absm h)(ReqID req \<mapsto> (if created r then StateRunning else StateDead, create_config (cfg h) req))"
    and "created r \<Longrightarrow> \<exists>h3. boot e (nextobj h) (create_start req h) = (Inr (), h3) \<and> quiet h3 h'"
proof -
  let ?a = "nextobj h" let ?vc = "create_config (cfg h) req" let ?i = "ReqID req" let ?h2 = "create_start req h"
  note s2 = create_start_ok [OF inv, of req]
  have c2: "Cfg (objs ?h2 ?a) = ?vc" by (simp add: fresh_slot_def)
  obtain br h3 where b: "boot e ?a ?h2 = (br, h3)" by fastforce
  have k: "orElse (boot e ?a)
            (\<lambda>err. thenE (kill ?a) (thenE (setState ?a StateDead) (api_error 500 (Wrap ''boot: %w'' [] err))))
            (\<lambda>_. thenE (publishE e ''vm.running'' (''%s'', [AStr ?i])) (writeVMStatus ?a)) ?h2 = (r, h')"
    using create_enter [OF inv ne c] st by simp
  have v2: "vms ?h2 ?i = Some ?a" by simp
  have "agent_inv h' \<and> cfg h' = cfg h \<and> absm h' = (absm h)(?i \<mapsto> (if created r then StateRunning else StateDead, ?vc)) \<and>
      (created r \<longrightarrow> (\<exists>h3. boot e ?a ?h2 = (Inr (), h3) \<and> quiet h3 h'))"
  proof (cases br)
    case (Inl err)
    have w: "work ?h2 ?a StateBooting False h3" by (rule boot_work(1) [OF s2(2)]) (use b Inl in simp)
    note wa = work_absm [OF w s2(1) v2]
    have h': "h' = (killed ?a h3)\<lparr>objs := (objs h3)(?a := (objs h3 ?a)\<lparr>vstate := StateDead\<rparr>)\<rparr>" and nr: "\<not> created r"
      using k Inl b by (auto simp: orElse_run bindE_def kill_is setState_def setVM_def modE_def api_error_def retE_def kill_fields created_def)
    have "simulates (\<lambda>m m'. m' = m(?i \<mapsto> (StateDead, Cfg (objs h3 ?a)))) h3 h'"
      unfolding h' by (rule simulates_kill [OF wa(3,2)]) (simp_all add: needs_process_def)
    then have "agent_inv h'" "cfg h' = cfg h3" "absm h' = (absm h3)(?i \<mapsto> (StateDead, Cfg (objs h3 ?a)))"
      by (simp_all only: simulates_def)
    moreover have "cfg h3 = cfg h" "Cfg (objs h3 ?a) = ?vc" using wa(4,5) c2 by simp_all
    moreover have "absm h3 = (absm h)(?i \<mapsto> (StateBooting, ?vc))" using wa(1) unfolding s2(3) c2 by simp
    ultimately show ?thesis using nr by simp
  next
    case (Inr x)
    have w: "work ?h2 ?a StateRunning True h3" by (rule boot_work(2) [OF s2(2)]) (use b Inr in simp)
    note wa = work_absm [OF w s2(1) v2]
    have m3: "absm h3 = (absm h)(?i \<mapsto> (StateRunning, ?vc))" using wa(1) unfolding s2(3) c2 by simp
    obtain q h4 where p: "publishE e ''vm.running'' (''%s'', [AStr ?i]) h3 = (q, h4)" by fastforce
    note qp = quiet_publish [OF p]
    have "h' = h4 \<and> created r"
      using k Inr b p qp by (auto simp: orElse_run bindE_def created_def writeVMStatus_def vmE_def askE_def api_reply_def retE_def)
    then have q: "quiet h3 h'" "created r" using qp by auto
    have "calm h3 h'" by (rule calm_quiet [OF q(1)])
    then show ?thesis
      using wa(3,4) m3 q b Inr by (simp add: agent_inv_calm absm_calm) (simp add: calm_def)
  qed
  then show "agent_inv h'" "cfg h' = cfg h"
    "absm h' = (absm h)(?i \<mapsto> (if created r then StateRunning else StateDead, ?vc))"
    "created r \<Longrightarrow> \<exists>h3. boot e ?a ?h2 = (Inr (), h3) \<and> quiet h3 h'" by blast+
qed

lemma create_simulates:
  assumes inv: "agent_inv h" and c: "handleCreateVM e dec h = (r, h')"
  shows "simulates (spec_next (cfg h) (Create dec)) h h'"
proof (cases "\<exists>req. dec = Inr req \<and> ReqID req \<noteq> ''''")
  case False
  then have "h' = h" using c by (auto simp: handleCreateVM_def api_error_def retE_def split: sum.splits if_splits)
  moreover have "spec_next (cfg h) (Create dec) m m" for m using False by (cases dec) auto
  ultimately show ?thesis using inv by (simp add: simulates_calm)
next
  case True
  then obtain req where dec: "dec = Inr req" and ne: "ReqID req \<noteq> ''''" by blast
  show ?thesis
  proof (cases "settled (absm h (ReqID req))")
    case True
    then show ?thesis using create_settled [OF inv ne c [unfolded dec] True] ne by (auto simp: simulates_def dec)
  next
    case False
    have h': "h' = deleteVM (ReqID req) (create_start req h)"
      using create_enter [OF inv ne c [unfolded dec]] False by (simp add: bindE_def modE_def api_error_def retE_def)
    have "absm h' = (absm h)(ReqID req := None)"
    proof (rule ext)
      fix j
      show "absm h' j = ((absm h)(ReqID req := None)) j"
        using fun_cong [OF create_start_ok(3) [OF inv, of req], of j] by (cases "j = ReqID req") (simp_all add: h' absm_def deleteVM_def)
    qed
    moreover have "cfg h' = cfg h" by (simp add: h' deleteVM_def)
    ultimately show ?thesis using inv_del [OF create_start_ok(1) [OF inv]] False ne by (simp add: simulates_def h' dec)
  qed
qed

lemma create_200:
  assumes inv: "agent_inv h" and c: "handleCreateVM e (Inr req) h = (Inr r, h')" and ok: "code r = 200"
  shows "agent_inv h'" and "cfg h' = cfg h" and "absm h' (ReqID req) = Some (StateRunning, create_config (cfg h) req)"
    and "\<exists>h3. boot e (nextobj h) (create_start req h) = (Inr (), h3) \<and> quiet h3 h'"
proof -
  have ne: "ReqID req \<noteq> ''''" using c ok by (auto simp: handleCreateVM_def act_simps)
  have st: "settled (absm h (ReqID req))"
    using create_enter [OF inv ne c] ok by (auto simp: bindE_def modE_def api_error_def retE_def split: if_splits)
  have cr: "created (Inr r)" using ok by (simp add: created_def)
  show "agent_inv h'" "cfg h' = cfg h" "absm h' (ReqID req) = Some (StateRunning, create_config (cfg h) req)"
    "\<exists>h3. boot e (nextobj h) (create_start req h) = (Inr (), h3) \<and> quiet h3 h'"
    using create_settled [OF inv ne c st] cr by simp_all
qed

lemma abort_simulates:
  assumes inv: "agent_inv h" and c: "handleAbort e i h = (r, h')"
  shows "simulates (spec_next (cfg h) (Peer i RAbort br)) h h'"
proof (cases "\<exists>a. vms h i = Some a \<and> vstate (objs h a) = StateReceiving")
  case False
  then have "h' = h"
    using c by (auto simp: handleAbort_def bindE_def askE_def vmE_def getVM_def http_ok_def http_error_def retE_def split: option.splits)
  then show ?thesis using False inv by (auto intro!: simulates_calm simp: absm_def)
next
  case True
  then obtain a where a: "vms h i = Some a" "vstate (objs h a) = StateReceiving" by blast
  have id: "ID (Cfg (objs h a)) = i" using agent_inv_slot [OF inv a(1)] by simp
  let ?h1 = "deleteVM i (killed a h)"
  have "bindE (askE cfg) (\<lambda>c.
      let preserved = Join (DataDir c) (ID (Cfg (objs h a)) @ ''-fc.log.aborted'')
      in thenE (ignoreE (renameE e (logPath (objs h a)) preserved))
        (thenE (ignoreE (removeAllE e (vdir (objs h a))))
        (thenE (publishE e ''receive.aborted'' (''%s (vmm log: %s)'', [AStr (ID (Cfg (objs h a))), AStr preserved]))
               (http_ok NoBody)))) ?h1 = (r, h')"
    using c a id by (simp add: handleAbort_def bindE_def askE_def vmE_def getVM_def modE_def kill_is)
  then have "calm ?h1 h'" unfolding Let_def by (rule keeps_calmD [rotated]) (intro calm_steps)
  moreover have "simulates (\<lambda>m m'. m' = m(i := None)) h ?h1"
    using simulates_drop [OF inv a(1), of "\<lambda>v. v"] by (simp add: keeps_identity_def killed_objs)
  ultimately have "simulates (\<lambda>m m'. m' = m(i := None)) h h'" by (blast intro: simulates_then_calm)
  moreover have "\<exists>vc. absm h i = Some (StateReceiving, vc)" using a by (simp add: absm_def)
  ultimately show ?thesis by (simp add: simulates_def)
qed

lemma triple_orElse:
  assumes "triple P m Q E" and "\<And>err. triple E (bad err) R F" and "\<And>x. triple (Q x) (good x) R F"
  shows "triple P (orElse m bad good) R F"
  using assms unfolding triple_def orElse_run
  by (fastforce split: prod.splits sum.splits)

lemma work_some:
  assumes "\<And>h0. keeps (calm h0) m" and "s \<in> S"
  shows "triple (work h0 a s True) m (\<lambda>_. work h0 a s True) (\<lambda>h. \<exists>s\<in>S. work h0 a s True h)"
    and "triple (work h0 a s True) m (\<lambda>_ h. \<exists>s\<in>S. work h0 a s True h) (\<lambda>h. \<exists>s\<in>S. work h0 a s True h)"
  by (rule triple_conseq [OF work_triple [OF assms(1)]]; use assms(2) in auto)+

lemma finalize_work:
  "triple (work h0 a StateReceiving True)
     (bindE (vmE a) (\<lambda>v.
     bindE (markE e ''target.load_start'' \<lparr>events = []\<rparr>) (\<lambda>(_, rec1).
     orElse (apiE e a (LoadSnapshot (finalStatePath v) (recvMemPath v) True True))
       (\<lambda>err. http_error 500 (Wrap ''snapshot load: %w'' [] err)) (\<lambda>_.
     bindE (markE e ''target.resumed'' rec1) (\<lambda>(resumedNS, rec2).
     thenE (announce e (Cfg v))
    (bindE (markE e ''target.garp_sent'' rec2) (\<lambda>(_, rec3).
     thenE (setVM a (baseMem_update (\<lambda>_. recvMemPath v)))
    (thenE (setState a StateRunning)
    (thenE (publishE e ''receive.resumed'' (''%s'', [AStr (ID (Cfg v))]))
           (http_ok (Final \<lparr>ResumedNS = resumedNS, FinTimeline = Events rec3\<rparr>)))))))))))
   (\<lambda>_ h. \<exists>s\<in>{StateReceiving, StateRunning}. work h0 a s True h)
   (\<lambda>h. \<exists>s\<in>{StateReceiving, StateRunning}. work h0 a s True h)"
  unfolding split_beta
  by (rule triple_orElse [OF work_triple] triple_bind [OF work_setVM [where s = StateReceiving and s' = StateReceiving]]
      triple_bind [OF work_setState] triple_bind [OF work_some(1)] work_some(2)
      | intro calm_steps | simp add: keeps_identity_def needs_process_def)+

lemma work_start:
  "agent_inv h \<Longrightarrow> vms h i = Some a \<Longrightarrow> needs_process (vstate (objs h a)) \<Longrightarrow> work h a (vstate (objs h a)) True h"
  by (auto simp: work_def agent_inv_def)

lemma finalize_simulates:
  assumes inv: "agent_inv h" and c: "handleFinalize e i h = (r, h')"
  shows "simulates (spec_next (cfg h) (Peer i RFinalize br)) h h'"
proof (cases "receivingVM i h")
  case None
  then have "h' = h" using c by (simp add: handleFinalize_def withReceiving_run)
  then show ?thesis using inv by (simp add: simulates_calm)
next
  case (Some a)
  then have a: "vms h i = Some a" "vstate (objs h a) = StateReceiving" by (simp_all add: receivingVM_iff)
  have w: "work h a StateReceiving True h" using work_start [OF inv a(1)] a(2) by (simp add: needs_process_def)
  have "\<exists>s\<in>{StateReceiving, StateRunning}. work h a s True h'"
  proof (cases r)
    case (Inl err)
    then show ?thesis
      by (intro triple_errD [OF finalize_work w]) (use c Some in \<open>simp add: handleFinalize_def withReceiving_run\<close>)
  next
    case (Inr x)
    then show ?thesis
      by (intro triple_okD [OF finalize_work w]) (use c Some in \<open>simp add: handleFinalize_def withReceiving_run\<close>)
  qed
  then obtain s where s: "s \<in> {StateReceiving, StateRunning}" and w': "work h a s True h'" by blast
  have m: "absm h i = Some (StateReceiving, Cfg (objs h a))" using a by (simp add: absm_def)
  then have "(absm h)(i \<mapsto> (StateReceiving, Cfg (objs h a))) = absm h" by (simp add: fun_upd_idem)
  then show ?thesis
    using work_absm [OF w' inv a(1)] s m by (auto simp: simulates_def)
qed

lemma work_loose:
  assumes "work h0 a s lv h" and "\<And>j. vms h0 j \<noteq> Some a"
  shows "absm h = absm h0"
proof (rule ext)
  fix j
  show "absm h j = absm h0 j"
    using assms(1) assms(2) [of j] by (cases "vms h0 j") (auto simp: absm_def work_def)
qed

lemma inv_kill_loose:
  assumes "agent_inv h" and "a < nextobj h" and "\<And>j. vms h j \<noteq> Some a"
  shows "agent_inv (killed a h)"
  by (rule inv_kill [OF assms(1,2), of _ "\<lambda>v. v"]) (use assms(3) in \<open>simp_all add: kill_fields keeps_identity_def\<close>)

lemma absm_killed: "absm (killed a h) = absm h"
  by (rule ext) (simp add: absm_def kill_fields)

lemma spawn_work:
  assumes "work h0 a s False h"
  shows "spawnFirecracker e a h = (Inl err, h') \<Longrightarrow> work h0 a s False h'"
    and "spawnFirecracker e a h = (Inr x, h') \<Longrightarrow> work h0 a s True h'"
  by (rule triple_errD [OF work_spawn assms], assumption) (rule triple_okD [OF work_spawn assms])

text \<open>Putting a live slot and killing the one it displaces.\<close>

lemma put_kill_simulates:
  assumes inv: "agent_inv h" and a: "a < nextobj h" "live h a" "\<And>j. vms h j \<noteq> Some a"
  defines "i \<equiv> ID (Cfg (objs h a))"
  defines "h1 \<equiv> h\<lparr>vms := (vms h)(i \<mapsto> a)\<rparr>"
  defines "h2 \<equiv> (case vms h i of None \<Rightarrow> h1 | Some b \<Rightarrow> killed b h1)"
  shows "agent_inv h2" and "absm h2 = (absm h)(i \<mapsto> (vstate (objs h a), Cfg (objs h a)))" and "cfg h2 = cfg h"
proof -
  have inv1: "agent_inv h1" unfolding h1_def i_def by (rule inv_put) (use inv a in simp_all)
  have gone: "vms h1 j \<noteq> Some b" if "vms h i = Some b" for b j
    using agent_inv_slot [OF inv, of j b] agent_inv_slot [OF inv that] that a(3) by (auto simp: h1_def)
  have lt: "b < nextobj h1" if "vms h i = Some b" for b
    using agent_inv_slot [OF inv that] by (simp add: h1_def)
  show "agent_inv h2"
    using inv1 inv_kill_loose [OF inv1 lt gone] by (auto simp: h2_def split: option.split)
  have "absm h2 = absm h1" by (simp add: h2_def absm_killed split: option.split)
  also have "\<dots> = (absm h)(i \<mapsto> (vstate (objs h a), Cfg (objs h a)))"
    by (rule ext) (simp add: absm_def h1_def)
  finally show "absm h2 = (absm h)(i \<mapsto> (vstate (objs h a), Cfg (objs h a)))" .
  show "cfg h2 = cfg h" by (simp add: h2_def h1_def kill_fields split: option.split)
qed

lemma prepare_simulates:
  assumes inv: "agent_inv h" and c: "handlePrepare e i dec h = (r, h')"
  shows "simulates (\<lambda>m m'. m' = m \<or> (\<exists>vc. dec = Inr vc \<and> ID vc = i \<and> m' = m(i \<mapsto> (StateReceiving, vc)))) h h'"
    (is "simulates ?S h h'")
proof (cases "\<exists>vc. dec = Inr vc \<and> ID vc = i")
  case False
  then have "h' = h" using c by (auto simp: handlePrepare_def http_error_def retE_def split: sum.splits if_splits)
  then show ?thesis using inv by (simp add: simulates_calm)
next
  case True
  then obtain vc where dec: "dec = Inr vc" and id: "ID vc = i" by blast
  let ?a = "nextobj h" let ?v = "fresh_slot (cfg h) vc StateReceiving"
  let ?h1 = "h\<lparr>objs := (objs h)(?a := ?v), nextobj := Suc ?a\<rparr>"
  have loose: "vms ?h1 j \<noteq> Some ?a" for j using agent_inv_slot [OF inv, of j ?a] by auto
  have m1: "absm ?h1 = absm h"
  proof (rule ext)
    fix j
    show "absm ?h1 j = absm h j" using loose [of j] by (cases "vms h j") (auto simp: absm_def)
  qed
  have w1: "work ?h1 ?a StateReceiving False ?h1"
    using inv_new [OF inv, of vc StateReceiving] by (simp add: work_def fresh_slot_def)
  have k: "orElse (spawnFirecracker e ?a) (\<lambda>err. http_error 500 (Wrap ''spawn firecracker: %w'' [] err)) (\<lambda>_.
            bindE (vmE ?a) (\<lambda>v.
            orElse (createE e (recvMemPath v)) (\<lambda>err. thenE (kill ?a) (http_error 500 err)) (\<lambda>_.
            bindE (putVM_E ?a) (\<lambda>old.
            thenE (case old of None \<Rightarrow> retE () | Some b \<Rightarrow> kill b)
           (thenE (publishE e ''receive.prepared'' (''%s'', [AStr (ID vc)]))
                  (http_ok NoBody)))))) ?h1 = (r, h')"
    using c id by (simp add: handlePrepare_def dec bindE_def askE_def newVM_def)
  obtain sr h2 where sp: "spawnFirecracker e ?a ?h1 = (sr, h2)" by fastforce
  show ?thesis
  proof (cases sr)
    case (Inl err)
    have w2: "work ?h1 ?a StateReceiving False h2" by (rule spawn_work(1) [OF w1]) (use sp Inl in simp)
    have "h' = h2" using k sp Inl by (simp add: orElse_run http_error_def retE_def)
    then show ?thesis
      using work_loose [OF w2 loose] m1 w2 by (simp add: simulates_def work_def)
  next
    case (Inr x)
    have w2: "work ?h1 ?a StateReceiving True h2" by (rule spawn_work(2) [OF w1]) (use sp Inr in simp)
    obtain cr h3 where cr: "createE e (recvMemPath (objs h2 ?a)) h2 = (cr, h3)" by fastforce
    from cr have "calm h2 h3" by (rule keeps_calmD [rotated]) (intro calm_steps)
    then have w3: "work ?h1 ?a StateReceiving True h3" using w2 by (simp add: work_calm)
    have f3: "agent_inv h3" "?a < nextobj h3" "live h3 ?a" "\<And>j. vms h3 j \<noteq> Some ?a" "cfg h3 = cfg h" "absm h3 = absm h"
      "Cfg (objs h3 ?a) = vc" "vstate (objs h3 ?a) = StateReceiving"
      using w3 loose work_loose [OF w3 loose] m1 by (auto simp: work_def fresh_slot_def)
    show ?thesis
    proof (cases cr)
      case (Inl err)
      have "h' = killed ?a h3"
        using k sp Inr cr Inl by (simp add: orElse_run bindE_def vmE_def askE_def kill_is http_error_def retE_def)
      then show ?thesis
        using inv_kill_loose [OF f3(1,2,4)] f3(5,6) by (simp add: simulates_def absm_killed kill_fields)
    next
      case (Inr y)
      let ?h4 = "h3\<lparr>vms := (vms h3)(i \<mapsto> ?a)\<rparr>"
      let ?h5 = "case vms h3 i of None \<Rightarrow> ?h4 | Some b \<Rightarrow> killed b ?h4"
      note pk = put_kill_simulates [OF f3(1-4), unfolded f3(7,8) id]
      have "thenE (publishE e ''receive.prepared'' (''%s'', [AStr (ID vc)])) (http_ok NoBody) ?h5 = (r, h')"
        using k sp \<open>sr = Inr x\<close> cr Inr f3(7) id
        by (cases "vms h3 i") (simp_all add: orElse_run bindE_def vmE_def askE_def kill_is retE_def putVM_E_def putVM_def Let_def)
      then have "calm ?h5 h'" by (rule keeps_calmD [rotated]) (intro calm_steps)
      moreover have "simulates ?S h ?h5"
        using pk f3(5,6) dec id by (simp add: simulates_def)
      ultimately show ?thesis by (blast intro: simulates_then_calm)
    qed
  qed
qed

text \<open>A migration seen from the source.\<close>

lemma inv_frame:
  fixes h h' :: "'p host"
  assumes inv: "agent_inv h" and f: "cfg h' = cfg h" "vms h' = vms h" "nextobj h' = nextobj h" "nextpid h' = nextpid h"
      "\<forall>b. b \<noteq> a \<longrightarrow> objs h' b = objs h b" "\<forall>pid. (procs h' pid = None) = (procs h pid = None)" "pids (throttle h') = pids (throttle h)"
    and o: "objs h' a = (objs h a)\<lparr>vstate := s, baseMem := bm, needsResync := nr\<rparr>"
    and l: "needs_process s \<Longrightarrow> live h a"
  shows "agent_inv h'"
proof -
  let ?f = "\<lambda>v. v\<lparr>vstate := s, baseMem := bm, needsResync := nr\<rparr>"
  have "agent_inv (upd_slot a ?f h)"
    by (rule inv_upd_slot [OF inv]) (use l in \<open>simp_all add: keeps_identity_def\<close>)
  moreover have "objs h' = (objs h)(a := ?f (objs h a))" using f(5) o by auto
  then have "calm (upd_slot a ?f h) h'" using f by (simp add: calm_def)
  ultimately show ?thesis by (simp add: agent_inv_calm)
qed

definition decided :: "nat \<Rightarrow> VMState \<Rightarrow> 'p host \<Rightarrow> 'p host \<Rightarrow> bool" where
  "decided a s h h' \<longleftrightarrow> cfg h' = cfg h \<and> vms h' = vms h \<and> nextobj h' = nextobj h \<and> nextpid h' = nextpid h \<and>
     (\<forall>b. b \<noteq> a \<longrightarrow> objs h' b = objs h b) \<and> pids (throttle h') = pids (throttle h) \<and>
     (\<exists>bm nr. objs h' a = (objs h a)\<lparr>vstate := s, baseMem := bm, needsResync := nr\<rparr>)"

lemma migrate_decided:
  assumes "vstate (objs (src w) a) = StateRunning" and "migrate es ed a tgt w = (r, w')"
  shows "(\<exists>s\<in>{StateRunning, StateDead}. decided a s (src w) (src w') \<and> (\<exists>err. r = Inl err) \<and>
      (\<forall>pid. (procs (src w') pid = None) = (procs (src w) pid = None))) \<or>
    decided a StateMigrated (src w) (src w') \<and> (\<exists>rep. r = Inr rep) \<and>
      (\<forall>pid. (procs (src w') pid = None) = (procs (killed a (src w)) pid = None))"
proof -
  obtain rec w1 res w2 where
    q1: "quiet ((src w)\<lparr>objs := (objs (src w))(a := (objs (src w) a)\<lparr>vstate := StateMigrating\<rparr>)\<rparr>) (src w1)"
    and inner: "migrateInner es ed a tgt rec w1 = (res, w2)"
    and k: "(case res of
         Inl err \<Rightarrow> rollback es ed a err
       | Inr rep \<Rightarrow>
           thenE (onSrc (kill a))
          (thenE (onSrc (setState a StateMigrated))
          (thenE (onSrc (publishE es ''migrate.done'' (''%s blackout=%.2fms'', [AStr (ID (Cfg (objs (src w) a))), AInt (BlackoutNS rep)])))
                 (retE rep)))) w2 = (r, w')"
    by (rule migrate_enter [OF assms])
  have fr: "src_frame a (src w1) (src w2)"
    using keepsD [OF keeps_migrateInner _ inner, of "src w1"] by simp
  then obtain bm nr where o2: "objs (src w2) a = (objs (src w) a)\<lparr>vstate := StateMigrating, baseMem := bm, needsResync := nr\<rparr>"
    using q1 by (auto simp: src_frame_def quiet_def)
  have f2: "cfg (src w2) = cfg (src w)" "vms (src w2) = vms (src w)" "nextobj (src w2) = nextobj (src w)"
    "nextpid (src w2) = nextpid (src w)" "\<forall>b. b \<noteq> a \<longrightarrow> objs (src w2) b = objs (src w) b"
    "pids (throttle (src w2)) = pids (throttle (src w))" "\<forall>pid. (procs (src w2) pid = None) = (procs (src w) pid = None)"
    using q1 fr by (simp_all add: src_frame_def quiet_def)
  show ?thesis
  proof (cases res)
    case (Inl er)
    then have "rollback es ed a er w2 = (r, w')" using k by simp
    then obtain h1 rr h2 where q2: "quiet (src w2) h1"
      and rs: "apiE es a Resume (h1\<lparr>objs := (objs h1)(a := (objs h1 a)\<lparr>needsResync := True\<rparr>)\<rparr>) = (rr, h2)"
      and w': "src w' = h2\<lparr>objs := (objs h2)(a := (objs h2 a)\<lparr>vstate := (case rr of Inr _ \<Rightarrow> StateRunning | Inl _ \<Rightarrow> StateDead)\<rparr>)\<rparr>" "\<exists>err. r = Inl err"
      by (rule rollback_run)
    let ?s = "case rr of Inr _ \<Rightarrow> StateRunning | Inl _ \<Rightarrow> StateDead"
    have "objs (src w') a = (objs (src w) a)\<lparr>vstate := ?s, baseMem := bm, needsResync := True\<rparr>"
      using q2 apiE_frame [OF rs] o2 by (simp add: w'(1) quiet_def api_frame_def)
    then have "decided a ?s (src w) (src w')"
      using q2 apiE_frame [OF rs] f2 unfolding decided_def by (auto simp: w'(1) quiet_def api_frame_def)
    moreover have "\<forall>pid. (procs (src w') pid = None) = (procs (src w) pid = None)"
      using q2 apiE_frame [OF rs] f2(7) by (simp add: w'(1) quiet_def api_frame_def)
    moreover have "?s \<in> {StateRunning, StateDead}" by (cases rr) simp_all
    ultimately show ?thesis using w'(2) by blast
  next
    case (Inr rep)
    let ?h = "(killed a (src w2))\<lparr>objs := (objs (src w2))(a := (objs (src w2) a)\<lparr>vstate := StateMigrated\<rparr>)\<rparr>"
    obtain q h3 where p: "publishE es ''migrate.done'' (''%s blackout=%.2fms'', [AStr (ID (Cfg (objs (src w) a))), AInt (BlackoutNS rep)]) ?h = (q, h3)"
      by fastforce
    note qp = quiet_publish [OF p]
    have "src w' = h3 \<and> r = Inr rep"
      using k Inr p qp by (auto simp: bindE_def onSrc_def kill_is setState_def setVM_def modE_def retE_def kill_fields)
    then have q: "quiet ?h (src w')" and r: "r = Inr rep" using qp by simp_all
    have pa: "proc (objs (src w2) a) = proc (objs (src w) a)" by (simp add: o2)
    have "objs (src w') a = (objs (src w) a)\<lparr>vstate := StateMigrated, baseMem := bm, needsResync := nr\<rparr>"
      using q o2 by (simp add: quiet_def)
    then have "decided a StateMigrated (src w) (src w')"
      using q f2 unfolding decided_def by (auto simp: quiet_def kill_fields)
    moreover have "\<forall>pid. (procs (src w') pid = None) = (procs (killed a (src w)) pid = None)"
      using q f2(7) pa by (simp add: quiet_def kill_fields)
    ultimately show ?thesis using r by blast
  qed
qed

lemma decided_inv:
  assumes inv: "agent_inv h" and v: "vms h i = Some a" and st: "vstate (objs h a) = StateRunning" and d: "decided a s h h'"
    and p: "s \<in> {StateRunning, StateDead} \<and> (\<forall>pid. (procs h' pid = None) = (procs h pid = None)) \<or>
      s = StateMigrated \<and> (\<forall>pid. (procs h' pid = None) = (procs (killed a h) pid = None))"
  shows "agent_inv h'"
  using p
proof (elim disjE conjE)
  obtain bm nr where o: "objs h' a = (objs h a)\<lparr>vstate := s, baseMem := bm, needsResync := nr\<rparr>"
    using d by (auto simp: decided_def)
  note f = d [unfolded decided_def]
  {
    assume s: "s \<in> {StateRunning, StateDead}" and pr: "\<forall>pid. (procs h' pid = None) = (procs h pid = None)"
    have "live h a" using inv v st by (auto simp: agent_inv_def needs_process_def)
    then show "agent_inv h'" using inv_frame [OF inv _ _ _ _ _ pr _ o] f by blast
  next
    assume s: "s = StateMigrated" and pr: "\<forall>pid. (procs h' pid = None) = (procs (killed a h) pid = None)"
    let ?h = "(killed a h)\<lparr>objs := (objs h)(a := (objs h a)\<lparr>vstate := StateMigrated\<rparr>)\<rparr>"
    have "agent_inv ?h"
      using simulates_kill [OF inv v, of StateMigrated "\<lambda>_ _. True"] by (simp add: simulates_def needs_process_def)
    then show "agent_inv h'"
      by (rule inv_frame [where a = a and s = StateMigrated and bm = bm and nr = nr])
        (use f pr s o in \<open>simp_all add: kill_fields needs_process_def\<close>)
  }
qed

lemma migrate_simulates:
  assumes inv: "agent_inv h" and c: "handleMigrate es ed i dec \<lparr>src = h, dst = d\<rparr> = (r, w')"
  shows "simulates (spec_next (cfg h) (Migrate i dec)) h (src w')"
proof (cases "\<exists>a req. vms h i = Some a \<and> dec = Inr req \<and> Target req \<noteq> '''' \<and> vstate (objs h a) = StateRunning")
  case False
  then have "src w' = h"
    using c by (auto simp: handleMigrate_def migrate_def bindE_def onSrc_def askE_def vmE_def getVM_def api_error_def
        retE_def tryE_def failE_def split: option.splits sum.splits if_splits)
  then show ?thesis using inv by (simp add: simulates_calm)
next
  case True
  then obtain a req where a: "vms h i = Some a" "vstate (objs h a) = StateRunning" and dec: "dec = Inr req" "Target req \<noteq> ''''"
    by blast
  obtain mr w2 where m: "migrate es ed a (Target req) \<lparr>src = h, dst = d\<rparr> = (mr, w2)" by fastforce
  have "w' = w2"
    using c a dec m by (auto simp: handleMigrate_def bindE_def onSrc_def askE_def getVM_def api_error_def api_reply_def
        retE_def tryE_def split: sum.splits)
  moreover obtain s where s: "decided a s h (src w2)" "s \<in> {StateRunning, StateDead, StateMigrated}"
    "s \<in> {StateRunning, StateDead} \<and> (\<forall>pid. (procs (src w2) pid = None) = (procs h pid = None)) \<or>
      s = StateMigrated \<and> (\<forall>pid. (procs (src w2) pid = None) = (procs (killed a h) pid = None))"
    using migrate_decided [OF _ m] a(2) by auto
  moreover have "agent_inv (src w2)" by (rule decided_inv [OF inv a s(1,3)])
  moreover have m: "absm h i = Some (StateRunning, Cfg (objs h a))" using a by (simp add: absm_def)
  moreover have "absm (src w2) = (absm h)(i \<mapsto> (s, Cfg (objs h a)))"
    using absm_upd [OF inv a(1), of "src w2"] s(1) by (auto simp: decided_def)
  moreover have "(absm h)(i \<mapsto> (StateRunning, Cfg (objs h a))) = absm h" using m by (simp add: fun_upd_idem)
  ultimately show ?thesis by (auto simp: simulates_def decided_def)
qed

lemma step_simulates:
  assumes "agent_step req h h'" and "agent_inv h"
  shows "simulates (spec_next (cfg h) req) h h'"
  using assms(1)
proof cases
  case (create e dec r)
  then show ?thesis using create_simulates [OF assms(2)] by simp
next
  case (get i r)
  have "calm h h'" using get(2) by (rule keeps_calmD [rotated]) (rule calm_handleGetVM)
  then show ?thesis using get(1) simulates_calm [OF assms(2)] by simp
next
  case (delete e i r)
  then show ?thesis using delete_simulates [OF assms(2) delete(2)] by (simp add: simulates_def)
next
  case (migrate es ed i dec d r w')
  then show ?thesis using migrate_simulates [OF assms(2)] by metis
next
  case (peer e i preq broken r)
  show ?thesis
  proof (cases preq)
    case (RPrepare vc)
    then show ?thesis
      using prepare_simulates [OF assms(2), of e i "case broken of None \<Rightarrow> Inr vc | Some er \<Rightarrow> Inl er" r h'] peer
      by (cases broken) (auto simp: serve_def simulates_def)
  next
    case (RMem rd bs)
    have "calm h h'" using peer(2) RMem unfolding serve_def
      by simp (rule keeps_calmD [rotated], assumption, rule calm_handleMem)
    then show ?thesis using peer(1) RMem simulates_calm [OF assms(2)] by simp
  next
    case (RVMState bs)
    have "calm h h'" using peer(2) RVMState unfolding serve_def
      by simp (rule keeps_calmD [rotated], assumption, rule calm_handleVMState)
    then show ?thesis using peer(1) RVMState simulates_calm [OF assms(2)] by simp
  next
    case RFinalize
    then show ?thesis using finalize_simulates [OF assms(2)] peer by (simp add: serve_def)
  next
    case RAbort
    then show ?thesis using abort_simulates [OF assms(2)] peer by (simp add: serve_def)
  qed
qed

lemma reach_inv: "agent_reach c fs h \<Longrightarrow> agent_inv h \<and> cfg h = c"
proof (induction rule: agent_reach.induct)
  case init
  show ?case by (simp add: agent_inv_def owners_distinct_def New_def)
next
  case (step h req h')
  then show ?case using step_simulates by (auto simp: simulates_def)
qed

end
