(* ===== verification/Server_Props.thy ===== *)
theory Server_Props
  imports Agent_Life Slot_Props
begin

text \<open>
  Properties of the agent as a server: it refines the table of slots, keeps its invariant under
  every sequence of requests, and the behaviour of single handlers: creation, deletion, abort,
  refused requests, and what a lost answer does to a migration.
\<close>

section \<open>Refinement and invariant\<close>

text \<open>
  C4: The agent refines its specification: in every reachable state each request, whatever the
  processes, the network and the file system answer, changes the table of slots (per ID the
  state and the configuration) exactly as the specification of that request allows; in
  particular only a running VM becomes migrated, only a receiving one starts to run by
  \<open>finalize\<close>, \<open>abort\<close> removes receiving slots only, and no request touches another ID.
\<close>

theorem agent_refines_spec:
  assumes "agent_reach c fs h" and "agent_step req h h'"
  shows "spec_next c req (absm h) (absm h')"
  using step_simulates [OF assms(2)] reach_inv [OF assms(1)] by (auto simp: simulates_def)


lemma spawn_log: "spawnFirecracker e a h = (Inr x, h') \<Longrightarrow> files h' (logPath (objs h a)) = Some []"
  by (auto simp: spawnFirecracker_def act_simps attach_run waitReadyE_run dest!: removeE_run)

lemma prepare_log:
  assumes "handlePrepare e i dec h = (Inr r, h')" and "status r = 200"
  shows "\<exists>a. vms h' i = Some a \<and> files h' (logPath (objs h' a)) = Some []"
proof -
  let ?a = "nextobj h"
  obtain vc h1 h2 where sp: "spawnFirecracker e ?a (h\<lparr>objs := (objs h)(?a := fresh_slot (cfg h) vc StateReceiving), nextobj := Suc ?a\<rparr>) = (Inr (), h1)"
    and h2: "h2 = h1\<lparr>files := (files h1)(recvMemPath (objs h1 ?a) \<mapsto> []), vms := (vms h1)(i \<mapsto> ?a)\<rparr>"
    and q: "quiet (case vms h1 i of None \<Rightarrow> h2 | Some b \<Rightarrow>
       (case proc (objs h1 b) of None \<Rightarrow> h2 | Some pid \<Rightarrow> h2\<lparr>procs := (procs h1)(pid := None)\<rparr>)) h'"
    by (rule handlePrepare_ok [OF assms])
  have "logPath v \<noteq> recvMemPath v" for v by (simp add: logPath_def recvMemPath_def Join_inject plain_name_def)
  moreover have "logPath (objs h1 ?a) = logPath (fresh_slot (cfg h) vc StateReceiving)"
    using spawnFirecracker_ok [OF sp] by (simp add: logPath_def)
  ultimately have "files h2 (logPath (objs h1 ?a)) = Some []" using spawn_log [OF sp] by (simp add: h2)
  then show ?thesis using q by (auto simp: h2 quiet_def split: option.splits)
qed

lemma s_reach:
  obtains h a pid where "agent_step (Peer ''vm0'' (RPrepare s_config) None) (New (s_cfg True) Map.empty :: sproc host) h"
    "agent_reach (s_cfg True) Map.empty h" "vms h ''vm0'' = Some a" "vstate (objs h a) = StateReceiving" "proc (objs h a) = Some pid"
    "files h (logPath (objs h a)) = Some []"
proof -
  let ?n = "New (s_cfg True) Map.empty :: sproc host"
  have wf: "host_wf ?n" by (simp add: host_wf_def New_def)
  obtain r h where p: "handlePrepare s_env ''vm0'' (Inr s_config) ?n = (Inr r, h)" "status r = 200"
    by (rule s_prepare [OF wf])
  then have st: "agent_step (Peer ''vm0'' (RPrepare s_config) None) ?n h"
    by (auto intro!: agent_step.peer [where e = s_env and r = "Inr r"] simp: serve_def)
  then have "agent_reach (s_cfg True) Map.empty h" by (blast intro: agent_reach.intros)
  moreover obtain a pid where "vms h ''vm0'' = Some a" "vstate (objs h a) = StateReceiving" "proc (objs h a) = Some pid"
    using prepare_slot [OF p wf] by auto
  moreover have "files h (logPath (objs h a)) = Some []" using prepare_log [OF p] calculation(2) by simp
  ultimately show ?thesis using that st by blast
qed

theorem agent_refines_spec_witness:
  "\<exists>h. agent_step (Peer ''vm0'' (RPrepare s_config) None) (New (s_cfg True) Map.empty :: sproc host) h \<and>
     absm h = [''vm0'' \<mapsto> (StateReceiving, s_config)]"
proof -
  let ?n = "New (s_cfg True) Map.empty :: sproc host"
  obtain h where h: "agent_step (Peer ''vm0'' (RPrepare s_config) None) ?n h" "vms h ''vm0'' \<noteq> None"
    by (rule s_reach) auto
  have n: "absm ?n = Map.empty" by (simp add: absm_def New_def fun_eq_iff)
  have "absm h ''vm0'' \<noteq> None" using h(2) by (auto simp: absm_def)
  then show ?thesis
    using h(1) agent_refines_spec [OF agent_reach.init h(1)] by (auto simp: n)
qed


section \<open>Creating a VM\<close>

lemma create_conflict_run:
  assumes "ReqID req \<noteq> ''''" and "vms h (ReqID req) = Some b" and "b \<noteq> nextobj h"
    and "vstate (objs h b) \<notin> {StateMigrated, StateDead}"
  shows "handleCreateVM e (Inr req) h = (Inr \<lparr>code = 409, abody = AText (Err ''vm already exists: %s'' [AStr (ReqID req)])\<rparr>,
    deleteVM (ReqID req) (snd (putVM (nextobj h) (h\<lparr>objs := (objs h)(nextobj h := fresh_slot (cfg h) (create_config (cfg h) req) StateZero),
      nextobj := Suc (nextobj h)\<rparr>))))"
  using assms
  by (simp add: handleCreateVM_def bindE_def askE_def newVM_def putVM_E_def putVM_def Let_def occupied_def
      fresh_slot_def create_config_def modE_def api_error_def retE_def)

text \<open>
  C19: A create request for an ID that is in use is refused with 409, and yet it loses the VM: the
  existing slot leaves the registry while its object is unchanged and its process keeps running,
  a later \<open>GET\<close> answers 404, and the ID no longer counts as taken.
\<close>

theorem create_conflict_loses_vm:
  assumes "agent_reach c fs h" and "ReqID req \<noteq> ''''" and "vms h (ReqID req) = Some b"
    and "vstate (objs h b) \<notin> {StateMigrated, StateDead}"
  shows "\<exists>r h'. handleCreateVM e (Inr req) h = (Inr r, h') \<and> code r = 409 \<and> objs h' b = objs h b \<and> procs h' = procs h \<and>
    handleGetVM (ReqID req) h' = (Inr \<lparr>code = 404, abody = AText (Err ''no such vm'' [])\<rparr>, h') \<and>
    settled (absm h' (ReqID req))"
proof -
  have b: "b \<noteq> nextobj h"
    using agent_inv_slot [OF conjunct1 [OF reach_inv [OF assms(1)]] assms(3)] by simp
  let ?h1 = "h\<lparr>objs := (objs h)(nextobj h := fresh_slot (cfg h) (create_config (cfg h) req) StateZero), nextobj := Suc (nextobj h)\<rparr>"
  let ?h2 = "deleteVM (ReqID req) (snd (putVM (nextobj h) ?h1))"
  have "getVM (ReqID req) ?h2 = None"
    using reg.put_del_frees [where a = "nextobj h" and s = ?h1] by (simp add: fresh_slot_def create_config_def)
  then have "handleGetVM (ReqID req) ?h2 = (Inr \<lparr>code = 404, abody = AText (Err ''no such vm'' [])\<rparr>, ?h2)"
    "settled (absm ?h2 (ReqID req))"
    by (simp_all add: handleGetVM_def bindE_def askE_def api_error_def retE_def getVM_def absm_def settled_def)
  moreover have "objs ?h2 b = objs h b" "procs ?h2 = procs h"
    using b by (simp_all add: deleteVM_def putVM_def Let_def)
  ultimately show ?thesis
    using create_conflict_run [OF assms(2,3) b assms(4), of e] by auto
qed

definition s_req :: CreateVMRequest where
  "s_req = \<lparr>ReqID = ''vm0'', ReqVcpus = 0, ReqMemMiB = 0, ReqGuestMAC = '''', ReqGuestCIDR = '''', ReqGuestGW = '''',
     ReqDirtyMBps = 5, ReqScribBufMB = 0\<rparr>"

theorem create_conflict_loses_vm_witness:
  "\<exists>h b r h'. agent_reach (s_cfg True) Map.empty (h :: sproc host) \<and> vms h ''vm0'' = Some b \<and> vstate (objs h b) = StateReceiving \<and>
     handleCreateVM s_env (Inr s_req) h = (Inr r, h') \<and> code r = 409 \<and> procs h' = procs h \<and> settled (absm h' ''vm0'')"
proof -
  obtain h b where rc: "agent_reach (s_cfg True) Map.empty (h :: sproc host)"
    and b: "vms h ''vm0'' = Some b" "vstate (objs h b) = StateReceiving" by (rule s_reach)
  show ?thesis
    using rc b create_conflict_loses_vm [OF rc, of s_req b s_env] by (simp add: s_req_def) blast
qed

text \<open>
  C13: A create request that succeeds installs a running VM with the defaults of the code filled
  in where the request left a field empty, its boot snapshot as the base of the first migration,
  and a following \<open>GET\<close> reports just that.
\<close>

theorem create_installs_vm:
  assumes "fc_contract V e" and "\<forall>f. length f < 2 ^ 63 \<longrightarrow> lseek_ok (seek e f) f"
    and "handleCreateVM e (Inr req) h = (Inr r, h')" and "code r = 200" and "agent_reach c fs h"
  shows "\<exists>a. vms h' (ReqID req) = Some a \<and> Cfg (objs h' a) = create_config (cfg h) req \<and> base_ok V a h' \<and>
    handleGetVM (ReqID req) h' = (Inr \<lparr>code = 200, abody = AStatus \<lparr>StID = ReqID req, StState = ''running'',
      StHost = HostName (cfg h), StCfg = create_config (cfg h) req\<rparr>\<rparr>, h')"
proof -
  have inv: "agent_inv h" using reach_inv [OF assms(5)] by simp
  note c = create_200 [OF inv assms(3,4)]
  obtain h3 where b: "boot e (nextobj h) (create_start req h) = (Inr (), h3)" and q: "quiet h3 h'" using c(4) by blast
  have w: "work (create_start req h) (nextobj h) StateRunning True h3" by (rule boot_work(2) [OF create_start_ok(2) [OF inv] b])
  have "base_ok V (nextobj h) h3" using boot_base [OF assms(1,2) b] by blast
  then have "base_ok V (nextobj h) h'" using q by (simp add: base_ok_def host_proc_def quiet_def)
  moreover have "vms h' (ReqID req) = Some (nextobj h)" "Cfg (objs h' (nextobj h)) = create_config (cfg h) req"
    "vstate (objs h' (nextobj h)) = StateRunning" "cfg h' = cfg h" "ID (create_config (cfg h) req) = ReqID req"
    using w q by (simp_all add: work_def quiet_def fresh_slot_def create_config_def)
  ultimately show ?thesis
    by (auto simp: handleGetVM_def bindE_def askE_def getVM_def writeVMStatus_run)
qed

lemma s_create: obtains r h' where "handleCreateVM s_env (Inr s_req) (New (s_cfg True) Map.empty) = (Inr r, h')" "code r = 200"
proof -
  let ?h = "New (s_cfg True) Map.empty :: sproc host"
  let ?h2 = "?h\<lparr>objs := (objs ?h)(0 := fresh_slot (cfg ?h) (create_config (cfg ?h) s_req) StateZero), nextobj := 1, vms := [''vm0'' \<mapsto> 0]\<rparr>"
  obtain h3 where b: "boot s_env 0 ?h2 = (Inr (), h3)" by (rule s_boot)
  obtain h4 where p: "publishE s_env ''vm.running'' (''%s'', [AStr ''vm0'']) h3 = (Inr (), h4)" by (rule publish_runE)
  obtain q where "writeVMStatus 0 h4 = (Inr q, h4)" "code q = 200" by (simp add: writeVMStatus_run)
  then have "handleCreateVM s_env (Inr s_req) ?h = (Inr q, h4)" "code q = 200"
    using b p by (simp_all add: handleCreateVM_def bindE_def askE_def newVM_def putVM_E_def putVM_def Let_def orElse_run
        New_def occupied_def s_req_def create_config_def fresh_slot_def)
  then show ?thesis by (rule that)
qed

theorem create_installs_vm_witness:
  "\<exists>r h' a. handleCreateVM s_env (Inr s_req) (New (s_cfg True) Map.empty) = (Inr r, h') \<and> code r = 200 \<and>
     vms h' ''vm0'' = Some a \<and> MemMiB (Cfg (objs h' a)) = 256 \<and> base_ok s_view a h'"
proof -
  obtain r h' where c: "handleCreateVM s_env (Inr s_req) (New (s_cfg True) Map.empty) = (Inr r, h')" "code r = 200" by (rule s_create)
  have "create_config (cfg (New (s_cfg True) Map.empty :: sproc host)) s_req = create_config (s_cfg True) s_req"
    by (simp add: New_def)
  then show ?thesis
    using c create_installs_vm [OF s_contract _ c agent_reach.init]
    by (auto simp: s_req_def create_config_def orDefault_def)
qed

section \<open>Deleting and aborting\<close>

lemma delete_run:
  assumes "vms h i = Some a"
  obtains h' where "handleDeleteVM e i h = (Inr \<lparr>code = 204, abody = ANone\<rparr>, deleteVM i h')"
    "quiet ((killed a h)\<lparr>objs := (objs h)(a := (objs h a)\<lparr>vstate := StateDead\<rparr>)\<rparr>) h'"
proof -
  let ?h1 = "(killed a h)\<lparr>objs := (objs h)(a := (objs h a)\<lparr>vstate := StateDead\<rparr>)\<rparr>"
  obtain q h2 where p: "publishE e ''vm.deleted'' (''%s'', [AStr i]) ?h1 = (q, h2)" by fastforce
  note qp = quiet_publish [OF p]
  have "handleDeleteVM e i h = (Inr \<lparr>code = 204, abody = ANone\<rparr>, deleteVM i h2)"
    using p qp assms by (simp add: handleDeleteVM_def bindE_def askE_def getVM_def modE_def retE_def api_reply_def kill_is
        setState_def setVM_def kill_fields)
  then show ?thesis using that qp by simp
qed

lemma delete_unknown:
  "vms h i = None \<Longrightarrow> handleDeleteVM e i h = (Inr \<lparr>code = 204, abody = ANone\<rparr>, deleteVM i h)"
  by (simp add: handleDeleteVM_def bindE_def askE_def getVM_def modE_def retE_def api_reply_def)

text \<open>
  C14: Deleting always answers 204 and frees the ID, with the process of the slot killed, whatever
  state the slot was in, and every other ID and process untouched; deleting the ID again, or an
  unknown ID, changes nothing.
\<close>

theorem delete_frees_id:
  assumes "agent_reach c fs h"
  shows "\<exists>h'. handleDeleteVM e i h = (Inr \<lparr>code = 204, abody = ANone\<rparr>, h') \<and> vms h' = (vms h)(i := None) \<and>
    (\<forall>a pid. vms h i = Some a \<longrightarrow> proc (objs h a) = Some pid \<longrightarrow> procs h' pid = None) \<and>
    (\<forall>j b. j \<noteq> i \<longrightarrow> vms h j = Some b \<longrightarrow> objs h' b = objs h b \<and> live h' b = live h b) \<and>
    handleDeleteVM e' i h' = (Inr \<lparr>code = 204, abody = ANone\<rparr>, h')"
proof -
  have inv: "agent_inv h" using reach_inv [OF assms] by simp
  obtain h' where d: "handleDeleteVM e i h = (Inr \<lparr>code = 204, abody = ANone\<rparr>, h')" "vms h' = (vms h)(i := None)"
    "\<forall>a pid. vms h i = Some a \<longrightarrow> proc (objs h a) = Some pid \<longrightarrow> procs h' pid = None"
    "\<forall>j b. j \<noteq> i \<longrightarrow> vms h j = Some b \<longrightarrow> objs h' b = objs h b \<and> live h' b = live h b"
  proof (cases "vms h i")
    case None
    then show ?thesis using that [OF delete_unknown] by (auto simp: deleteVM_def live_def)
  next
    case (Some a)
    obtain h1 where h1: "handleDeleteVM e i h = (Inr \<lparr>code = 204, abody = ANone\<rparr>, deleteVM i h1)"
      "quiet ((killed a h)\<lparr>objs := (objs h)(a := (objs h a)\<lparr>vstate := StateDead\<rparr>)\<rparr>) h1" by (rule delete_run [OF Some])
    have "objs (deleteVM i h1) b = objs h b \<and> live (deleteVM i h1) b = live h b" if "j \<noteq> i" "vms h j = Some b" for j b
    proof -
      have lt: "a < nextobj h" "b < nextobj h" "b \<noteq> a"
        using agent_inv_slot [OF inv Some] agent_inv_slot [OF inv that(2)] that(1) by auto
      then show ?thesis
        using h1(2) live_kill [OF inv lt] by (simp add: quiet_def deleteVM_def live_def kill_fields)
    qed
    moreover have "vms (deleteVM i h1) = (vms h)(i := None)" using h1(2) by (simp add: quiet_def deleteVM_def kill_fields)
    moreover have "procs (deleteVM i h1) pid = None" if "proc (objs h a) = Some pid" for pid
      using h1(2) that by (simp add: quiet_def deleteVM_def kill_fields)
    ultimately show ?thesis using that [OF h1(1)] Some by simp
  qed
  have "deleteVM i h' = h'" using d(2) by (simp add: deleteVM_def fun_upd_idem)
  then show ?thesis using d delete_unknown [of h' i e'] by auto
qed

theorem delete_frees_id_witness:
  "\<exists>h h' a pid. agent_reach (s_cfg True) Map.empty (h :: sproc host) \<and> vms h ''vm0'' = Some a \<and> proc (objs h a) = Some pid \<and>
     handleDeleteVM s_env ''vm0'' h = (Inr \<lparr>code = 204, abody = ANone\<rparr>, h') \<and> vms h' ''vm0'' = None \<and> procs h' pid = None"
proof -
  obtain h a pid where rc: "agent_reach (s_cfg True) Map.empty (h :: sproc host)"
    and a: "vms h ''vm0'' = Some a" "proc (objs h a) = Some pid" by (rule s_reach)
  show ?thesis
    using rc a delete_frees_id [OF rc, of s_env "''vm0''" s_env] by auto
qed

text \<open>
  C16: A request that does not fit the slot's state changes nothing: data, device state,
  \<open>finalize\<close> and \<open>abort\<close> requests for an ID that is not receiving are answered (409, or 200 for
  the abort of an unknown ID), leaving the host exactly as it was, files and events included,
  whatever they carry.
\<close>

theorem refused_changes_nothing:
  assumes "\<forall>a. vms h i = Some a \<longrightarrow> vstate (objs h a) \<noteq> StateReceiving"
    and "\<forall>vc. req \<noteq> RPrepare vc"
  shows "\<exists>r. serve e i req broken h = (Inr r, h) \<and> status r = (if req = RAbort \<and> vms h i = None then 200 else 409)"
proof -
  have n: "receivingVM i h = None" using assms(1) by (auto simp: receivingVM_def getVM_def split: option.splits)
  show ?thesis
  proof (cases req)
    case RAbort
    then show ?thesis
      using assms(1) by (cases "vms h i")
        (auto simp: serve_def handleAbort_def bindE_def askE_def vmE_def getVM_def http_ok_def http_error_def retE_def)
  qed (use n assms(2) in \<open>auto simp: serve_def handleMem_def handleVMState_def handleFinalize_def withReceiving_def
      bindE_def askE_def http_error_def retE_def\<close>)
qed

theorem refused_changes_nothing_witness:
  "\<exists>r. serve s_env ''vm0'' RFinalize None (s_busy True) = (Inr r, s_busy True) \<and> status r = 409"
  using refused_changes_nothing [of "s_busy True" "''vm0''" RFinalize s_env None]
  by (simp add: s_busy_def s_idle_def s_vm_def)

lemma aborted_log_outside:
  assumes "plain_name i"
  shows "\<not> has_prefix (Join d (i @ ''-fc.log.aborted'')) (Join d i @ ''/'')" and "Join d (i @ ''-fc.log.aborted'') \<noteq> Join d i"
proof -
  have "plain_name (i @ ''-fc.log.aborted'')" using assms by (simp add: plain_name_def)
  then show "\<not> has_prefix (Join d (i @ ''-fc.log.aborted'')) (Join d i @ ''/'')" "Join d (i @ ''-fc.log.aborted'') \<noteq> Join d i"
    using assms by (simp_all add: Join_plain has_prefix_def)
qed

text \<open>
  C15: Aborting a receiving slot frees the ID and kills its process, and, when the file system
  does not fail, removes every file of the slot's directory while the log of the process
  survives outside it; the abort can be repeated without a further change.
\<close>

theorem abort_cleans_up:
  assumes "agent_reach c fs h" and "vms h i = Some a" and "vstate (objs h a) = StateReceiving"
    and "\<forall>t. oserr e t = None" and "files h (logPath (objs h a)) = Some lg" and "plain_name i"
  shows "\<exists>r h'. handleAbort e i h = (Inr r, h') \<and> status r = 200 \<and> vms h' = (vms h)(i := None) \<and>
    (\<forall>pid. proc (objs h a) = Some pid \<longrightarrow> procs h' pid = None) \<and>
    (\<forall>p. has_prefix p (vdir (objs h a) @ ''/'') \<longrightarrow> files h' p = None) \<and>
    files h' (Join (DataDir c) (i @ ''-fc.log.aborted'')) = Some lg \<and>
    handleAbort e' i h' = (Inr \<lparr>status = 200, reply = NoBody\<rparr>, h')"
proof -
  have c: "cfg h = c" and id: "ID (Cfg (objs h a)) = i"
    using reach_inv [OF assms(1)] agent_inv_slot [OF _ assms(2)] by simp_all
  have "slot_ok h a" using reach_inv [OF assms(1)] agent_inv_slot [OF _ assms(2)] by (auto simp: agent_inv_def)
  then have d: "vdir (objs h a) = Join (DataDir c) i" using c id by (simp add: slot_ok_def vmDir_def)
  note out = aborted_log_outside [OF assms(6), of "DataDir c", folded d]
  let ?p = "Join (DataDir c) (i @ ''-fc.log.aborted'')" let ?l = "logPath (objs h a)" let ?d = "vdir (objs h a)"
  let ?h1 = "deleteVM i (killed a h)"
  let ?fs = "((files h)(?l := None))(?p \<mapsto> lg)"
  let ?h2 = "?h1\<lparr>tick := Suc (tick ?h1), files := ?fs\<rparr>"
  let ?h3 = "?h2\<lparr>tick := Suc (tick ?h2), files := (\<lambda>p. if p = ?d \<or> has_prefix p (?d @ ''/'') then None else ?fs p)\<rparr>"
  obtain h4 where p: "publishE e ''receive.aborted'' (''%s (vmm log: %s)'', [AStr i, AStr ?p]) ?h3 = (Inr (), h4)"
    by (rule publish_runE)
  have f: "files ?h1 = files h" "cfg ?h1 = c"
    by (simp_all add: deleteVM_def killed_def kill_def modE_def c split: option.split)
  have "openE e ?l ?h1 = (Inr lg, ?h1\<lparr>tick := Suc (tick ?h1)\<rparr>)"
    using assms(4,5) f(1) by (simp only: openE_ok simp_thms)
  then have rn: "renameE e ?l ?p ?h1 = (Inr (), ?h2)"
    using f(1) by (simp add: renameE_def bindE_def modE_def)
  have ra: "removeAllE e ?d ?h2 = (Inr (), ?h3)"
    using assms(4) by (simp add: removeAllE_def bindE_def osE_def tickE_def retE_def modE_def cong: if_cong)
  have "handleAbort e i h = (Inr \<lparr>status = 200, reply = NoBody\<rparr>, h4)"
    using assms(2,3) id p rn ra f(2)
    by (simp add: handleAbort_def bindE_def askE_def vmE_def getVM_def modE_def kill_is ignoreE_def tryE_def retE_def Let_def http_ok_def)
  moreover have q: "quiet ?h3 h4" using quiet_publish [OF p] by simp
  ultimately show ?thesis
    using out
    by (auto simp: quiet_def deleteVM_def kill_fields handleAbort_def bindE_def askE_def getVM_def http_ok_def retE_def)
qed

theorem abort_cleans_up_witness:
  "\<exists>h r h'. agent_reach (s_cfg True) Map.empty (h :: sproc host) \<and> handleAbort s_env ''vm0'' h = (Inr r, h') \<and> status r = 200 \<and>
     vms h' ''vm0'' = None \<and> files h' (Join ''/run'' ''vm0-fc.log.aborted'') = Some []"
proof -
  obtain h a where h: "agent_reach (s_cfg True) Map.empty (h :: sproc host)" "vms h ''vm0'' = Some a"
    "vstate (objs h a) = StateReceiving" "files h (logPath (objs h a)) = Some []"
    by (rule s_reach)
  have "\<forall>t. oserr s_env t = None" "plain_name ''vm0''" by (simp_all add: s_env_def plain_name_def)
  then show ?thesis
    using h(1) abort_cleans_up [OF h(1-3) _ h(4), of s_env s_env] by (auto simp: s_cfg_def)
qed

section \<open>A lost answer\<close>

lemma abort_refused:
  assumes "vms h i = Some b" and "vstate (objs h b) \<noteq> StateReceiving"
  shows "handleAbort e i h = (Inr \<lparr>status = 409, reply = Text (Err ''refusing to abort a VM not in receiving state'' [])\<rparr>, h)"
  using assms by (simp add: handleAbort_def bindE_def askE_def vmE_def getVM_def http_error_def retE_def)

lemma bindE_step: "m s = (Inr x, s1) \<Longrightarrow> bindE m f s = f x s1"
  by (simp add: bindE_def)

lemma keeps_src_dst: "keeps (\<lambda>v. dst v = d) (onSrc m)"
  by (rule keepsI) (auto simp: act_simps)

lemma rollback_dst:
  assumes "rollback es ed a err w = (r, w')" and "vms (dst w) i = Some b" and "vstate (objs (dst w) b) \<noteq> StateReceiving"
    and "ID (Cfg (objs (src w) a)) = i"
  shows "dst w' = dst w"
proof -
  have ab: "keeps (\<lambda>v. dst v = dst w) (postJSON es ed i RAbort)"
  proof (rule keepsI)
    fix v q v' assume v: "dst v = dst w" "postJSON es ed i RAbort v = (q, v')"
    then show "dst v' = dst w"
      using abort_refused [OF assms(2,3)]
      by (auto simp: postJSON_def peerDo_def serve_def bindE_def onSrc_def onDst_def tickE_def tryE_def failE_def retE_def
          split: net_outcome.splits if_splits)
  qed
  note src = keeps_src_dst [of "dst w"]
  define rest :: "('a, Report) world_act" where
    "rest = thenE (onSrc (publishE es ''migrate.abort'' (''%s: %v'', [AStr (ID (Cfg (objs (src w) a))), AErr err])))
    (thenE (tryE (postJSON es ed (ID (Cfg (objs (src w) a))) RAbort))
    (thenE (onSrc (setVM a (needsResync_update (\<lambda>_. True))))
    (bindE (tryE (onSrc (apiE es a Resume))) (\<lambda>r.
     case r of
       Inr _ \<Rightarrow> thenE (onSrc (setState a StateRunning)) (failE err)
     | Inl rerr \<Rightarrow> thenE (onSrc (setState a StateDead))
         (failE (Wrap ''migration failed (%w) and source resume also failed: %v'' [AErr rerr] err))))))"
  have k: "keeps (\<lambda>v. dst v = dst w) rest"
    unfolding rest_def assms(4)
    by (intro triple_rules ab src) (auto intro!: triple_rules src split: sum.split)
  have e: "rollback es ed a err w = rest w"
    unfolding rollback_def rest_def by (rule bindE_step) (simp add: onSrc_def vmE_def askE_def)
  from k show ?thesis by (rule keepsD [where s = w and r = r]) (use assms(1) e in simp_all)
qed

text \<open>
  C17: When the answer to \<open>finalize\<close> is lost after the target has resumed the VM, the source takes
  the request for failed and rolls back; the target refuses the abort, because its slot is
  running, and the source resumes its own copy: both hosts then run the VM.
\<close>

theorem lost_answer_leaves_two_copies:
  assumes "peer es (tick (src w)) = RespLost er"
    and "handleFinalize ed i (dst w) = (Inr r, h')" and "status r = 200"
    and "postJSON es ed i RFinalize w = (res, w1)"
    and "ID (Cfg (objs (src w) a)) = i" and "live (src w) a" and "api (objs (src w) a) = proc (objs (src w) a)"
    and "\<forall>t q fs. fst (perform (fc es t) Resume (q, fs)) = Inr ()"
    and "rollback es ed a err w1 = (res2, w2)"
  shows "res = Inl er \<and> vstate (objs (src w2) a) = StateRunning \<and>
    (\<exists>b. vms (dst w2) i = Some b \<and> vstate (objs (dst w2) b) = StateRunning \<and> procs (dst w2) = procs h')"
proof -
  have w1: "res = Inl er" "w1 = w\<lparr>src := (src w)\<lparr>tick := Suc (tick (src w))\<rparr>, dst := h'\<rparr>"
    using assms(4,1,2) by (simp_all add: postJSON_def peerDo_def serve_def bindE_def onSrc_def onDst_def tickE_def tryE_def failE_def)
  obtain b g1 g2 g3 fin where "vms (dst w) i = Some b" "quiet (dst w) g1"
    and ld: "apiE ed b (LoadSnapshot (finalStatePath (objs (dst w) b)) (recvMemPath (objs (dst w) b)) True True) g1 = (Inr (), g2)"
    and "quiet g2 g3"
      "quiet (g3\<lparr>objs := (objs g3)(b := (objs g3 b)\<lparr>baseMem := recvMemPath (objs (dst w) b), vstate := StateRunning\<rparr>)\<rparr>) h'"
    by (rule handleFinalize_ok [OF assms(2,3)])
  then have b: "vms h' i = Some b" "vstate (objs h' b) = StateRunning"
    using apiE_frame [OF ld] by (simp_all add: quiet_def api_frame_def)
  have d: "dst w2 = h'"
    using rollback_dst [OF assms(9), of i b] b assms(5) by (simp add: w1)
  obtain h1 rr h2 where q: "quiet (src w1) h1"
    and rs: "apiE es a Resume (h1\<lparr>objs := (objs h1)(a := (objs h1 a)\<lparr>needsResync := True\<rparr>)\<rparr>) = (rr, h2)"
    and s2: "src w2 = h2\<lparr>objs := (objs h2)(a := (objs h2 a)\<lparr>vstate := (case rr of Inr _ \<Rightarrow> StateRunning | Inl _ \<Rightarrow> StateDead)\<rparr>)\<rparr>"
    by (rule rollback_run [OF assms(9)])
  let ?h = "h1\<lparr>objs := (objs h1)(a := (objs h1 a)\<lparr>needsResync := True\<rparr>)\<rparr>"
  obtain p where "host_proc a ?h p"
    using assms(6,7) q by (auto simp: w1 live_def host_proc_def quiet_def)
  then have "succ (apiE es a Resume) ?h" by (rule succ_api) (use assms(8) in blast)
  then have "\<exists>x. rr = Inr x" using rs by (auto simp: succ_def)
  then show ?thesis using w1(1) b d s2 by auto
qed

definition s_ready :: "sproc host" where
  "s_ready = (s_busy True)\<lparr>objs := (\<lambda>_. s_vm\<lparr>vstate := StateReceiving\<rparr>),
     files := [recvMemPath s_vm \<mapsto> [Some 1], finalStatePath s_vm \<mapsto> [Some 9]]\<rparr>"

definition s_lossy :: "sproc env" where
  "s_lossy = s_env\<lparr>peer := \<lambda>_. RespLost (Err ''connection reset'' [])\<rparr>"

lemma s_finalize: obtains r h' where "handleFinalize s_env ''vm0'' s_ready = (Inr r, h')" "status r = 200"
proof -
  let ?w = "\<lparr>src = s_busy True, dst = s_ready\<rparr>"
  have paths: "recvMemPath (s_vm\<lparr>vstate := s\<rparr>) = recvMemPath s_vm" "finalStatePath (s_vm\<lparr>vstate := s\<rparr>) = finalStatePath s_vm"
    "recvMemPath s_vm \<noteq> finalStatePath s_vm" for s
    by (simp_all add: recvMemPath_def finalStatePath_def Join_inject plain_name_def)
  have im: "dst_image ''vm0'' ?w 0 [Some 1]"
    by (simp add: dst_image_def s_ready_def s_busy_def s_idle_def paths)
  have al: "dst_alive ''vm0'' ?w"
    by (simp add: dst_alive_def host_proc_def s_ready_def s_busy_def s_idle_def s_vm_def)
  have st: "files (dst ?w) (finalStatePath (objs (dst ?w) 0)) = Some [Some 9]"
    by (simp add: s_ready_def s_busy_def s_idle_def paths)
  obtain r w' fin where "postJSON s_env s_env ''vm0'' RFinalize ?w = (Inr r, w')" "reply r = Final fin"
    by (rule finalize_succ [OF s_happy s_happy im st al])
  then have "handleFinalize s_env ''vm0'' s_ready = (Inr r, dst w')" "status r = 200"
    by (auto simp: postJSON_def peerDo_happy [OF s_happy] serve_def act_simps split: if_splits)
  then show ?thesis by (rule that)
qed

theorem lost_answer_leaves_two_copies_witness:
  "\<exists>res w1 res2 w2 b. postJSON s_lossy s_env ''vm0'' RFinalize \<lparr>src = s_busy True, dst = s_ready\<rparr> = (res, w1) \<and>
     rollback s_lossy s_env 0 (Err ''finalize on target'' []) w1 = (res2, w2) \<and> vstate (objs (src w2) 0) = StateRunning \<and>
     vms (dst w2) ''vm0'' = Some b \<and> vstate (objs (dst w2) b) = StateRunning"
proof -
  let ?w = "\<lparr>src = s_busy True, dst = s_ready\<rparr>"
  obtain r h' where f: "handleFinalize s_env ''vm0'' (dst ?w) = (Inr r, h')" "status r = 200" using s_finalize by auto
  obtain res w1 where p: "postJSON s_lossy s_env ''vm0'' RFinalize ?w = (res, w1)" by fastforce
  obtain res2 w2 where rb: "rollback s_lossy s_env 0 (Err ''finalize on target'' []) w1 = (res2, w2)" by fastforce
  have l: "peer s_lossy (tick (src ?w)) = RespLost (Err ''connection reset'' [])" by (simp add: s_lossy_def)
  have a: "ID (Cfg (objs (src ?w) 0)) = ''vm0''" "live (src ?w) 0" "api (objs (src ?w) 0) = proc (objs (src ?w) 0)"
    by (simp_all add: s_busy_def s_idle_def s_vm_def s_config_def live_def)
  have "\<forall>t q fs. fst (perform (fc s_lossy t) Resume (q, fs)) = Inr ()" by (simp add: s_lossy_def s_fc_calls)
  then show ?thesis
    using p rb lost_answer_leaves_two_copies [OF l f p a _ rb] by auto
qed

end
