(* ===== verification/Handover.thy ===== *)
theory Handover
  imports Server_Props
begin

text \<open>
  Source and target together: what a migration does to the target's table of slots, whichever
  way it ends, and from that who runs the VM afterwards.
\<close>

section \<open>Keeping a predicate of the target host\<close>

named_theorems dst_rules \<open>actions that keep a predicate of the target\<close>

lemma dst_onSrc [dst_rules]: "keeps (\<lambda>w. P (dst w)) (onSrc m)"
  by (rule keepsI) (auto simp: act_simps)

lemma dst_onDst: "keeps P m \<Longrightarrow> keeps (\<lambda>w. P (dst w)) (onDst m)"
  by (rule keepsI) (auto simp: act_simps dest: keepsD)

text \<open>A target predicate that every request but \<open>finalize\<close> keeps.\<close>

definition bystander :: "'p env \<Rightarrow> ('p host \<Rightarrow> bool) \<Rightarrow> bool" where
  "bystander ed P \<longleftrightarrow> (\<forall>i req broken. req \<noteq> RFinalize \<longrightarrow> keeps P (serve ed i req broken))"

lemma cut_not_finalize: "cut_req n req = RFinalize \<longleftrightarrow> req = RFinalize"
  by (cases req) simp_all

lemma dst_peer:
  assumes "bystander ed P" and "req \<noteq> RFinalize"
  shows "keeps (\<lambda>w. P (dst w)) (peerDo es ed i req)" "keeps (\<lambda>w. P (dst w)) (peerBroken es ed i req er)"
  using assms unfolding peerDo_def peerBroken_def bystander_def
  by (auto intro!: dst_rules keeps_bind keeps_basic keeps_try dst_onDst simp: cut_not_finalize split: net_outcome.split)

lemma dst_transfers:
  assumes "bystander ed P"
  shows "keeps (\<lambda>w. P (dst w)) (postJSON es ed i (RPrepare vc))" "keeps (\<lambda>w. P (dst w)) (postJSON es ed i RAbort)"
    "keeps (\<lambda>w. P (dst w)) (sendFile es ed i p)" "keeps (\<lambda>w. P (dst w)) (sendMemFile es ed i rd p)"
  unfolding postJSON_def sendFile_def sendMemFile_def
  by (auto intro!: dst_rules keeps_bind keeps_basic dst_peer assms split: prod.split option.split)

lemma dst_rounds:
  assumes "bystander ed P"
  shows "keeps (\<lambda>w. P (dst w)) (rounds_loop es ed a budget n r st)"
proof (induction n arbitrary: r st)
  case (Suc n)
  have "keeps (\<lambda>w. P (dst w)) (round_body es ed a budget r st)"
    unfolding round_body_def
    by (auto intro!: dst_rules keeps_bind keeps_basic keeps_wrap dst_transfers assms split: prod.split)
  then show ?case using Suc by (auto intro!: keeps_bind keeps_basic split: prod.split)
qed (simp add: keeps_basic)

lemma dst_rollback: "bystander ed P \<Longrightarrow> keeps (\<lambda>w. P (dst w)) (rollback es ed a err)"
  unfolding rollback_def
  by (auto intro!: dst_rules keeps_bind keeps_basic keeps_try dst_transfers split: sum.split)

section \<open>Finalizing\<close>

text \<open>A network that breaks no connection once the request has arrived.\<close>

definition lossless :: "'p env \<Rightarrow> bool" where
  "lossless e \<longleftrightarrow> (\<forall>t. peer e t = Delivered \<or> (\<exists>er. peer e t = ReqLost er))"

definition handing_over :: "'p env \<Rightarrow> string \<Rightarrow> ('p host \<Rightarrow> bool) \<Rightarrow> ('p host \<Rightarrow> bool) \<Rightarrow> bool" where
  "handing_over ed i P Q \<longleftrightarrow> bystander ed P \<and>
     triple P (serve ed i RFinalize None) (\<lambda>r h. if status r = 200 then Q h \<and> (\<exists>fin. reply r = Final fin) else P h) P"

lemma triple_bind_keeps:
  "keeps P m \<Longrightarrow> (\<And>x. triple P (f x) Q P) \<Longrightarrow> triple P (bindE m f) Q P"
  unfolding keeps_def by (rule triple_bind)

lemma triple_onDst:
  "triple P m Q E \<Longrightarrow> triple (\<lambda>w. P (dst w)) (onDst m) (\<lambda>r w. Q r (dst w)) (\<lambda>w. E (dst w))"
  by (rule tripleI) (auto simp: act_simps dest: triple_okD triple_errD)

lemma dst_finalize:
  assumes "lossless es" and "handing_over ed i P Q"
  shows "triple (\<lambda>w. P (dst w)) (postJSON es ed i RFinalize) (\<lambda>r w. Q (dst w) \<and> (\<exists>fin. reply r = Final fin)) (\<lambda>w. P (dst w))"
proof -
  have "triple (\<lambda>w. P (dst w)) (peerDo es ed i RFinalize)
      (\<lambda>r w. if status r = 200 then Q (dst w) \<and> (\<exists>fin. reply r = Final fin) else P (dst w)) (\<lambda>w. P (dst w))"
    unfolding peerDo_def
  proof (rule triple_bind_keeps [OF dst_onSrc])
    fix t
    show "triple (\<lambda>w. P (dst w)) (case peer es t of
         Delivered \<Rightarrow> onDst (serve ed i RFinalize None)
       | ReqLost er \<Rightarrow> failE er
       | CutOff n er \<Rightarrow> thenE (tryE (onDst (serve ed i (cut_req n RFinalize) (Some er)))) (failE er)
       | RespLost er \<Rightarrow> thenE (tryE (onDst (serve ed i RFinalize None))) (failE er))
      (\<lambda>r w. if status r = 200 then Q (dst w) \<and> (\<exists>fin. reply r = Final fin) else P (dst w)) (\<lambda>w. P (dst w))"
    proof (cases "peer es t = Delivered")
      case True
      have "triple P (serve ed i RFinalize None) (\<lambda>r h. if status r = 200 then Q h \<and> (\<exists>fin. reply r = Final fin) else P h) P"
        using assms(2) by (simp add: handing_over_def)
      from triple_onDst [OF this] show ?thesis using True by simp
    next
      case False
      then obtain er where "peer es t = ReqLost er" using assms(1) by (auto simp: lossless_def)
      then show ?thesis by (simp add: triple_fail)
    qed
  qed
  then show ?thesis
    unfolding postJSON_def
    by (rule triple_bind) (auto intro!: tripleI simp: act_simps split: if_splits)
qed

lemma triple_defer:
  assumes "triple P m Q E" and "\<And>x. keeps (Q x) d" and "keeps E d"
  shows "triple P (deferE d m) Q E"
proof (rule tripleI)
  fix s x s' assume s: "P s" "deferE d m s = (Inr x, s')"
  then obtain s1 where "m s = (Inr x, s1)" "s' = snd (d s1)" by (auto simp: act_simps)
  then show "Q x s'" using triple_okD [OF assms(1) s(1)] keepsD [OF assms(2), of x s1 "fst (d s1)" s'] by simp
next
  fix s e s' assume s: "P s" "deferE d m s = (Inl e, s')"
  then obtain s1 where "m s = (Inl e, s1)" "s' = snd (d s1)" by (auto simp: act_simps)
  then show "E s'" using triple_errD [OF assms(1) s(1)] keepsD [OF assms(3), of s1 "fst (d s1)" s'] by simp
qed

lemma keeps_conj: "keeps A m \<Longrightarrow> keeps B m \<Longrightarrow> keeps (\<lambda>s. A s \<and> B s) m"
  by (rule keepsI) (auto dest: keepsD)

text \<open>The target keeps \<open>P\<close> and the source its frame, so the ID on the wire stays the VM's.\<close>

definition both :: "nat \<Rightarrow> 'p host \<Rightarrow> ('p host \<Rightarrow> bool) \<Rightarrow> 'p world \<Rightarrow> bool" where
  "both a h P w \<longleftrightarrow> P (dst w) \<and> src_frame a h (src w)"

lemma keeps_both:
  "keeps (\<lambda>w. P (dst w)) m \<Longrightarrow> keeps (\<lambda>w. src_frame a h (src w)) m \<Longrightarrow> keeps (both a h P) m"
  unfolding both_def by (rule keeps_conj)

lemma triple_bind_both:
  "keeps (both a h P) m \<Longrightarrow> (\<And>x. triple (both a h P) (f x) Q (\<lambda>w. P (dst w))) \<Longrightarrow> triple (both a h P) (bindE m f) Q (\<lambda>w. P (dst w))"
  unfolding keeps_def
  by (rule triple_bind [where R = "\<lambda>_. both a h P"]) (auto simp: both_def elim: triple_conseq)

lemma both_vm:
  assumes "\<And>v. ID (Cfg v) = ID (Cfg (objs h a)) \<Longrightarrow> triple (both a h P) (f v) Q E"
  shows "triple (both a h P) (bindE (onSrc (vmE a)) f) Q E"
proof (rule triple_bind)
  show "triple (both a h P) (onSrc (vmE a)) (\<lambda>v w. both a h P w \<and> ID (Cfg v) = ID (Cfg (objs h a))) E"
    by (auto intro!: tripleI simp: act_simps vmE_def both_def src_frame_def)
  show "triple (\<lambda>w. both a h P w \<and> ID (Cfg v) = ID (Cfg (objs h a))) (f v) Q E" for v
    using assms [of v] by (cases "ID (Cfg v) = ID (Cfg (objs h a))") (simp_all add: triple_def)
qed

lemma dst_blackout:
  assumes "lossless es" and ho: "handing_over ed (ID (Cfg (objs h a))) P Q"
  shows "triple (both a h P) (blackout es ed a rep rec) (\<lambda>_ w. Q (dst w)) (\<lambda>w. P (dst w))"
proof -
  let ?i = "ID (Cfg (objs h a))"
  have b: "bystander ed P" using ho by (simp add: handing_over_def)
  have last: "triple (both a h P) (bindE (wrapE m args (postJSON es ed ?i RFinalize)) (\<lambda>r.
      case reply r of Final fin \<Rightarrow> retE (F fin) | _ \<Rightarrow> failE er)) (\<lambda>_ w. Q (dst w)) (\<lambda>w. P (dst w))"
    for m args F er
  proof -
    have "triple (\<lambda>w. P (dst w)) (bindE (wrapE m args (postJSON es ed ?i RFinalize)) (\<lambda>r.
        case reply r of Final fin \<Rightarrow> retE (F fin) | _ \<Rightarrow> failE er)) (\<lambda>_ w. Q (dst w)) (\<lambda>w. P (dst w))"
      by (rule triple_bind [OF triple_wrap [OF dst_finalize [OF assms]]])
        (auto intro!: tripleI simp: act_simps split: reply_body.splits)
    then show ?thesis by (rule triple_conseq) (simp_all add: both_def)
  qed
  show ?thesis
    unfolding blackout_def Let_def
    by (rule both_vm, simp only:,
      (rule triple_bind_both, (intro keeps_both dst_rules keeps_wrap dst_transfers [OF b] frame_rules; fail), (split prod.split, intro allI impI)?)+,
      rule last)
qed

lemma dst_migrateInner:
  assumes "lossless es" and ho: "handing_over ed (ID (Cfg (objs h a))) P Q"
  shows "triple (both a h P) (migrateInner es ed a tgt rec) (\<lambda>_ w. Q (dst w)) (\<lambda>w. P (dst w))"
proof -
  have b: "bystander ed P" using ho by (simp add: handing_over_def)
  note k = keeps_both dst_rules keeps_wrap dst_transfers [OF b] dst_rounds [OF b] frame_rules keeps_rounds_loop keeps_resync
  have last: "triple (both a h P) (deferE (onSrc d) (thenE (wrapE m args (onSrc c)) (blackout es ed a rep rec')))
      (\<lambda>_ w. Q (dst w)) (\<lambda>w. P (dst w))" if "keeps (src_frame a h) c" for d m args c rep rec'
    by (rule triple_defer, rule triple_bind_both, intro keeps_both keeps_wrap dst_rules keeps_onSrc that)
      (rule dst_blackout [OF assms] dst_onSrc)+
  show ?thesis
    unfolding migrateInner_def
    by ((rule triple_bind_both, (intro k; fail), (split prod.split, intro allI impI)?)+, rule last, intro frame_rules)
qed

lemma migrate_dst:
  assumes "vstate (objs (src w) a) = StateRunning" and "migrate es ed a tgt w = (r, w')"
    and "lossless es" and ho: "handing_over ed (ID (Cfg (objs (src w) a))) P Q" and "P (dst w)"
  shows "case r of Inr _ \<Rightarrow> Q (dst w') | Inl _ \<Rightarrow> P (dst w')"
proof -
  obtain rec w1 res w2 where
    q1: "quiet ((src w)\<lparr>objs := (objs (src w))(a := (objs (src w) a)\<lparr>vstate := StateMigrating\<rparr>)\<rparr>) (src w1)"
    and d1: "dst w1 = dst w" and inner: "migrateInner es ed a tgt rec w1 = (res, w2)"
    and k: "(case res of
         Inl err \<Rightarrow> rollback es ed a err
       | Inr rep \<Rightarrow>
           thenE (onSrc (kill a))
          (thenE (onSrc (setState a StateMigrated))
          (thenE (onSrc (publishE es ''migrate.done'' (''%s blackout=%.2fms'', [AStr (ID (Cfg (objs (src w) a))), AInt (BlackoutNS rep)])))
                 (retE rep)))) w2 = (r, w')"
    by (rule migrate_enter [OF assms(1,2)])
  have "ID (Cfg (objs (src w1) a)) = ID (Cfg (objs (src w) a))" using q1 by (simp add: quiet_def)
  then have t: "triple (both a (src w1) P) (migrateInner es ed a tgt rec) (\<lambda>_ w. Q (dst w)) (\<lambda>w. P (dst w))"
    using dst_migrateInner [OF assms(3), of ed "src w1" a P Q] ho by simp
  have b: "both a (src w1) P w1" using assms(5) by (simp add: both_def d1)
  show ?thesis
  proof (cases res)
    case (Inl err)
    then have "rollback es ed a err w2 = (r, w')" and "P (dst w2)" using k triple_errD [OF t b] inner by simp_all
    moreover have "bystander ed P" using ho by (simp add: handing_over_def)
    ultimately have "P (dst w')" using keepsD [OF dst_rollback] by blast
    moreover obtain e where "r = Inl e" by (rule rollback_run [OF \<open>rollback es ed a err w2 = (r, w')\<close>]) blast
    ultimately show ?thesis by simp
  next
    case (Inr rep)
    have "Q (dst w2)" using triple_okD [OF t b] inner Inr by simp
    moreover have "dst w' = dst w2 \<and> r = Inr rep"
      using k Inr by (auto simp: bindE_def onSrc_def kill_def setState_def setVM_def modE_def retE_def
          split: prod.splits sum.splits dest!: quiet_publish)
    ultimately show ?thesis by simp
  qed
qed

section \<open>Who runs the VM\<close>

definition runs :: "string \<Rightarrow> 'p host \<Rightarrow> bool" where
  "runs i h \<longleftrightarrow> (\<exists>vc. absm h i = Some (StateRunning, vc))"

lemma finalize_refused:
  assumes "handleFinalize e i h = (x, h')" and "\<And>r. x = Inr r \<Longrightarrow> status r \<noteq> 200"
  shows "absm h' = absm h"
proof (cases "receivingVM i h")
  case None
  then show ?thesis using assms(1) by (auto simp: handleFinalize_def withReceiving_run)
next
  case (Some a)
  let ?v = "objs h a" let ?h1 = "h\<lparr>tick := Suc (tick h)\<rparr>"
  obtain lr h2 where l: "apiE e a (LoadSnapshot (finalStatePath ?v) (recvMemPath ?v) True True) ?h1 = (lr, h2)" by fastforce
  have f: "absm h2 = absm h" using apiE_frame [OF l] by (simp add: absm_def api_frame_def fun_eq_iff)
  show ?thesis
  proof (cases lr)
    case (Inl er)
    then show ?thesis
      using assms(1) Some l f by (simp add: handleFinalize_def withReceiving_run bindE_def vmE_def askE_def markE_run
          markE_def nowE_def tickE_def retE_def Mark_def orElse_def tryE_def http_error_def)
  next
    case (Inr u)
    obtain ar h3 where an: "announce e (Cfg ?v) (h2\<lparr>tick := Suc (tick h2)\<rparr>) = (ar, h3)" by fastforce
    have "ar = Inr ()" using quiet_announce [OF an] by simp
    then have "\<exists>r. x = Inr r \<and> status r = 200"
      using assms(1) Some l Inr an by (auto simp: handleFinalize_def withReceiving_run bindE_def vmE_def askE_def
          markE_def nowE_def tickE_def retE_def Mark_def orElse_def tryE_def http_ok_def setVM_def setState_def modE_def
          split: prod.splits sum.splits dest!: quiet_publish)
    then show ?thesis using assms(2) by blast
  qed
qed

lemma serve_reach: "agent_reach c fs h \<Longrightarrow> serve e i req broken h = (r, h') \<Longrightarrow> agent_reach c fs h'"
  by (blast intro: agent_reach.step agent_step.peer)

lemma idle_bystander: "bystander e (\<lambda>h. agent_reach c fs h \<and> \<not> runs i h)"
  unfolding bystander_def
proof (intro allI impI keepsI)
  fix j req broken h r h'
  assume req: "req \<noteq> RFinalize" and h: "agent_reach c fs h \<and> \<not> runs i h" and s: "serve e j req broken h = (r, h')"
  have "spec_next (cfg h) (Peer j req broken) (absm h) (absm h')"
    using step_simulates [OF agent_step.peer [OF s]] reach_inv [of c fs h] h by (simp add: simulates_def)
  then have "\<forall>vc. absm h' i = Some (StateRunning, vc) \<longrightarrow> absm h i = Some (StateRunning, vc)"
    using req by (cases req) (auto split: if_splits)
  then have "\<not> runs i h'" using h by (auto simp: runs_def)
  then show "agent_reach c fs h' \<and> \<not> runs i h'" using h serve_reach [OF _ s] by simp
qed

lemma hands_over:
  "handing_over e i (\<lambda>h. agent_reach c fs h \<and> \<not> runs i h) (\<lambda>h. agent_reach c fs h \<and> runs i h)"
  unfolding handing_over_def
proof (rule conjI, rule idle_bystander, rule tripleI)
  fix h r h' assume h: "agent_reach c fs h \<and> \<not> runs i h" and s: "serve e i RFinalize None h = (Inr r, h')"
  have rc: "agent_reach c fs h'" using h serve_reach [OF _ s] by simp
  have f: "handleFinalize e i h = (Inr r, h')" using s by (simp add: serve_def)
  show "if status r = 200 then (agent_reach c fs h' \<and> runs i h') \<and> (\<exists>fin. reply r = Final fin) else agent_reach c fs h' \<and> \<not> runs i h'"
  proof (cases "status r = 200")
    case True
    obtain a g1 g2 g3 fin where "vms h i = Some a" "quiet h g1"
      and ld: "apiE e a (LoadSnapshot (finalStatePath (objs h a)) (recvMemPath (objs h a)) True True) g1 = (Inr (), g2)"
      and "quiet g2 g3" "reply r = Final fin"
        "quiet (g3\<lparr>objs := (objs g3)(a := (objs g3 a)\<lparr>baseMem := recvMemPath (objs h a), vstate := StateRunning\<rparr>)\<rparr>) h'"
      by (rule handleFinalize_ok [OF f True])
    then have "runs i h'" using apiE_frame [OF ld] by (simp add: runs_def absm_def quiet_def api_frame_def)
    then show ?thesis using True rc \<open>reply r = Final fin\<close> by simp
  next
    case False
    then have "absm h' = absm h" using finalize_refused [OF f] by simp
    then show ?thesis using False rc h by (simp add: runs_def)
  qed
next
  fix h er h' assume h: "agent_reach c fs h \<and> \<not> runs i h" and s: "serve e i RFinalize None h = (Inl er, h')"
  then have "absm h' = absm h" using finalize_refused [of e i h "Inl er" h'] by (simp add: serve_def)
  then show "agent_reach c fs h' \<and> \<not> runs i h'" using h serve_reach [OF _ s] by (simp add: runs_def)
qed



end
