(* ===== verification/Migrate_Bounds.thy ===== *)
theory Migrate_Bounds
  imports Migration_Props
begin

text \<open>
  Numeric behaviour of a migration: the bound on the number of rounds and on the throttle level,
  the plateau test against exact arithmetic, and the pacing of a transfer with its 64-bit
  product.
\<close>

section \<open>The plateau test in exact arithmetic\<close>

lemma bit_len_le: "n < 2 ^ k \<Longrightarrow> bit_len n \<le> k"
proof (induction k arbitrary: n)
  case (Suc k)
  then have "bit_len (n div 2) \<le> k" by simp
  then show ?case by (subst bit_len.simps) simp
qed (simp add: bit_len.simps)

lemma pow_bit_len: "0 < n \<Longrightarrow> n < 2 ^ bit_len n \<and> 2 ^ bit_len n \<le> 2 * n"
proof (induction n rule: bit_len.induct)
  case (1 n)
  show ?case
  proof (cases "n div 2 = 0")
    case True
    then have "n = 1" using 1(2) by auto
    then show ?thesis by (simp add: bit_len.simps)
  next
    case False
    then have "n div 2 < 2 ^ bit_len (n div 2)" "2 ^ bit_len (n div 2) \<le> 2 * (n div 2)" using 1 by simp_all
    moreover have "bit_len n = Suc (bit_len (n div 2))" using 1(2) by (subst bit_len.simps) simp
    moreover have "2 * (n div 2) \<le> n" "n < 2 * Suc (n div 2)" by simp_all
    ultimately show ?thesis by (simp add: Suc_le_eq [symmetric])
  qed
qed

lemma f64_round_small: "n < 2 ^ 53 \<Longrightarrow> f64_round n = n"
  using bit_len_le [of n 53] by (simp add: f64_round_def)

lemma f64_round_bounds:
  defines "e n \<equiv> bit_len n - 53"
  shows "n div 2 ^ e n * 2 ^ e n \<le> f64_round n" and "f64_round n \<le> n + 2 ^ e n"
proof -
  show "n div 2 ^ e n * 2 ^ e n \<le> f64_round n" by (auto simp: f64_round_def Let_def e_def)
  have "n div 2 ^ e n * 2 ^ e n \<le> n" by simp
  moreover have "f64_round n \<le> n \<or> f64_round n \<le> n div 2 ^ e n * 2 ^ e n + 2 ^ e n"
    by (auto simp: f64_round_def Let_def e_def)
  ultimately show "f64_round n \<le> n + 2 ^ e n" by linarith
qed

lemma f64_round_ge: "x \<le> n \<Longrightarrow> 2 ^ (bit_len n - 53) dvd x \<Longrightarrow> x \<le> f64_round n"
proof -
  assume x: "x \<le> n" "2 ^ (bit_len n - 53) dvd x"
  then have "x = x div 2 ^ (bit_len n - 53) * 2 ^ (bit_len n - 53)" by simp
  also have "\<dots> \<le> n div 2 ^ (bit_len n - 53) * 2 ^ (bit_len n - 53)" using x(1) by (simp add: div_le_mono)
  finally show ?thesis using f64_round_bounds(1) [of n] by simp
qed

lemma plateau_nat:
  fixes d p :: nat
  assumes d: "d < 2 ^ 53" and p: "0 < p" "p < 2 ^ 48"
  shows "f64_round (plateauMantissa * p) < d * 2 ^ 53 \<longleftrightarrow> 9 * p < 10 * d"
proof -
  let ?n = "plateauMantissa * p" let ?e = "bit_len ?n - 53"
  have "?n < 2 ^ (53 + bit_len p)"
    using pow_bit_len [OF p(1)] by (simp add: power_add plateauMantissa_def)
  then have "?e \<le> bit_len p" using bit_len_le by fastforce
  then have e: "(2::nat) ^ ?e \<le> 2 * p"
    using pow_bit_len [OF p(1)] by (meson le_trans one_le_numeral power_increasing)
  have "?e \<le> 48" using \<open>?e \<le> bit_len p\<close> bit_len_le [OF p(2)] by simp
  then have dv: "2 ^ ?e dvd d * 2 ^ 53" by (intro dvd_mult le_imp_power_dvd) simp
  show ?thesis
  proof
    assume "9 * p < 10 * d"
    then have "10 * (f64_round ?n) < 10 * (d * 2 ^ 53)"
      using f64_round_bounds(2) [of ?n] e p(2) by (simp add: plateauMantissa_def)
    then show "f64_round ?n < d * 2 ^ 53" by simp
  next
    assume r: "f64_round ?n < d * 2 ^ 53"
    show "9 * p < 10 * d"
    proof (rule ccontr)
      assume "\<not> 9 * p < 10 * d"
      then have "d * 2 ^ 53 \<le> ?n" by (simp add: plateauMantissa_def)
      then show False using f64_round_ge [OF _ dv] r by simp
    qed
  qed
qed

text \<open>
  C29: The plateau test of the code, in IEEE double arithmetic with the rounded constant 0.9, is
  the exact comparison of the dirty counts: a round has plateaued if and only if it dirtied more
  than nine tenths of the bytes of the round before, for all counts a machine can hold.
\<close>

theorem plateau_exact:
  assumes "0 \<le> dirty" and "dirty < 2 ^ 53" and "prev < 2 ^ 48"
  shows "plateau_test dirty prev \<longleftrightarrow> 0 < prev \<and> 9 * prev < 10 * dirty"
proof (cases "0 < prev")
  case True
  let ?d = "nat dirty" and ?p = "nat prev"
  have d: "?d < 2 ^ 53" and p: "0 < ?p" "?p < 2 ^ 48" using assms True by (simp_all add: nat_less_iff)
  have "f64_round ?d = ?d" "f64_round ?p = ?p" using d p by (simp_all add: f64_round_small)
  then have "plateau_test dirty prev \<longleftrightarrow> 9 * ?p < 10 * ?d"
    using plateau_nat [OF d p] True assms(1) by (simp add: plateau_test_def)
  also have "\<dots> \<longleftrightarrow> 9 * prev < 10 * dirty" using True assms(1) by linarith
  finally show ?thesis using True by simp
qed (simp add: plateau_test_def)

theorem plateau_exact_witness:
  "plateau_test 9000001 10000000 \<and> \<not> plateau_test 9000000 10000000"
  using plateau_exact [of 9000001 10000000] plateau_exact [of 9000000 10000000] by simp

section \<open>Rounds and throttle levels\<close>

text \<open>The report of the rounds so far: numbered from 1, with levels that never fall.\<close>

definition loop_ok :: "nat \<Rightarrow> loop_state \<Rightarrow> bool" where
  "loop_ok k st \<longleftrightarrow> map Round (stats st) = map int [1..<Suc k] \<and> 0 \<le> throttleLevel st \<and> throttleLevel st \<le> 5 \<and>
     sorted (map ThrottleLevel (stats st)) \<and> (\<forall>x\<in>set (stats st). 0 \<le> ThrottleLevel x \<and> ThrottleLevel x \<le> throttleLevel st)"

lemma decision_level:
  assumes "after_full_round e v st h = (Inr (go, st'), h') \<or> after_round e v d st h = (Inr (go, st'), h')"
  shows "stats st' = stats st \<and> (throttleLevel st' = throttleLevel st \<or>
    throttleLevel st < 5 \<and> throttleLevel st' = throttleLevel st + 1)"
  using assms
  by (auto simp: after_full_round_def after_round_def act_simps Let_def maxThrottleLevel_def split: if_splits)

lemma end_round_ok:
  assumes "end_round e v budget r d t1 t2 st h = (Inr (go, st'), h')" and "loop_ok k st" and "r = int (Suc k)"
  shows "loop_ok (Suc k) st'"
proof -
  let ?x = "\<lparr>Round = r, DirtyBytes = d, StartNS = t1, SnapshotNS = t2 - t1, TransferNS = clk e (tick h) - t2,
    Paused = (\<not> LiveRounds (cfg h)), ThrottleLevel = throttleLevel st\<rparr>"
  let ?st = "st\<lparr>stats := stats st @ [?x]\<rparr>"
  obtain h1 where dec: "after_full_round e v ?st h1 = (Inr (go, st'), h') \<or> after_round e v d ?st h1 = (Inr (go, st'), h')"
    using assms(1) by (auto simp: end_round_def act_simps Let_def split: if_splits)
  then show ?thesis
    using decision_level [OF dec] assms(2,3) by (auto simp: loop_ok_def sorted_append)
qed

lemma rounds_loop_ok:
  "rounds_loop es ed a budget n r st w = (Inr st', w') \<Longrightarrow> loop_ok k st \<Longrightarrow> r = int (Suc k) \<Longrightarrow>
   \<exists>k'. k \<le> k' \<and> k' \<le> k + n \<and> (0 < n \<longrightarrow> k < k') \<and> loop_ok k' st'"
proof (induction n arbitrary: r st w k)
  case 0
  then show ?case by (auto simp: act_simps)
next
  case (Suc n)
  from Suc.prems(1) obtain go st1 w1 where rb: "round_body es ed a budget r st w = (Inr (go, st1), w1)"
    and k: "(if go then rounds_loop es ed a budget n (r + 1) st1 else retE st1) w1 = (Inr st', w')"
    by (auto simp: act_simps)
  obtain v d t1 t2 h h' where "end_round es v budget r d t1 t2 st h = (Inr (go, st1), h')"
    using rb by (auto simp: round_body_def act_simps)
  then have ok: "loop_ok (Suc k) st1" using Suc.prems(2,3) by (rule end_round_ok)
  show ?case
  proof (cases go)
    case True
    then obtain k' where "Suc k \<le> k'" "k' \<le> Suc k + n" "loop_ok k' st'"
      using Suc.IH [OF _ ok, of "r + 1" w1] k Suc.prems(3) by auto
    then show ?thesis by (intro exI [of _ k']) auto
  next
    case False
    then show ?thesis using ok k by (intro exI [of _ "Suc k"]) (simp add: act_simps)
  qed
qed

lemma triple_after:
  "(\<And>x. triple (\<lambda>_. True) (f x) Q (\<lambda>_. True)) \<Longrightarrow> triple (\<lambda>_. True) (bindE m f) Q (\<lambda>_. True)"
  by (rule triple_bind [where R = "\<lambda>_ _. True"]) (simp add: triple_def split: prod.split sum.split)

lemma blackout_rounds:
  assumes "blackout es ed a rep0 rc w = (Inr rep, w')"
  shows "Rounds rep = Rounds rep0"
proof -
  have "triple (\<lambda>_. True) (blackout es ed a rep0 rc) (\<lambda>rep _. Rounds rep = Rounds rep0) (\<lambda>_. True)"
    unfolding blackout_def split_beta
    by (intro triple_after) (simp add: triple_def retE_def failE_def Let_def split: reply_body.split)
  from triple_okD [OF this _ assms] show ?thesis by simp
qed

text \<open>
  C11: The pre-copy phase is bounded: a migration that succeeds made at least one and at most 256
  rounds with the live patch, at most 8 without it, reported under consecutive numbers from 1,
  and the throttle level stayed between 0 and 5 and never fell from one round to the next.
\<close>

theorem precopy_bounded:
  assumes "migrateInner es ed a tgt rec w = (Inr rep, w')"
  shows "length (Rounds rep) \<in> {1..(if LiveRounds (cfg (src w)) then 256 else 8)} \<and>
    map Round (Rounds rep) = map int [1..<Suc (length (Rounds rep))] \<and>
    sorted (map ThrottleLevel (Rounds rep)) \<and> ThrottleLevel ` set (Rounds rep) \<subseteq> {0..5}"
proof -
  let ?live = "LiveRounds (cfg (src w))"
  let ?rep = "\<lambda>x n st. \<lparr>RepVM = x, RepTarget = tgt, RepLive = ?live, BaseBytes = n, Rounds = stats st, FinalBytes = 0,
    BlackoutNS = 0, RepTimeline = []\<rparr>"
  obtain mem t x n w1 w2 st rc w3 w4 where l: "rounds_loop es ed a (if ?live then drainBudgetBytes else 0)
      (if ?live then maxRounds else maxRoundsStock) 1 (start_state mem t) w1 = (Inr st, w2)"
    and b: "blackout es ed a (?rep x n st) rc w3 = (Inr rep, w4)"
    using assms unfolding migrateInner_def by (auto simp: act_simps Mark_def)
  have "loop_ok 0 (start_state mem t)" by (simp add: loop_ok_def start_state_def Let_def)
  then obtain k where k: "k \<le> (if ?live then maxRounds else maxRoundsStock)" "0 < k" "loop_ok k st"
    using rounds_loop_ok [OF l, of 0] by (auto simp: maxRounds_def maxRoundsStock_def split: if_splits)
  have "Rounds rep = stats st"
    using blackout_rounds [OF b] by simp
  moreover have "length (stats st) = k" using k(3) by (metis diff_Suc_1 length_map length_upt loop_ok_def)
  ultimately show ?thesis
    using k by (auto simp: loop_ok_def maxRounds_def maxRoundsStock_def dest: order_trans)
qed

theorem precopy_bounded_witness:
  "\<exists>rep w'. migrateInner s_env s_env 0 ''host-b:7000'' \<lparr>events = []\<rparr> (s_world False) = (Inr rep, w') \<and>
     1 \<le> length (Rounds rep) \<and> length (Rounds rep) \<le> 8"
proof -
  obtain rep w' where r: "migrateInner s_env s_env 0 ''host-b:7000'' \<lparr>events = []\<rparr> (s_world False) = (Inr rep, w')"
    by (rule s_run)
  have "\<not> LiveRounds (cfg (src (s_world False)))" by (simp add: s_world_def s_busy_def s_idle_def s_cfg_def)
  then show ?thesis using r precopy_bounded [OF r] by simp
qed

section \<open>Pacing\<close>

text \<open>
  \<open>pacedWriter\<close>: \<open>pw_Write n elapsed\<close> is the write of a block of which the writer below took \<open>n\<close>
  bytes, \<open>elapsed\<close> nanoseconds after the start; its value is the time it then sleeps. The
  durations are 64-bit integers and the product with a second wraps.
\<close>

record pacedWriter =
  bytesPerSec :: int
  pw_written :: int

definition pw_Write :: "int \<Rightarrow> int \<Rightarrow> pacedWriter \<Rightarrow> int \<times> pacedWriter" where
  "pw_Write n elapsed p =
     (let w = i64 (pw_written p + n);
          ahead = i64 (i64 (w * 10 ^ 9) sdiv bytesPerSec p - elapsed)
      in (if ahead > 0 then ahead else 0, p\<lparr>pw_written := w\<rparr>))"

definition paced :: "int \<Rightarrow> pacedWriter" where
  "paced mbps = \<lparr>bytesPerSec = i64 (mbps * 2 ^ 20), pw_written = 0\<rparr>"

text \<open>A transfer: before each block some time passes, then the block is written.\<close>

fun pace_run :: "(int \<times> int) list \<Rightarrow> int \<Rightarrow> pacedWriter \<Rightarrow> int \<times> pacedWriter" where
  "pace_run [] now p = (now, p)"
| "pace_run ((delay, n) # bs) now p =
     (case pw_Write n (now + delay) p of (sleep, p') \<Rightarrow> pace_run bs (now + delay + sleep) p')"

lemma pw_Write_paced:
  assumes p: "0 < bytesPerSec p" "0 \<le> pw_written p" and n: "0 \<le> n" "(pw_written p + n) * 10 ^ 9 < 2 ^ 63"
    and t: "0 \<le> elapsed" "elapsed < 2 ^ 63"
    and w: "pw_Write n elapsed p = (sleep, p')"
  shows "0 \<le> sleep" and "p' = p\<lparr>pw_written := pw_written p + n\<rparr>"
    and "(pw_written p + n) * 10 ^ 9 div bytesPerSec p \<le> elapsed + sleep"
proof -
  let ?w = "pw_written p + n" let ?q = "?w * 10 ^ 9 div bytesPerSec p"
  have q: "0 \<le> ?q" "?q \<le> ?w * 10 ^ 9"
    using p n zdiv_mono2 [of "?w * 10 ^ 9" 1 "bytesPerSec p"] by (simp_all add: pos_imp_zdiv_nonneg_iff)
  have "i64 ?w = ?w" "i64 (?w * 10 ^ 9) = ?w * 10 ^ 9" using p n by (simp_all add: i64_id)
  moreover have "?w * 10 ^ 9 sdiv bytesPerSec p = ?q"
    using p n by (simp add: signed_divide_int_def sgn_if)
  moreover have "i64 (?q - elapsed) = ?q - elapsed" using q t n by (simp add: i64_id)
  ultimately have "pw_Write n elapsed p = (if ?q - elapsed > 0 then ?q - elapsed else 0, p\<lparr>pw_written := ?w\<rparr>)"
    by (simp add: pw_Write_def Let_def)
  then show "0 \<le> sleep" "p' = p\<lparr>pw_written := ?w\<rparr>" "?q \<le> elapsed + sleep"
    using w by (auto split: if_splits)
qed

lemma pw_Write_sleep: "pw_Write n elapsed p = (sleep, p') \<Longrightarrow> 0 \<le> sleep"
  by (auto simp: pw_Write_def Let_def split: if_splits)

lemma pace_run_mono: "pace_run bs now p = (t, p') \<Longrightarrow> \<forall>(d, n)\<in>set bs. 0 \<le> d \<Longrightarrow> now \<le> t"
proof (induction bs now p rule: pace_run.induct)
  case (2 d n bs now p)
  obtain sl q where w: "pw_Write n (now + d) p = (sl, q)" by fastforce
  then have "now + d + sl \<le> t" using 2 by simp
  then show ?case using pw_Write_sleep [OF w] 2(3) by auto
qed simp

lemma pace_run_rate:
  assumes "pace_run bs now p = (t, p')" and "\<forall>(d, n)\<in>set bs. 0 \<le> d \<and> 0 \<le> n"
    and "0 < bytesPerSec p" and "0 \<le> pw_written p" and "0 \<le> now" and "t < 2 ^ 63"
    and "(pw_written p + sum_list (map snd bs)) * 10 ^ 9 < 2 ^ 63"
    and "pw_written p * 10 ^ 9 div bytesPerSec p \<le> now"
  shows "pw_written p' = pw_written p + sum_list (map snd bs) \<and> pw_written p' * 10 ^ 9 div bytesPerSec p \<le> t"
  using assms
proof (induction bs now p rule: pace_run.induct)
  case (2 d n bs now p)
  obtain sl q where w: "pw_Write n (now + d) p = (sl, q)" by fastforce
  have run: "pace_run bs (now + d + sl) q = (t, p')" using 2(2) w by simp
  have nn: "0 \<le> d" "0 \<le> n" "\<forall>(d, n)\<in>set bs. 0 \<le> d \<and> 0 \<le> n" using 2(3) by auto
  then have s: "0 \<le> sum_list (map snd bs)" by (intro sum_list_nonneg) auto
  have "now + d + sl \<le> t" by (rule pace_run_mono [OF run]) (use nn(3) in auto)
  then have lt: "now + d < 2 ^ 63" using pw_Write_sleep [OF w] 2(7) by linarith
  have fit: "(pw_written p + n) * 10 ^ 9 < 2 ^ 63" using 2(8) s by simp
  note step = pw_Write_paced [OF 2(4,5) nn(2) fit _ lt w]
  have "0 \<le> now + d" using 2(6) nn(1) by simp
  note st = step [OF this]
  have "pw_written p' = pw_written q + sum_list (map snd bs) \<and> pw_written p' * 10 ^ 9 div bytesPerSec q \<le> t"
    by (rule "2.IH" [OF w [symmetric] run nn(3)]) (use st 2 nn in \<open>simp_all add: ac_simps\<close>)
  then show ?case using st(2) by (auto simp del: distrib_right)
qed simp



text \<open>
  Beyond that total the product wraps to a negative duration and the pacing is off: right
  after 9223372037 bytes a write never sleeps, however little time has passed.
\<close>

theorem pacing_wraps:
  assumes "pw_written p + n = 9223372037" and "bytesPerSec p \<in> {120 * 2 ^ 20, 60 * 2 ^ 20}"
    and "0 \<le> elapsed" and "elapsed < 2 ^ 62"
  shows "pw_Write n elapsed p = (0, p\<lparr>pw_written := 9223372037\<rparr>)"
proof -
  have w: "i64 (pw_written p + n) = 9223372037" using assms(1) by (simp add: i64_id)
  have n: "i64 (9223372037 * 10 ^ 9) = - 9223372036709551616" by (simp add: i64_def)
  have "- 9223372036709551616 sdiv bytesPerSec p \<le> 0 \<and> - (2 ^ 62) \<le> - 9223372036709551616 sdiv bytesPerSec p"
    using assms(2) by (auto simp: signed_divide_int_def)
  then have "i64 (- 9223372036709551616 sdiv bytesPerSec p - elapsed) = - 9223372036709551616 sdiv bytesPerSec p - elapsed"
    "- 9223372036709551616 sdiv bytesPerSec p - elapsed \<le> 0"
    using assms(3,4) by (auto intro!: i64_id)
  then show ?thesis unfolding pw_Write_def Let_def w n by simp
qed

theorem pacing_wraps_witness:
  "pw_Write 1 7 \<lparr>bytesPerSec = 120 * 2 ^ 20, pw_written = 9223372036\<rparr> = (0, \<lparr>bytesPerSec = 120 * 2 ^ 20, pw_written = 9223372037\<rparr>)"
  using pacing_wraps [of "\<lparr>bytesPerSec = 120 * 2 ^ 20, pw_written = 9223372036\<rparr>" 1 7] by simp

end
