(* ===== verification/Slot_Race.thy ===== *)
theory Slot_Race
  imports Agent_State
begin

text \<open>
  Requests for one slot that run at the same time. The other theories let a handler run to its end;
  here the handlers of \<open>server.go\<close>, \<open>receive.go\<close> and \<open>migrate.go\<close> are threads over one \<open>VM\<close> object,
  cut where they read or write what they share: its state (under its mutex), its process and its
  registration. A thread is the place it has reached; any thread may take the next step.
\<close>

section \<open>The slot and the threads\<close>

text \<open>
  \<open>spawned\<close>: \<open>v.proc\<close> is set; \<open>alive\<close>: that process has not been killed; \<open>machine\<close>: a guest was
  started or loaded in it, which Firecracker does only once; \<open>reg\<close>: the registry holds the slot.
\<close>

record shared_slot =
  sstate :: VMState
  spawned :: bool
  alive :: bool
  machine :: bool
  reg :: bool

datatype place =
    CreateBoot | CreateSpawn | CreateApi | CreateRunning | CreateKill | CreateDead
  | FinCheck | FinLoad | FinRunning
  | MigLock | MigWork | MigKill | MigMigrated | MigResume | MigRunning | MigDead
  | AbCheck | AbKill | AbUnreg
  | DelKill | DelDead | DelUnreg
  | Answered bool

definition kill_shared :: "shared_slot \<Rightarrow> shared_slot" where
  "kill_shared s = (if spawned s then s\<lparr>alive := False\<rparr> else s)"

section \<open>The steps of the handlers\<close>

text \<open>
  Each function gives the possible successors of a place, none if the place belongs to another
  handler. An API call fails on a process that is not alive and may fail otherwise.

  \<open>handleCreateVM\<close> after \<open>putVM\<close>: \<open>boot\<close> with its API calls up to \<open>Resume\<close>, and the error path.
\<close>

fun create_next :: "place \<Rightarrow> shared_slot \<Rightarrow> (place \<times> shared_slot) list" where
  "create_next CreateBoot s = [(CreateSpawn, s\<lparr>sstate := StateBooting\<rparr>)]"
| "create_next CreateSpawn s = [(CreateApi, s\<lparr>spawned := True, alive := True\<rparr>), (CreateKill, s)]"
| "create_next CreateApi s = (CreateKill, s) # (if alive s then [(CreateRunning, s\<lparr>machine := True\<rparr>)] else [])"
| "create_next CreateRunning s = [(Answered True, s\<lparr>sstate := StateRunning\<rparr>)]"
| "create_next CreateKill s = [(CreateDead, kill_shared s)]"
| "create_next CreateDead s = [(Answered False, s\<lparr>sstate := StateDead\<rparr>)]"
| "create_next _ s = []"

text \<open>\<open>handleFinalize\<close>: the check of the state, \<open>LoadSnapshot\<close>, the new state.\<close>

fun finalize_next :: "place \<Rightarrow> shared_slot \<Rightarrow> (place \<times> shared_slot) list" where
  "finalize_next FinCheck s = [(if sstate s = StateReceiving then FinLoad else Answered False, s)]"
| "finalize_next FinLoad s = (Answered False, s) # (if alive s \<and> \<not> machine s then [(FinRunning, s\<lparr>machine := True\<rparr>)] else [])"
| "finalize_next FinRunning s = [(Answered True, s\<lparr>sstate := StateRunning\<rparr>)]"
| "finalize_next _ s = []"

text \<open>\<open>migrate\<close>: check and change of the state under one lock, \<open>migrateInner\<close>, success or rollback.\<close>

fun migrate_next :: "place \<Rightarrow> shared_slot \<Rightarrow> (place \<times> shared_slot) list" where
  "migrate_next MigLock s = [if sstate s = StateRunning then (MigWork, s\<lparr>sstate := StateMigrating\<rparr>) else (Answered False, s)]"
| "migrate_next MigWork s = [(MigKill, s), (MigResume, s)]"
| "migrate_next MigKill s = [(MigMigrated, kill_shared s)]"
| "migrate_next MigMigrated s = [(Answered True, s\<lparr>sstate := StateMigrated\<rparr>)]"
| "migrate_next MigResume s = (MigDead, s) # (if alive s then [(MigRunning, s)] else [])"
| "migrate_next MigRunning s = [(Answered False, s\<lparr>sstate := StateRunning\<rparr>)]"
| "migrate_next MigDead s = [(Answered False, s\<lparr>sstate := StateDead\<rparr>)]"
| "migrate_next _ s = []"

text \<open>\<open>handleAbort\<close> and \<open>handleDeleteVM\<close>.\<close>

fun abort_next :: "place \<Rightarrow> shared_slot \<Rightarrow> (place \<times> shared_slot) list" where
  "abort_next AbCheck s = [(if sstate s = StateReceiving then AbKill else Answered False, s)]"
| "abort_next AbKill s = [(AbUnreg, kill_shared s)]"
| "abort_next AbUnreg s = [(Answered True, s\<lparr>reg := False\<rparr>)]"
| "abort_next _ s = []"

fun delete_next :: "place \<Rightarrow> shared_slot \<Rightarrow> (place \<times> shared_slot) list" where
  "delete_next DelKill s = [(DelDead, kill_shared s)]"
| "delete_next DelDead s = [(DelUnreg, s\<lparr>sstate := StateDead\<rparr>)]"
| "delete_next DelUnreg s = [(Answered True, s\<lparr>reg := False\<rparr>)]"
| "delete_next _ s = []"

definition place_next :: "place \<Rightarrow> shared_slot \<Rightarrow> (place \<times> shared_slot) list" where
  "place_next p s = create_next p s @ finalize_next p s @ migrate_next p s @ abort_next p s @ delete_next p s"

section \<open>Interleavings\<close>

record race =
  slot_of :: shared_slot
  threads :: "place list"

text \<open>
  A new request reaches the slot only through the registry. Another slot may take its place there,
  and a \<open>prepare\<close> kills the process of the slot it replaces.
\<close>

inductive race_step :: "race \<Rightarrow> race \<Rightarrow> bool" where
  run_thread: "i < length (threads c) \<Longrightarrow> (p, s) \<in> set (place_next (threads c ! i) (slot_of c)) \<Longrightarrow>
     race_step c (c\<lparr>slot_of := s, threads := (threads c)[i := p]\<rparr>)"
| new_request: "reg (slot_of c) \<Longrightarrow> p \<in> {FinCheck, MigLock, AbCheck, DelKill} \<Longrightarrow> race_step c (c\<lparr>threads := threads c @ [p]\<rparr>)"
| displaced: "race_step c (c\<lparr>slot_of := (slot_of c)\<lparr>reg := False\<rparr>\<rparr>)"
| displaced_kill: "race_step c (c\<lparr>slot_of := kill_shared (slot_of c)\<rparr>)"

text \<open>A slot starts in \<open>handleCreateVM\<close>, right after \<open>putVM\<close>, or as what \<open>handlePrepare\<close> has registered.\<close>

definition created_slot :: race where
  "created_slot = \<lparr>slot_of = \<lparr>sstate = StateZero, spawned = False, alive = False, machine = False, reg = True\<rparr>, threads = [CreateBoot]\<rparr>"

definition prepared_slot :: race where
  "prepared_slot = \<lparr>slot_of = \<lparr>sstate = StateReceiving, spawned = True, alive = True, machine = False, reg = True\<rparr>, threads = []\<rparr>"

inductive race_reach :: "race \<Rightarrow> bool" where
  from_create: "race_reach created_slot"
| from_prepare: "race_reach prepared_slot"
| race_more: "race_reach c \<Longrightarrow> race_step c c' \<Longrightarrow> race_reach c'"

section \<open>One migration at a time\<close>

definition in_migration :: "place \<Rightarrow> bool" where
  "in_migration p \<longleftrightarrow> p \<in> {MigWork, MigKill, MigMigrated, MigResume, MigRunning, MigDead}"

text \<open>The threads that may still set the state to running, or hold the migration.\<close>

definition holds :: "place \<Rightarrow> bool" where
  "holds p \<longleftrightarrow> in_migration p \<or> p \<in> {CreateBoot, CreateSpawn, CreateApi, CreateRunning, FinRunning}"

definition tokens :: "race \<Rightarrow> nat" where
  "tokens c = length (filter holds (threads c)) + (if sstate (slot_of c) = StateRunning then 1 else 0)"

definition race_inv :: "race \<Rightarrow> bool" where
  "race_inv c \<longleftrightarrow> tokens c \<le> 1 \<and>
     (\<not> machine (slot_of c) \<and> (sstate (slot_of c) = StateReceiving \<or> FinLoad \<in> set (threads c)) \<longrightarrow> tokens c = 0)"

lemma count_update:
  "i < length xs \<Longrightarrow> length (filter P (xs[i := p])) + (if P (xs ! i) then 1 else 0) = length (filter P xs) + (if P p then 1 else 0)"
  by (subst (2 3) id_take_nth_drop [of i xs]) (simp_all add: upd_conv_take_nth_drop)

lemma tokens_update:
  "i < length (threads c) \<Longrightarrow>
   tokens (c\<lparr>slot_of := s, threads := (threads c)[i := p]\<rparr>) + (if holds (threads c ! i) then 1 else 0) + (if sstate (slot_of c) = StateRunning then 1 else 0)
   = tokens c + (if holds p then 1 else 0) + (if sstate s = StateRunning then 1 else 0)"
  using count_update [of i "threads c" holds p] by (simp add: tokens_def)

lemmas next_defs = place_next_def holds_def in_migration_def kill_shared_def

text \<open>What one step of a thread does to its token, the state and the machine.\<close>

lemma place_step:
  assumes "(p', s') \<in> set (place_next p s)"
  shows "(if holds p' then 1 else 0) + (if sstate s' = StateRunning then 1 else 0) \<le>
      (if holds p then 1 else 0) + (if sstate s = StateRunning then (1 :: nat) else 0) \<or>
    p = FinLoad \<and> p' = FinRunning \<and> sstate s' = sstate s \<and> \<not> machine s \<and> machine s'"
    and "sstate s' = StateReceiving \<Longrightarrow> sstate s = StateReceiving"
    and "machine s \<Longrightarrow> machine s'"
    and "p' = FinLoad \<Longrightarrow> sstate s = StateReceiving \<and> s' = s"
  using assms by (cases p; auto simp: next_defs split: if_splits)+

lemma race_inv_step: "race_step c c' \<Longrightarrow> race_inv c \<Longrightarrow> race_inv c'"
proof (induction rule: race_step.induct)
  case (run_thread i c p s)
  note st = place_step [OF run_thread.hyps(2)] and tok = tokens_update [OF run_thread.hyps(1), where s = s and p = p]
  let ?c = "c\<lparr>slot_of := s, threads := (threads c)[i := p]\<rparr>"
  have inv: "tokens c \<le> 1" "\<not> machine (slot_of c) \<Longrightarrow> sstate (slot_of c) = StateReceiving \<or> FinLoad \<in> set (threads c) \<Longrightarrow> tokens c = 0"
    using run_thread.prems by (simp_all add: race_inv_def)
  have loads: "FinLoad \<in> set (threads c) \<or> sstate (slot_of c) = StateReceiving" if "FinLoad \<in> set (threads ?c)"
    using that st(4) set_update_subset_insert [of "threads c" i p] by auto
  show ?case
  proof (cases "threads c ! i = FinLoad \<and> p = FinRunning \<and> \<not> machine (slot_of c) \<and> machine s")
    case True
    then have "FinLoad \<in> set (threads c)" using run_thread.hyps(1) by (metis nth_mem)
    then have "tokens c = 0" using inv(2) True by blast
    then have "tokens ?c \<le> 1" using tok True st(1) by (auto simp: holds_def in_migration_def tokens_def split: if_splits)
    then show ?thesis using True by (simp add: race_inv_def)
  next
    case False
    then have le: "tokens ?c \<le> tokens c" using tok st(1) by auto
    have "tokens c = 0" if "\<not> machine s" "sstate s = StateReceiving \<or> FinLoad \<in> set (threads ?c)"
      using that st(2,3) loads inv(2) by auto
    then show ?thesis using le inv(1) by (auto simp: race_inv_def)
  qed
next
  case (new_request c p)
  then have "\<not> holds p" "p \<noteq> FinLoad" by (auto simp: holds_def in_migration_def)
  then show ?case using new_request.prems by (simp add: race_inv_def tokens_def)
qed (auto simp: race_inv_def tokens_def kill_shared_def split: if_splits)

lemma race_reach_inv: "race_reach c \<Longrightarrow> race_inv c"
proof (induction rule: race_reach.induct)
  case (race_more c c')
  then show ?case by (blast intro: race_inv_step)
qed (simp_all add: race_inv_def tokens_def created_slot_def prepared_slot_def holds_def in_migration_def)

lemma tokens_member: "p \<in> set (threads c) \<Longrightarrow> holds p \<Longrightarrow> 1 \<le> tokens c"
  by (auto simp: tokens_def Suc_le_eq length_greater_0_conv filter_empty_conv)

text \<open>
  C7: One migration at a time, however requests interleave. In every reachable interleaving of
  create, finalize, migrate, abort and delete requests on a slot, at most one migration is past
  its check, and while it is, the state is not running, so that no other can pass, and no boot or
  finalize is about to make it running.
\<close>

theorem one_migration_at_a_time:
  assumes "race_reach c"
  shows "length (filter in_migration (threads c)) \<le> 1 \<and>
    ((\<exists>p\<in>set (threads c). in_migration p) \<longrightarrow>
       sstate (slot_of c) \<noteq> StateRunning \<and> set (threads c) \<inter> {CreateBoot, CreateSpawn, CreateApi, CreateRunning, FinRunning} = {})"
proof -
  have inv: "tokens c \<le> 1" using race_reach_inv [OF assms] by (simp add: race_inv_def)
  have "length (filter in_migration xs) + length (filter (\<lambda>p. holds p \<and> \<not> in_migration p) xs) = length (filter holds xs)" for xs
    by (induction xs) (auto simp: holds_def)
  from this [of "threads c"] have sum: "length (filter in_migration (threads c)) +
      length (filter (\<lambda>p. holds p \<and> \<not> in_migration p) (threads c)) + (if sstate (slot_of c) = StateRunning then 1 else 0) \<le> 1"
    using inv by (simp add: tokens_def)
  have none: "sstate (slot_of c) \<noteq> StateRunning \<and> filter (\<lambda>p. holds p \<and> \<not> in_migration p) (threads c) = []"
    if "p \<in> set (threads c)" "in_migration p" for p
  proof -
    have "filter in_migration (threads c) \<noteq> []" using that by (auto simp: filter_empty_conv)
    then have "1 \<le> length (filter in_migration (threads c))" by (simp add: Suc_le_eq)
    then have "length (filter (\<lambda>p. holds p \<and> \<not> in_migration p) (threads c)) + (if sstate (slot_of c) = StateRunning then 1 else 0) = 0"
      using sum by linarith
    then show ?thesis by (simp split: if_splits)
  qed
  have "set (threads c) \<inter> {CreateBoot, CreateSpawn, CreateApi, CreateRunning, FinRunning} = {}"
    if "filter (\<lambda>p. holds p \<and> \<not> in_migration p) (threads c) = []"
    using that by (auto simp: filter_empty_conv holds_def in_migration_def)
  then show ?thesis using sum none by auto
qed

section \<open>Schedules\<close>

text \<open>Executable runs for concrete interleavings: which thread moves to which of its successors, and which requests arrive.\<close>

datatype move = Turn nat nat | Request place

fun play :: "move list \<Rightarrow> race \<Rightarrow> race option" where
  "play [] c = Some c"
| "play (Turn i k # ms) c =
     (if i < length (threads c) \<and> k < length (place_next (threads c ! i) (slot_of c))
      then (case place_next (threads c ! i) (slot_of c) ! k of (p, s) \<Rightarrow> play ms (c\<lparr>slot_of := s, threads := (threads c)[i := p]\<rparr>))
      else None)"
| "play (Request p # ms) c =
     (if reg (slot_of c) \<and> p \<in> {FinCheck, MigLock, AbCheck, DelKill} then play ms (c\<lparr>threads := threads c @ [p]\<rparr>) else None)"

lemma play_reach: "race_reach c \<Longrightarrow> play ms c = Some c' \<Longrightarrow> race_reach c'"
proof (induction ms c rule: play.induct)
  case (2 i k ms c)
  obtain p s where ps: "place_next (threads c ! i) (slot_of c) ! k = (p, s)" by fastforce
  have l: "i < length (threads c)" "k < length (place_next (threads c ! i) (slot_of c))"
    using 2(3) by (auto split: if_splits)
  then have "(p, s) \<in> set (place_next (threads c ! i) (slot_of c))" using ps by (metis nth_mem)
  then have "race_reach (c\<lparr>slot_of := s, threads := (threads c)[i := p]\<rparr>)"
    using 2(2) l(1) by (blast intro: race_more run_thread)
  then show ?case using 2(1) [OF conjI [OF l] ps [symmetric]] 2(3) l ps by simp
next
  case (3 p ms c)
  then have r: "reg (slot_of c)" "p \<in> {FinCheck, MigLock, AbCheck, DelKill}" by (auto split: if_splits)
  then have "race_reach (c\<lparr>threads := threads c @ [p]\<rparr>)" using 3(2) by (blast intro: race_more new_request)
  then show ?case using 3(1) [OF conjI [OF r]] 3(3) r by simp
qed simp

theorem one_migration_at_a_time_witness:
  "\<exists>c. race_reach c \<and> threads c = [Answered True, MigWork, Answered False] \<and> sstate (slot_of c) = StateMigrating \<and>
     length (filter in_migration (threads c)) \<le> 1"
proof -
  obtain c where c: "play [Request FinCheck, Turn 0 0, Turn 0 1, Turn 0 0, Request MigLock, Request MigLock, Turn 1 0, Turn 2 0] prepared_slot = Some c"
    "threads c = [Answered True, MigWork, Answered False]" "sstate (slot_of c) = StateMigrating"
    by (simp add: prepared_slot_def place_next_def)
  then show ?thesis using play_reach [OF from_prepare c(1)] one_migration_at_a_time [of c] by blast
qed

section \<open>Races\<close>

text \<open>
  C18: Two races that the handlers do not exclude. A delete that comes while a create is still
  before its spawn finds no process to kill: both answer success, and the VM runs on, outside the
  registry, where no request finds it. And an abort that has read the state receiving kills the
  process after a finalize has resumed the guest in it: both answer success, so the source gives
  its copy up, and the guest is gone.
\<close>

theorem delete_and_abort_races:
  "(\<exists>c. race_reach c \<and> threads c = [Answered True, Answered True] \<and> sstate (slot_of c) = StateRunning \<and> alive (slot_of c) \<and>
      machine (slot_of c) \<and> \<not> reg (slot_of c)) \<and>
   (\<exists>c. race_reach c \<and> threads c = [Answered True, Answered True] \<and> sstate (slot_of c) = StateRunning \<and> \<not> alive (slot_of c))"
proof -
  obtain c where c: "play [Turn 0 0, Request DelKill, Turn 1 0, Turn 1 0, Turn 1 0, Turn 0 0, Turn 0 1, Turn 0 0] created_slot = Some c"
    "threads c = [Answered True, Answered True]" "sstate (slot_of c) = StateRunning" "alive (slot_of c)" "machine (slot_of c)" "\<not> reg (slot_of c)"
    by (simp add: created_slot_def place_next_def kill_shared_def)
  obtain d where d: "play [Request FinCheck, Request AbCheck, Turn 1 0, Turn 0 0, Turn 0 1, Turn 0 0, Turn 1 0, Turn 1 0] prepared_slot = Some d"
    "threads d = [Answered True, Answered True]" "sstate (slot_of d) = StateRunning" "\<not> alive (slot_of d)"
    by (simp add: prepared_slot_def place_next_def kill_shared_def)
  show ?thesis using c d play_reach [OF from_create c(1)] play_reach [OF from_prepare d(1)] by blast
qed

end
