(* ===== verification/Agent_Routes.thy ===== *)
theory Agent_Routes
  imports Agent_Server
begin

text \<open>
  The routing table of \<open>ListenAndServe\<close> and the part of \<open>net/http\<close>'s \<open>ServeMux\<close> that it uses:
  patterns of a method and path segments with single-segment wildcards, redirection of unclean
  paths, 404 and 405. The URLs that \<open>migrate.go\<close> and \<open>cmd/fcprobe\<close> build reach the handlers meant.
  Percent-encoding is left out: the lemmas are about segments that contain no reserved character.
\<close>

section \<open>Patterns\<close>

datatype seg = Lit string | Wild

datatype handler = HCreate | HGet | HDelete | HMigrate | HEvents | HHealth | HPrepare | HMem | HVMState | HFinalize | HAbort

definition routes :: "(string \<times> seg list \<times> handler) list" where
  "routes =
     [(''POST'', [Lit ''vms''], HCreate),
      (''GET'', [Lit ''vms'', Wild], HGet),
      (''DELETE'', [Lit ''vms'', Wild], HDelete),
      (''POST'', [Lit ''vms'', Wild, Lit ''migrate''], HMigrate),
      (''GET'', [Lit ''events''], HEvents),
      (''GET'', [Lit ''healthz''], HHealth),
      (''POST'', [Lit ''internal'', Lit ''vms'', Wild, Lit ''prepare''], HPrepare),
      (''POST'', [Lit ''internal'', Lit ''vms'', Wild, Lit ''mem''], HMem),
      (''POST'', [Lit ''internal'', Lit ''vms'', Wild, Lit ''vmstate''], HVMState),
      (''POST'', [Lit ''internal'', Lit ''vms'', Wild, Lit ''finalize''], HFinalize),
      (''POST'', [Lit ''internal'', Lit ''vms'', Wild, Lit ''abort''], HAbort)]"

fun match_segs :: "seg list \<Rightarrow> string list \<Rightarrow> string list option" where
  "match_segs [] [] = Some []"
| "match_segs (Lit s # ps) (x # xs) = (if s = x then match_segs ps xs else None)"
| "match_segs (Wild # ps) (x # xs) = (if x = '''' then None else map_option ((#) x) (match_segs ps xs))"
| "match_segs _ _ = None"

text \<open>A \<open>GET\<close> pattern also serves \<open>HEAD\<close>.\<close>

definition meth_match :: "string \<Rightarrow> string \<Rightarrow> bool" where
  "meth_match pat m \<longleftrightarrow> pat = m \<or> pat = ''GET'' \<and> m = ''HEAD''"

datatype routed = To handler "string list" | MethodNotAllowed | NotFound | MovedTo string

definition cleanPath :: "string \<Rightarrow> string" where
  "cleanPath p =
     (if p = '''' then ''/''
      else let q = (if hd p = CHR ''/'' then p else CHR ''/'' # p); np = Clean q
           in if last q = CHR ''/'' \<and> np \<noteq> ''/'' then np @ ''/'' else np)"

definition path_segs :: "string \<Rightarrow> string list" where
  "path_segs p = tl (split_slash [] p)"

fun first_match :: "string \<Rightarrow> string list \<Rightarrow> (string \<times> seg list \<times> handler) list \<Rightarrow> (handler \<times> string list) option" where
  "first_match m xs [] = None"
| "first_match m xs ((pm, ps, k) # rs) =
     (case match_segs ps xs of
        Some vs \<Rightarrow> if meth_match pm m then Some (k, vs) else first_match m xs rs
      | None \<Rightarrow> first_match m xs rs)"

definition mux :: "string \<Rightarrow> string \<Rightarrow> routed" where
  "mux m p =
     (if cleanPath p \<noteq> p then MovedTo (cleanPath p)
      else case first_match m (path_segs p) routes of
        Some (k, vs) \<Rightarrow> To k vs
      | None \<Rightarrow> if \<exists>(pm, ps, k)\<in>set routes. match_segs ps (path_segs p) \<noteq> None then MethodNotAllowed else NotFound)"

section \<open>URLs\<close>

definition cut_at :: "char \<Rightarrow> string \<Rightarrow> string \<times> string" where
  "cut_at c s = (takeWhile (\<lambda>x. x \<noteq> c) s, drop 1 (dropWhile (\<lambda>x. x \<noteq> c) s))"

lemma shorter_rest: "q \<noteq> [] \<Longrightarrow> length (drop 1 (dropWhile P q)) < length q"
  using length_dropWhile_le [of P q] by (cases q) auto

text \<open>\<open>URL.Query().Get\<close>: pairs with a semicolon are errors and dropped, the first value counts.\<close>

function query_get :: "string \<Rightarrow> string \<Rightarrow> string" where
  "query_get k q =
     (if q = '''' then ''''
      else case cut_at (CHR ''&'') q of (pair, rest) \<Rightarrow>
        if CHR '';'' \<notin> set pair \<and> pair \<noteq> '''' \<and> fst (cut_at (CHR ''='') pair) = k then snd (cut_at (CHR ''='') pair)
        else query_get k rest)"
  by pat_completeness auto

termination
  by (relation "measure (\<lambda>(k, q). length q)") (auto simp: cut_at_def intro: shorter_rest [simplified])

declare query_get.simps [simp del]

text \<open>The path segments and query values the program itself uses.\<close>

definition plain_seg :: "string \<Rightarrow> bool" where
  "plain_seg s \<longleftrightarrow> plain_name s \<and> (\<forall>c\<in>set s. c \<notin> set ''?%#'')"

definition plain_value :: "string \<Rightarrow> bool" where
  "plain_value s \<longleftrightarrow> (\<forall>c\<in>set s. c \<notin> set ''&;%+#'')"

primrec peer_handler :: "peer_req \<Rightarrow> handler" where
  "peer_handler (RPrepare vc) = HPrepare"
| "peer_handler (RMem rd bs) = HMem"
| "peer_handler (RVMState bs) = HVMState"
| "peer_handler RFinalize = HFinalize"
| "peer_handler RAbort = HAbort"

section \<open>Clean paths\<close>

lemma split_join:
  "cs \<noteq> [] \<Longrightarrow> \<forall>c\<in>set cs. CHR ''/'' \<notin> set c \<Longrightarrow> split_slash [] (join_slash cs) = cs"
proof (induction cs rule: rev_induct)
  case (snoc c cs)
  then show ?case
    by (cases "cs = []") (simp_all add: join_slash_snoc split_slash_append split_slash_plain)
qed simp

lemma split_rooted:
  "cs \<noteq> [] \<Longrightarrow> \<forall>c\<in>set cs. CHR ''/'' \<notin> set c \<Longrightarrow> split_slash [] (CHR ''/'' # join_slash cs) = '''' # cs"
  by (simp add: split_join)

lemma clean_plain: "\<forall>c\<in>set cs. plain_name c \<Longrightarrow> foldl (clean_step r) st cs = st @ cs"
  by (induction cs arbitrary: st) (auto simp: clean_step_def plain_name_def)

lemma plain_path:
  assumes "cs \<noteq> []" and "\<forall>c\<in>set cs. plain_name c"
  shows "cleanPath (CHR ''/'' # join_slash cs) = CHR ''/'' # join_slash cs" "path_segs (CHR ''/'' # join_slash cs) = cs"
proof -
  have n: "\<forall>c\<in>set cs. CHR ''/'' \<notin> set c" using assms(2) by (simp add: plain_name_def)
  have s: "split_slash [] (CHR ''/'' # join_slash cs) = '''' # cs" by (rule split_rooted [OF assms(1) n])
  then show "path_segs (CHR ''/'' # join_slash cs) = cs" by (simp add: path_segs_def)
  have "Clean (CHR ''/'' # join_slash cs) = CHR ''/'' # join_slash cs"
    using clean_plain [OF assms(2), of True "[]"] by (simp add: Clean_def is_rooted_def s clean_step_def del: split_slash.simps)
  moreover have "last (CHR ''/'' # join_slash cs) \<noteq> CHR ''/''"
  proof -
    obtain ds d where cs: "cs = ds @ [d]" using assms(1) by (cases cs rule: rev_cases) auto
    then have "d \<noteq> ''''" "CHR ''/'' \<notin> set d" using assms(2) n by (auto simp: plain_name_def)
    then have "join_slash cs \<noteq> ''''" "last (join_slash cs) = last d" "last d \<noteq> CHR ''/''"
      by (auto simp: cs join_slash_snoc dest: last_in_set)
    then show ?thesis by simp
  qed
  ultimately show "cleanPath (CHR ''/'' # join_slash cs) = CHR ''/'' # join_slash cs"
    by (simp add: cleanPath_def)
qed

lemma mux_plain:
  assumes "cs \<noteq> []" and "\<forall>c\<in>set cs. plain_name c" and "first_match m cs routes = Some (k, vs)"
  shows "mux m (CHR ''/'' # join_slash cs) = To k vs"
  using assms by (simp add: mux_def plain_path)

lemma cut_none: "c \<notin> set s \<Longrightarrow> cut_at c s = (s, '''')"
  by (induction s) (auto simp: cut_at_def)

lemma cut_first: "c \<notin> set s \<Longrightarrow> cut_at c (s @ c # t) = (s, t)"
  by (induction s) (auto simp: cut_at_def)

lemma plain_segD: "plain_seg i \<Longrightarrow> plain_name i \<and> i \<noteq> '''' \<and> CHR ''?'' \<notin> set i"
  by (auto simp: plain_seg_def plain_name_def)

section \<open>Client and server agree\<close>

lemma peer_route:
  assumes "plain_seg i"
  shows "mux ''POST'' (fst (cut_at (CHR ''?'') (peer_path i req))) = To (peer_handler req) [i]"
proof -
  have q: "CHR ''?'' \<notin> set i" and ne: "i \<noteq> ''''" using plain_segD [OF assms] by simp_all
  have none: "cut_at (CHR ''?'') (''/internal/vms/'' @ i @ ''/'' @ v) = (''/internal/vms/'' @ i @ ''/'' @ v, '''')"
    if "CHR ''?'' \<notin> set v" for v
    by (rule cut_none) (use q that in simp)
  have mem: "cut_at (CHR ''?'') (''/internal/vms/'' @ i @ ''/mem?round='' @ rd) = (''/internal/vms/'' @ i @ ''/mem'', ''round='' @ rd)" for rd
    using cut_first [of "CHR ''?''" "''/internal/vms/'' @ i @ ''/mem''" "''round='' @ rd"] q by simp
  obtain v where v: "v \<in> {''prepare'', ''mem'', ''vmstate'', ''finalize'', ''abort''}"
    and c: "fst (cut_at (CHR ''?'') (peer_path i req)) = CHR ''/'' # join_slash [''internal'', ''vms'', i, v]"
    and fm: "first_match ''POST'' [''internal'', ''vms'', i, v] routes = Some (peer_handler req, [i])"
  proof (cases req)
    case (RPrepare vc)
    then show ?thesis using that [of "''prepare''"] none [of "''prepare''"] ne by (simp add: peer_path_def routes_def meth_match_def)
  next
    case (RMem rd bs)
    then show ?thesis using that [of "''mem''"] mem [of rd] ne by (simp add: peer_path_def routes_def meth_match_def)
  next
    case (RVMState bs)
    then show ?thesis using that [of "''vmstate''"] none [of "''vmstate''"] ne by (simp add: peer_path_def routes_def meth_match_def)
  next
    case RFinalize
    then show ?thesis using that [of "''finalize''"] none [of "''finalize''"] ne by (simp add: peer_path_def routes_def meth_match_def)
  next
    case RAbort
    then show ?thesis using that [of "''abort''"] none [of "''abort''"] ne by (simp add: peer_path_def routes_def meth_match_def)
  qed
  have "plain_name v" using v by (auto simp: plain_name_def)
  then show ?thesis
    unfolding c by (intro mux_plain fm) (use plain_segD [OF assms] in \<open>auto simp: plain_name_def\<close>)
qed

lemma public_route:
  assumes "plain_seg i"
  shows "mux ''GET'' (''/vms/'' @ i) = To HGet [i]" "mux ''DELETE'' (''/vms/'' @ i) = To HDelete [i]"
    "mux ''POST'' (''/vms/'' @ i @ ''/migrate'') = To HMigrate [i]" "mux ''POST'' ''/vms'' = To HCreate []"
proof -
  have i: "plain_name i" "i \<noteq> ''''" using plain_segD [OF assms] by simp_all
  have l: "plain_name ''vms''" "plain_name ''migrate''" by (simp_all add: plain_name_def)
  have two: "mux m (''/vms/'' @ i) = To k [i]" if "first_match m [''vms'', i] routes = Some (k, [i])" for m k
    using mux_plain [of "[''vms'', i]" m k "[i]"] that i(1) l by simp
  show "mux ''GET'' (''/vms/'' @ i) = To HGet [i]" "mux ''DELETE'' (''/vms/'' @ i) = To HDelete [i]"
    by (intro two; simp add: routes_def meth_match_def i)+
  show "mux ''POST'' (''/vms/'' @ i @ ''/migrate'') = To HMigrate [i]"
    using mux_plain [of "[''vms'', i, ''migrate'']" "''POST''" HMigrate "[i]"] i l by (simp add: routes_def meth_match_def)
  show "mux ''POST'' ''/vms'' = To HCreate []"
    using mux_plain [of "[''vms'']" "''POST''" HCreate "[]"] l by (simp add: routes_def meth_match_def)
qed

lemma round_query:
  assumes "plain_seg i" and "plain_value rd"
  shows "query_get ''round'' (snd (cut_at (CHR ''?'') (peer_path i (RMem rd bs)))) = rd"
proof -
  have "snd (cut_at (CHR ''?'') (peer_path i (RMem rd bs))) = ''round='' @ rd"
    using cut_first [of "CHR ''?''" "''/internal/vms/'' @ i @ ''/mem''" "''round='' @ rd"] plain_segD [OF assms(1)]
    by (simp add: peer_path_def)
  moreover have "cut_at (CHR ''&'') (''round='' @ rd) = (''round='' @ rd, '''')"
    by (rule cut_none) (use assms(2) in \<open>auto simp: plain_value_def\<close>)
  moreover have "cut_at (CHR ''='') (''round='' @ rd) = (''round'', rd)"
    using cut_first [of "CHR ''=''" "''round''" rd] by simp
  moreover have "CHR '';'' \<notin> set (''round='' @ rd)" using assms(2) by (auto simp: plain_value_def)
  ultimately show ?thesis by (subst query_get.simps) simp
qed

text \<open>The rounds of a migration are plain values.\<close>

lemma plain_rounds: "plain_value ''base''" "plain_value ''final''" "plain_value (Itoa r)"
proof -
  have d: "digit_char d \<notin> set ''&;%+#''" "CHR ''-'' \<notin> set ''&;%+#''" if "d < 10" for d
  proof -
    have "digit_val (digit_char d) = Some (int d)" using that by (rule digit_val_char)
    moreover have "\<forall>c\<in>set ''&;%+#''. digit_val c = None" by (simp add: digit_val_def)
    ultimately show "digit_char d \<notin> set ''&;%+#''" by (metis option.distinct(1))
  qed simp
  show "plain_value (Itoa r)"
    using d by (fastforce simp: plain_value_def Itoa_def dest!: nat_dec_digits)
qed (simp_all add: plain_value_def)

text \<open>Two patterns that can match one path have the same length and no two different literals.\<close>

fun overlap :: "seg list \<Rightarrow> seg list \<Rightarrow> bool" where
  "overlap [] [] = True"
| "overlap (Lit s # ps) (Lit t # qs) = (s = t \<and> overlap ps qs)"
| "overlap (p # ps) (q # qs) = overlap ps qs"
| "overlap _ _ = False"

lemma match_segs_Nil: "match_segs ps [] \<noteq> None \<longleftrightarrow> ps = []"
  by (cases ps rule: list.exhaust) (auto elim: match_segs.elims)

lemma match_segs_Cons:
  "match_segs ps (x # xs) \<noteq> None \<Longrightarrow> \<exists>p ps'. ps = p # ps' \<and> (p = Lit x \<or> p = Wild) \<and> match_segs ps' xs \<noteq> None"
  by (cases ps; cases "hd ps") (auto split: if_splits)

lemma match_overlap: "match_segs ps xs \<noteq> None \<Longrightarrow> match_segs qs xs \<noteq> None \<Longrightarrow> overlap ps qs"
proof (induction xs arbitrary: ps qs)
  case Nil
  then have "ps = []" "qs = []" by (simp_all only: match_segs_Nil)
  then show ?case by simp
next
  case (Cons x xs)
  obtain p ps' q qs' where "ps = p # ps'" "qs = q # qs'" "p = Lit x \<or> p = Wild" "q = Lit x \<or> q = Wild"
    "match_segs ps' xs \<noteq> None" "match_segs qs' xs \<noteq> None"
    using match_segs_Cons [OF Cons.prems(1)] match_segs_Cons [OF Cons.prems(2)] by blast
  then show ?case using Cons.IH [of ps' qs'] by auto
qed

lemma at_most_one: "sorted_wrt (\<lambda>x y. \<not> (P x \<and> P y)) xs \<Longrightarrow> length (filter P xs) \<le> 1"
  by (induction xs) (auto simp: filter_empty_conv)

lemma routes_apart:
  "sorted_wrt (\<lambda>(m, ps, k) (m', qs, k'). \<not> ((m = m' \<or> {m, m'} = {''GET'', ''HEAD''}) \<and> overlap ps qs)) routes"
  by (simp add: routes_def doubleton_eq_iff)

lemma routes_unambiguous:
  "length (filter (\<lambda>(pm, ps, k). meth_match pm m \<and> match_segs ps xs \<noteq> None) routes) \<le> 1"
proof (rule at_most_one, rule sorted_wrt_mono_rel [OF _ routes_apart])
  fix r r' :: "string \<times> seg list \<times> handler"
  obtain pm ps k pm' qs k' where r: "r = (pm, ps, k)" "r' = (pm', qs, k')" by (cases r; cases r') auto
  assume "(\<lambda>(m, ps, k) (m', qs, k'). \<not> ((m = m' \<or> {m, m'} = {''GET'', ''HEAD''}) \<and> overlap ps qs)) r r'"
  then show "\<not> ((case r of (pm, ps, k) \<Rightarrow> meth_match pm m \<and> match_segs ps xs \<noteq> None) \<and>
      (case r' of (pm, ps, k) \<Rightarrow> meth_match pm m \<and> match_segs ps xs \<noteq> None))"
    using match_overlap [of ps xs qs] by (auto simp: r meth_match_def)
qed



end
