(* ===== verification/Agent_Main.thy ===== *)
theory Agent_Main
  imports Agent_Server
begin

text \<open>
  \<open>cmd/migrated/main.go\<close>: the agent's flags and their defaults, with the part of the \<open>flag\<close> package
  that it uses (string and boolean flags), and the agent it starts.
\<close>

section \<open>Flags\<close>

datatype flag_kind = FString | FBool

definition ParseBool :: "string \<Rightarrow> bool option" where
  "ParseBool s =
     (if s \<in> {''1'', ''t'', ''T'', ''TRUE'', ''true'', ''True''} then Some True
      else if s \<in> {''0'', ''f'', ''F'', ''FALSE'', ''false'', ''False''} then Some False else None)"

text \<open>
  \<open>FlagSet.Parse\<close>: the settings in order and the arguments that are left. A boolean flag takes its
  value only after an equals sign; the first argument that is no flag ends the parsing.
\<close>

function parse_flags :: "(string \<Rightarrow> flag_kind option) \<Rightarrow> string list \<Rightarrow> gerror + (string \<times> string) list \<times> string list" where
  "parse_flags k [] = Inr ([], [])"
| "parse_flags k (s # rest) =
     (if length s < 2 \<or> hd s \<noteq> CHR ''-'' then Inr ([], s # rest)
      else if s = ''--'' then Inr ([], rest)
      else
        (let body = (if s ! 1 = CHR ''-'' then drop 2 s else tl s);
             name = takeWhile (\<lambda>c. c \<noteq> CHR ''='') body; val = drop (length name + 1) body; has = (CHR ''='' \<in> set body);
             go = (\<lambda>v r. case r of Inl er \<Rightarrow> Inl er | Inr (sets, left) \<Rightarrow> Inr ((name, v) # sets, left))
         in if body = '''' \<or> hd body \<in> {CHR ''-'', CHR ''=''} then Inl (Err ''bad flag syntax: %s'' [AStr s])
            else case k name of
              None \<Rightarrow> if name \<in> {''help'', ''h''} then Inl (Err ''flag: help requested'' [])
                else Inl (Err ''flag provided but not defined: -%s'' [AStr name])
            | Some FBool \<Rightarrow>
                if \<not> has then go ''true'' (parse_flags k rest)
                else if ParseBool val = None then Inl (Err ''invalid boolean value %q for -%s'' [AStr val, AStr name])
                else go val (parse_flags k rest)
            | Some FString \<Rightarrow>
                if has then go val (parse_flags k rest)
                else (case rest of [] \<Rightarrow> Inl (Err ''flag needs an argument: -%s'' [AStr name])
                  | v # rest' \<Rightarrow> go v (parse_flags k rest'))))"
  by pat_completeness auto

termination by (relation "measure (\<lambda>(k, args). length args)") auto

declare parse_flags.simps(2) [simp del]

section \<open>The agent's configuration\<close>

definition migrated_flags :: "string \<Rightarrow> flag_kind option" where
  "migrated_flags n =
     (if n \<in> {''name'', ''listen'', ''data'', ''firecracker'', ''kernel'', ''rootfs'', ''garp-iface''} then Some FString
      else if n = ''live-rounds'' then Some FBool else None)"

definition default_config :: Config where
  "default_config = \<lparr>HostName = ''host'', Listen = '':8500'', DataDir = ''/run/fcmig'', FirecrackerBin = ''/opt/fcmig/firecracker'',
     DefKernel = ''/srv/vmstore/vmlinux'', DefRootfs = ''/srv/vmstore/rootfs.ext4'', GARPIface = ''eth0'', LiveRounds = True\<rparr>"

definition set_flag :: "string \<times> string \<Rightarrow> Config \<Rightarrow> Config" where
  "set_flag nv c =
     (case nv of (n, v) \<Rightarrow>
        if n = ''name'' then c\<lparr>HostName := v\<rparr>
        else if n = ''listen'' then c\<lparr>Listen := v\<rparr>
        else if n = ''data'' then c\<lparr>DataDir := v\<rparr>
        else if n = ''firecracker'' then c\<lparr>FirecrackerBin := v\<rparr>
        else if n = ''kernel'' then c\<lparr>DefKernel := v\<rparr>
        else if n = ''rootfs'' then c\<lparr>DefRootfs := v\<rparr>
        else if n = ''garp-iface'' then c\<lparr>GARPIface := v\<rparr>
        else if n = ''live-rounds'' then c\<lparr>LiveRounds := (ParseBool v = Some True)\<rparr>
        else c)"

definition migrated_config :: "string list \<Rightarrow> gerror + Config" where
  "migrated_config args = (case parse_flags migrated_flags args of
     Inl er \<Rightarrow> Inl er | Inr (sets, left) \<Rightarrow> Inr (fold set_flag sets default_config))"

text \<open>\<open>main\<close>: the agent that serves, on a host with the files \<open>fs\<close>; a flag error ends the program.\<close>

definition migrated_main :: "string list \<Rightarrow> fs \<Rightarrow> gerror + 'p host" where
  "migrated_main args fs = (case migrated_config args of Inl er \<Rightarrow> Inl er | Inr c \<Rightarrow> Inr (New c fs))"

section \<open>What the deployment passes\<close>

lemma parse_string_flag:
  assumes "k name = Some FString" and "name \<noteq> ''''" and "CHR ''='' \<notin> set name" and "hd name \<noteq> CHR ''-''"
  shows "parse_flags k ((CHR ''-'' # name) # v # rest) =
    (case parse_flags k rest of Inl er \<Rightarrow> Inl er | Inr (sets, left) \<Rightarrow> Inr ((name, v) # sets, left))"
proof -
  have t: "takeWhile (\<lambda>c. c \<noteq> CHR ''='') name = name" using assms(3) by (simp add: takeWhile_eq_all_conv) (metis assms(3))
  have "name ! 0 \<noteq> CHR ''-''" using assms(2,4) by (simp add: hd_conv_nth)
  moreover have "hd name \<noteq> CHR ''=''" using assms(2,3) by (metis hd_in_set)
  ultimately show ?thesis using assms by (subst parse_flags.simps(2)) (auto simp: t Let_def split: sum.split)
qed

text \<open>
  The entry point of the containers passes the name and the interface before its own arguments: the
  agent has them, unless those arguments set them again.
\<close>

lemma entrypoint_config:
  assumes "parse_flags migrated_flags args = Inr (sets, left)"
  shows "migrated_config (''-name'' # n # ''-garp-iface'' # i # args) =
    Inr (fold set_flag sets (default_config\<lparr>HostName := n, GARPIface := i\<rparr>))"
  using assms parse_string_flag [of migrated_flags "''name''" n] parse_string_flag [of migrated_flags "''garp-iface''" i]
  by (simp add: migrated_config_def migrated_flags_def set_flag_def)

text \<open>
  The stock mode has to be asked for with an equals sign. As two arguments the flag turns live
  rounds on, and everything behind its value is ignored.
\<close>

lemma stock_mode:
  "migrated_config [''-live-rounds=false''] = Inr (default_config\<lparr>LiveRounds := False\<rparr>)"
  "migrated_config (''-live-rounds'' # ''false'' # args) = Inr default_config"
proof -
  have "parse_flags migrated_flags (''false'' # args) = Inr ([], ''false'' # args)" by (simp add: parse_flags.simps(2))
  then have "parse_flags migrated_flags (''-live-rounds'' # ''false'' # args) = Inr ([(''live-rounds'', ''true'')], ''false'' # args)"
    by (subst parse_flags.simps(2)) (simp add: migrated_flags_def Let_def)
  then show "migrated_config (''-live-rounds'' # ''false'' # args) = Inr default_config"
    by (simp add: migrated_config_def set_flag_def ParseBool_def default_config_def)
  show "migrated_config [''-live-rounds=false''] = Inr (default_config\<lparr>LiveRounds := False\<rparr>)"
    by (simp add: migrated_config_def parse_flags.simps(2) migrated_flags_def set_flag_def ParseBool_def Let_def)
qed

end
