(* ===== verification/Wire_Json.thy ===== *)
theory Wire_Json
  imports Agent_Server
begin

text \<open>
  What crosses the wire as JSON between the agents: the struct tags of the sources as encoders
  and decoders over JSON values. \<open>encoding/json\<close> itself, from values to bytes and back, is the
  identity here; its treatment of struct fields is modelled: an absent field and \<open>null\<close> leave the
  zero value, the last of several equal keys counts, keys match up to case, a value of the wrong
  kind or an integer out of range is an error, unknown fields are ignored.
\<close>

section \<open>Decoding struct fields\<close>

definition lower_char :: "char \<Rightarrow> char" where
  "lower_char c = (let n = (of_char c :: nat) in if 65 \<le> n \<and> n \<le> 90 then char_of (n + 32) else c)"

definition equal_fold :: "string \<Rightarrow> string \<Rightarrow> bool" where
  "equal_fold s t \<longleftrightarrow> map lower_char s = map lower_char t"

text \<open>The value of a field; a value that is not an object has none and is an error.\<close>

fun field_of :: "string \<Rightarrow> json \<Rightarrow> gerror + json" where
  "field_of k (JObj kvs) = (case filter (\<lambda>(k', v). equal_fold k' k) kvs of [] \<Rightarrow> Inr JNull | f # fs \<Rightarrow> Inr (snd (last (f # fs))))"
| "field_of k JNull = Inr JNull"
| "field_of k j = Inl (Err ''json: cannot unmarshal value into Go value'' [])"

definition then_dec :: "gerror + 'a \<Rightarrow> ('a \<Rightarrow> gerror + 'b) \<Rightarrow> gerror + 'b" where
  "then_dec x f = (case x of Inl e \<Rightarrow> Inl e | Inr a \<Rightarrow> f a)"

definition wrong_kind :: "string \<Rightarrow> gerror + 'a" where
  "wrong_kind k = Inl (Err ''json: cannot unmarshal value into Go struct field %s'' [AStr k])"

definition int_range :: "int \<Rightarrow> bool" where
  "int_range n \<longleftrightarrow> - (2 ^ 63) \<le> n \<and> n < 2 ^ 63"

definition dec_int :: "string \<Rightarrow> json \<Rightarrow> gerror + int" where
  "dec_int k j = then_dec (field_of k j) (\<lambda>v. case v of JNull \<Rightarrow> Inr 0
     | JInt n \<Rightarrow> if int_range n then Inr n else wrong_kind k | _ \<Rightarrow> wrong_kind k)"

definition dec_str :: "string \<Rightarrow> json \<Rightarrow> gerror + string" where
  "dec_str k j = then_dec (field_of k j) (\<lambda>v. case v of JNull \<Rightarrow> Inr '''' | JStr s \<Rightarrow> Inr s | _ \<Rightarrow> wrong_kind k)"

definition dec_bool :: "string \<Rightarrow> json \<Rightarrow> gerror + bool" where
  "dec_bool k j = then_dec (field_of k j) (\<lambda>v. case v of JNull \<Rightarrow> Inr False | JBool b \<Rightarrow> Inr b | _ \<Rightarrow> wrong_kind k)"

fun dec_all :: "(json \<Rightarrow> gerror + 'a) \<Rightarrow> json list \<Rightarrow> gerror + 'a list" where
  "dec_all d [] = Inr []"
| "dec_all d (j # js) = then_dec (d j) (\<lambda>x. then_dec (dec_all d js) (\<lambda>xs. Inr (x # xs)))"

definition dec_list :: "(json \<Rightarrow> gerror + 'a) \<Rightarrow> string \<Rightarrow> json \<Rightarrow> gerror + 'a list" where
  "dec_list d k j = then_dec (field_of k j) (\<lambda>v. case v of JNull \<Rightarrow> Inr [] | JArr js \<Rightarrow> dec_all d js | _ \<Rightarrow> wrong_kind k)"

text \<open>A nil slice is encoded as \<open>null\<close>.\<close>

definition enc_slice :: "('a \<Rightarrow> json) \<Rightarrow> 'a list \<Rightarrow> json" where
  "enc_slice e xs = (if xs = [] then JNull else JArr (map e xs))"

lemma then_dec_Inr [simp]: "then_dec (Inr a) f = f a"
  by (simp add: then_dec_def)

lemmas dec_field = dec_int_def dec_str_def dec_bool_def dec_list_def equal_fold_def lower_char_def Let_def

section \<open>Messages\<close>

text \<open>
  What a sender and a receiver owe each other: the values \<open>ok\<close> arrive as the receiver's \<open>view\<close> of
  them. Arrays of such values then arrive too, and different views are told apart on the wire.
\<close>

locale message =
  fixes enc :: "'a \<Rightarrow> json"
    and dec :: "json \<Rightarrow> gerror + 'b"
    and view :: "'a \<Rightarrow> 'b"
    and ok :: "'a \<Rightarrow> bool"
  assumes crosses: "ok x \<Longrightarrow> dec (enc x) = Inr (view x)"
begin

lemma list_crosses: "\<forall>x\<in>set xs. ok x \<Longrightarrow> dec_all dec (map enc xs) = Inr (map view xs)"
  by (induction xs) (simp_all add: crosses)

lemma array_crosses:
  "\<forall>x\<in>set xs. ok x \<Longrightarrow> field_of k j = Inr (JArr (map enc xs)) \<Longrightarrow> dec_list dec k j = Inr (map view xs)"
  by (simp add: dec_list_def list_crosses)

lemma slice_crosses:
  "\<forall>x\<in>set xs. ok x \<Longrightarrow> field_of k j = Inr (enc_slice enc xs) \<Longrightarrow> dec_list dec k j = Inr (map view xs)"
  by (simp add: dec_list_def enc_slice_def list_crosses)

lemma told_apart: "ok x \<Longrightarrow> ok y \<Longrightarrow> enc x = enc y \<Longrightarrow> view x = view y"
  using crosses [of x] crosses [of y] by simp

end

section \<open>The VM configuration\<close>

text \<open>The tags of \<open>VMConfig\<close>; \<open>handlePrepare\<close> decodes what \<open>postJSON\<close> has encoded.\<close>

definition marshal_VMConfig :: "VMConfig \<Rightarrow> json" where
  "marshal_VMConfig c = JObj [(''id'', JStr (ID c)), (''vcpus'', JInt (Vcpus c)), (''mem_mib'', JInt (MemMiB c)),
     (''kernel'', JStr (Kernel c)), (''rootfs'', JStr (Rootfs c)), (''tap_dev'', JStr (TapDev c)),
     (''guest_mac'', JStr (GuestMAC c)), (''guest_cidr'', JStr (GuestCIDR c)), (''guest_gw'', JStr (GuestGW c)),
     (''dirty_mbps'', JInt (DirtyMBps c)), (''scrib_buf_mb'', JInt (ScribBufMB c))]"

definition unmarshal_VMConfig :: "json \<Rightarrow> gerror + VMConfig" where
  "unmarshal_VMConfig j =
     then_dec (dec_str ''id'' j) (\<lambda>i. then_dec (dec_int ''vcpus'' j) (\<lambda>vc. then_dec (dec_int ''mem_mib'' j) (\<lambda>mm.
     then_dec (dec_str ''kernel'' j) (\<lambda>ke. then_dec (dec_str ''rootfs'' j) (\<lambda>ro. then_dec (dec_str ''tap_dev'' j) (\<lambda>td.
     then_dec (dec_str ''guest_mac'' j) (\<lambda>gm. then_dec (dec_str ''guest_cidr'' j) (\<lambda>gc. then_dec (dec_str ''guest_gw'' j) (\<lambda>gg.
     then_dec (dec_int ''dirty_mbps'' j) (\<lambda>dm. then_dec (dec_int ''scrib_buf_mb'' j) (\<lambda>sb.
     Inr \<lparr>ID = i, Vcpus = vc, MemMiB = mm, Kernel = ke, Rootfs = ro, TapDev = td, GuestMAC = gm, GuestCIDR = gc,
       GuestGW = gg, DirtyMBps = dm, ScribBufMB = sb\<rparr>)))))))))))"

definition config_range :: "VMConfig \<Rightarrow> bool" where
  "config_range c \<longleftrightarrow> int_range (Vcpus c) \<and> int_range (MemMiB c) \<and> int_range (DirtyMBps c) \<and> int_range (ScribBufMB c)"

interpretation config: message marshal_VMConfig unmarshal_VMConfig "\<lambda>c. c" config_range
  by unfold_locales (simp add: unmarshal_VMConfig_def marshal_VMConfig_def config_range_def dec_field)

section \<open>Timelines, reports and answers\<close>

definition marshal_Event :: "Event \<Rightarrow> json" where
  "marshal_Event ev = JObj [(''name'', JStr (Name ev)), (''ns'', JInt (NS ev))]"

definition unmarshal_Event :: "json \<Rightarrow> gerror + Event" where
  "unmarshal_Event j = then_dec (dec_str ''name'' j) (\<lambda>n. then_dec (dec_int ''ns'' j) (\<lambda>t. Inr \<lparr>Name = n, NS = t\<rparr>))"

text \<open>\<open>Recorder.Events\<close> never returns a nil slice.\<close>

definition marshal_finalizeResponse :: "finalizeResponse \<Rightarrow> json" where
  "marshal_finalizeResponse f = JObj [(''resumed_ns'', JInt (ResumedNS f)), (''timeline'', JArr (map marshal_Event (FinTimeline f)))]"

definition unmarshal_finalizeResponse :: "json \<Rightarrow> gerror + finalizeResponse" where
  "unmarshal_finalizeResponse j = then_dec (dec_int ''resumed_ns'' j) (\<lambda>t.
     then_dec (dec_list unmarshal_Event ''timeline'' j) (\<lambda>evs. Inr \<lparr>ResumedNS = t, FinTimeline = evs\<rparr>))"

definition marshal_RoundStat :: "RoundStat \<Rightarrow> json" where
  "marshal_RoundStat s = JObj [(''round'', JInt (Round s)), (''dirty_bytes'', JInt (DirtyBytes s)), (''start_ns'', JInt (StartNS s)),
     (''snapshot_ns'', JInt (SnapshotNS s)), (''transfer_ns'', JInt (TransferNS s)), (''paused'', JBool (Paused s)),
     (''throttle_level'', JInt (ThrottleLevel s))]"

definition marshal_Report :: "Report \<Rightarrow> json" where
  "marshal_Report r = JObj [(''vm'', JStr (RepVM r)), (''target'', JStr (RepTarget r)), (''live_rounds'', JBool (RepLive r)),
     (''base_bytes'', JInt (BaseBytes r)), (''rounds'', enc_slice marshal_RoundStat (Rounds r)),
     (''final_bytes'', JInt (FinalBytes r)), (''blackout_ns'', JInt (BlackoutNS r)),
     (''timeline'', JArr (map marshal_Event (RepTimeline r)))]"

text \<open>\<open>writeVMStatus\<close> encodes a map, so the keys come out sorted.\<close>

definition marshal_vm_status :: "vm_status \<Rightarrow> json" where
  "marshal_vm_status s = JObj [(''cfg'', marshal_VMConfig (StCfg s)), (''host'', JStr (StHost s)), (''id'', JStr (StID s)),
     (''state'', JStr (StState s))]"

section \<open>Requests to the public API\<close>

definition unmarshal_CreateVMRequest :: "json \<Rightarrow> gerror + CreateVMRequest" where
  "unmarshal_CreateVMRequest j =
     then_dec (dec_str ''id'' j) (\<lambda>i. then_dec (dec_int ''vcpus'' j) (\<lambda>vc. then_dec (dec_int ''mem_mib'' j) (\<lambda>mm.
     then_dec (dec_str ''guest_mac'' j) (\<lambda>gm. then_dec (dec_str ''guest_cidr'' j) (\<lambda>gc. then_dec (dec_str ''guest_gw'' j) (\<lambda>gg.
     then_dec (dec_int ''dirty_mbps'' j) (\<lambda>dm. then_dec (dec_int ''scrib_buf_mb'' j) (\<lambda>sb.
     Inr \<lparr>ReqID = i, ReqVcpus = vc, ReqMemMiB = mm, ReqGuestMAC = gm, ReqGuestCIDR = gc, ReqGuestGW = gg,
       ReqDirtyMBps = dm, ReqScribBufMB = sb\<rparr>))))))))"

definition unmarshal_MigrateRequest :: "json \<Rightarrow> gerror + MigrateRequest" where
  "unmarshal_MigrateRequest j = then_dec (dec_str ''target'' j) (\<lambda>t. Inr \<lparr>Target = t\<rparr>)"

section \<open>Agents understand each other\<close>

interpretation event: message marshal_Event unmarshal_Event "\<lambda>ev. ev" "\<lambda>ev. int_range (NS ev)"
  by unfold_locales (simp add: unmarshal_Event_def marshal_Event_def dec_field)

definition finalize_range :: "finalizeResponse \<Rightarrow> bool" where
  "finalize_range f \<longleftrightarrow> int_range (ResumedNS f) \<and> (\<forall>ev\<in>set (FinTimeline f). int_range (NS ev))"

interpretation finalize: message marshal_finalizeResponse unmarshal_finalizeResponse "\<lambda>f. f" finalize_range
proof
  fix f assume "finalize_range f"
  moreover from this have "dec_list unmarshal_Event ''timeline'' (marshal_finalizeResponse f) = Inr (map (\<lambda>ev. ev) (FinTimeline f))"
    by (intro event.array_crosses) (auto simp: finalize_range_def marshal_finalizeResponse_def equal_fold_def lower_char_def)
  ultimately show "unmarshal_finalizeResponse (marshal_finalizeResponse f) = Inr f"
    by (simp add: unmarshal_finalizeResponse_def finalize_range_def) (simp add: marshal_finalizeResponse_def dec_field)
qed

section \<open>Decoded values are machine integers\<close>

lemma dec_int_range: "dec_int k j = Inr n \<Longrightarrow> int_range n"
  by (auto simp: dec_int_def then_dec_def wrong_kind_def int_range_def split: sum.splits json.splits if_splits)

lemma dec_int_source: "dec_int k j = Inr n \<Longrightarrow> \<exists>v. field_of k j = Inr v \<and> (v = JNull \<and> n = 0 \<or> v = JInt n)"
  by (auto simp: dec_int_def then_dec_def wrong_kind_def split: sum.splits json.splits if_splits)

lemma dec_str_source: "dec_str k j = Inr s \<Longrightarrow> \<exists>v. field_of k j = Inr v \<and> (v = JNull \<and> s = '''' \<or> v = JStr s)"
  by (auto simp: dec_str_def then_dec_def wrong_kind_def split: sum.splits json.splits)

lemma then_dec_Inr_iff: "then_dec x f = Inr b \<longleftrightarrow> (\<exists>a. x = Inr a \<and> f a = Inr b)"
  by (auto simp: then_dec_def split: sum.splits)

lemma unmarshal_VMConfig_range: "unmarshal_VMConfig j = Inr c \<Longrightarrow> config_range c"
  by (auto simp: unmarshal_VMConfig_def then_dec_Inr_iff config_range_def dest: dec_int_range)



end
