(* ===== verification/Wire_Client.thy ===== *)
theory Wire_Client
  imports Wire_Json Guestd
begin

text \<open>
  What crosses the wire as JSON between \<open>cmd/fcprobe\<close> and the rest: the bodies it posts to the
  agents, the fields it reads of their answers, and the status page of the guest, with the types of
  \<open>cmd/fcprobe/main.go\<close> and the page of \<open>cmd/guestd/main.go\<close>.
\<close>

section \<open>The report as the bench tool sees it\<close>

record agentRound =
  AgRound :: int
  AgDirtyBytes :: int
  AgStartNS :: int
  AgSnapshotNS :: int
  AgTransferNS :: int

record agentReport =
  AgBlackoutNS :: int
  AgBaseBytes :: int
  AgFinalBytes :: int
  AgLiveRounds :: bool
  AgRounds :: "agentRound list"
  AgTimeline :: "Event list"

definition unmarshal_agentRound :: "json \<Rightarrow> gerror + agentRound" where
  "unmarshal_agentRound j =
     then_dec (dec_int ''round'' j) (\<lambda>r. then_dec (dec_int ''dirty_bytes'' j) (\<lambda>d. then_dec (dec_int ''start_ns'' j) (\<lambda>st.
     then_dec (dec_int ''snapshot_ns'' j) (\<lambda>sn. then_dec (dec_int ''transfer_ns'' j) (\<lambda>tr.
     Inr \<lparr>AgRound = r, AgDirtyBytes = d, AgStartNS = st, AgSnapshotNS = sn, AgTransferNS = tr\<rparr>)))))"

definition unmarshal_agentReport :: "json \<Rightarrow> gerror + agentReport" where
  "unmarshal_agentReport j =
     then_dec (dec_int ''blackout_ns'' j) (\<lambda>bl. then_dec (dec_int ''base_bytes'' j) (\<lambda>ba. then_dec (dec_int ''final_bytes'' j) (\<lambda>fi.
     then_dec (dec_bool ''live_rounds'' j) (\<lambda>li. then_dec (dec_list unmarshal_agentRound ''rounds'' j) (\<lambda>rs.
     then_dec (dec_list unmarshal_Event ''timeline'' j) (\<lambda>tl.
     Inr \<lparr>AgBlackoutNS = bl, AgBaseBytes = ba, AgFinalBytes = fi, AgLiveRounds = li, AgRounds = rs, AgTimeline = tl\<rparr>))))))"

text \<open>The agent's own report with the fields that the tool consumes.\<close>

definition as_agentRound :: "RoundStat \<Rightarrow> agentRound" where
  "as_agentRound s = \<lparr>AgRound = Round s, AgDirtyBytes = DirtyBytes s, AgStartNS = StartNS s, AgSnapshotNS = SnapshotNS s,
     AgTransferNS = TransferNS s\<rparr>"

definition as_agentReport :: "Report \<Rightarrow> agentReport" where
  "as_agentReport r = \<lparr>AgBlackoutNS = BlackoutNS r, AgBaseBytes = BaseBytes r, AgFinalBytes = FinalBytes r, AgLiveRounds = RepLive r,
     AgRounds = map as_agentRound (Rounds r), AgTimeline = RepTimeline r\<rparr>"

definition round_range :: "RoundStat \<Rightarrow> bool" where
  "round_range s \<longleftrightarrow> int_range (Round s) \<and> int_range (DirtyBytes s) \<and> int_range (StartNS s) \<and> int_range (SnapshotNS s) \<and>
     int_range (TransferNS s)"

definition report_range :: "Report \<Rightarrow> bool" where
  "report_range r \<longleftrightarrow> int_range (BlackoutNS r) \<and> int_range (BaseBytes r) \<and> int_range (FinalBytes r) \<and>
     (\<forall>s\<in>set (Rounds r). round_range s) \<and> (\<forall>ev\<in>set (RepTimeline r). int_range (NS ev))"

interpretation round: message marshal_RoundStat unmarshal_agentRound as_agentRound round_range
  by unfold_locales (simp add: unmarshal_agentRound_def marshal_RoundStat_def as_agentRound_def round_range_def dec_field)

interpretation report: message marshal_Report unmarshal_agentReport as_agentReport report_range
proof
  fix r assume r: "report_range r"
  have "dec_list unmarshal_agentRound ''rounds'' (marshal_Report r) = Inr (map as_agentRound (Rounds r))"
    by (rule round.slice_crosses) (use r in \<open>auto simp: report_range_def marshal_Report_def equal_fold_def lower_char_def\<close>)
  moreover have "dec_list unmarshal_Event ''timeline'' (marshal_Report r) = Inr (map (\<lambda>ev. ev) (RepTimeline r))"
    by (rule event.array_crosses) (use r in \<open>auto simp: report_range_def marshal_Report_def equal_fold_def lower_char_def\<close>)
  ultimately show "unmarshal_agentReport (marshal_Report r) = Inr (as_agentReport r)"
    using r by (simp add: unmarshal_agentReport_def as_agentReport_def report_range_def)
      (simp add: marshal_Report_def dec_field)
qed

section \<open>The guest's status page\<close>

record guestStatus =
  Counter :: int
  GIntegrityErrors :: int
  GPagesVerified :: int

definition unmarshal_guestStatus :: "json \<Rightarrow> gerror + guestStatus" where
  "unmarshal_guestStatus j =
     then_dec (dec_int ''counter'' j) (\<lambda>c. then_dec (dec_int ''integrity_errors'' j) (\<lambda>er. then_dec (dec_int ''pages_verified'' j) (\<lambda>pv.
     Inr \<lparr>Counter = c, GIntegrityErrors = er, GPagesVerified = pv\<rparr>)))"

text \<open>The handler of \<open>GET /status\<close>: a map, so the keys come out sorted.\<close>

definition guest_status_page :: "int \<Rightarrow> int \<Rightarrow> int \<Rightarrow> Scribbler \<Rightarrow> json" where
  "guest_status_page uptime count mbps s =
     JObj [(''counter'', JInt count), (''dirty_mbps'', JInt mbps), (''integrity_errors'', JInt (IntegrityErrors s)),
       (''iterations'', JInt (Iterations s)), (''pages_verified'', JInt (PagesVerified s)), (''uptime_ms'', JInt uptime)]"

section \<open>Bodies that the tool posts, and placement answers\<close>

definition migrate_body :: "string \<Rightarrow> json" where
  "migrate_body target = JObj [(''target'', JStr target)]"

text \<open>The literal of \<open>rebootVM\<close>, for an ID without quotes and backslashes.\<close>

definition reboot_body :: "string \<Rightarrow> json" where
  "reboot_body vmID = JObj [(''id'', JStr vmID), (''vcpus'', JInt 1), (''mem_mib'', JInt 256), (''scrib_buf_mb'', JInt 32),
     (''dirty_mbps'', JInt 5)]"

definition reboot_req :: "string \<Rightarrow> CreateVMRequest" where
  "reboot_req vmID = \<lparr>ReqID = vmID, ReqVcpus = 1, ReqMemMiB = 256, ReqGuestMAC = '''', ReqGuestCIDR = '''', ReqGuestGW = '''',
     ReqDirtyMBps = 5, ReqScribBufMB = 32\<rparr>"

definition unmarshal_state :: "json \<Rightarrow> gerror + string" where
  "unmarshal_state j = dec_str ''state'' j"

section \<open>Every message arrives\<close>

lemma bodies_cross:
  "unmarshal_MigrateRequest (migrate_body target) = Inr \<lparr>Target = target\<rparr>"
  "unmarshal_CreateVMRequest (reboot_body vmID) = Inr (reboot_req vmID)"
  "unmarshal_state (marshal_vm_status st) = Inr (StState st)"
  by (simp_all add: unmarshal_MigrateRequest_def migrate_body_def unmarshal_CreateVMRequest_def reboot_body_def reboot_req_def
      unmarshal_state_def marshal_vm_status_def dec_field int_range_def)

interpretation status: message "\<lambda>(count, s). guest_status_page up count mbps s" unmarshal_guestStatus
  "\<lambda>(count, s). \<lparr>Counter = count, GIntegrityErrors = IntegrityErrors s, GPagesVerified = PagesVerified s\<rparr>"
  "\<lambda>(count, s). int_range count \<and> int_range (IntegrityErrors s) \<and> int_range (PagesVerified s)" for up mbps
  by unfold_locales (auto simp: unmarshal_guestStatus_def guest_status_page_def dec_field)

text \<open>
  C38: The programs understand each other's messages. The target decodes the configuration that the
  source posts, the source the timeline that the target answers to \<open>finalize\<close>; the bench tool reads
  from the agent's report, the VM's status and the guest's status page exactly the figures they
  were written with, and the bodies it posts mean the request intended; for all values of the
  machine's integers.
\<close>

theorem messages_cross:
  assumes "config_range c" and "finalize_range f" and "report_range r"
    and "int_range count" and "int_range (IntegrityErrors s)" and "int_range (PagesVerified s)"
  shows "unmarshal_VMConfig (marshal_VMConfig c) = Inr c \<and>
    unmarshal_finalizeResponse (marshal_finalizeResponse f) = Inr f \<and>
    unmarshal_agentReport (marshal_Report r) = Inr (as_agentReport r) \<and>
    unmarshal_state (marshal_vm_status st) = Inr (StState st) \<and>
    unmarshal_guestStatus (guest_status_page up count mbps s) =
      Inr \<lparr>Counter = count, GIntegrityErrors = IntegrityErrors s, GPagesVerified = PagesVerified s\<rparr> \<and>
    unmarshal_MigrateRequest (migrate_body target) = Inr \<lparr>Target = target\<rparr> \<and>
    unmarshal_CreateVMRequest (reboot_body vmID) = Inr (reboot_req vmID)"
  using assms config.crosses finalize.crosses report.crosses status.crosses [of "(count, s)" up mbps] bodies_cross by simp

definition s_config :: VMConfig where
  "s_config = \<lparr>ID = ''vm0'', Vcpus = 2, MemMiB = 256, Kernel = ''k'', Rootfs = ''r'', TapDev = ''tap0'',
     GuestMAC = ''m'', GuestCIDR = ''c'', GuestGW = ''g'', DirtyMBps = - 5, ScribBufMB = 64\<rparr>"

definition s_report :: Report where
  "s_report = \<lparr>RepVM = ''vm0'', RepTarget = ''b'', RepLive = True, BaseBytes = 4096,
     Rounds = [\<lparr>Round = 1, DirtyBytes = 10, StartNS = 1, SnapshotNS = 2, TransferNS = 3, Paused = False, ThrottleLevel = 0\<rparr>],
     FinalBytes = 5, BlackoutNS = 7, RepTimeline = [\<lparr>Name = ''blackout.pause'', NS = 9\<rparr>]\<rparr>"

theorem messages_cross_witness:
  "unmarshal_agentReport (marshal_Report s_report) =
     Inr \<lparr>AgBlackoutNS = 7, AgBaseBytes = 4096, AgFinalBytes = 5, AgLiveRounds = True,
       AgRounds = [\<lparr>AgRound = 1, AgDirtyBytes = 10, AgStartNS = 1, AgSnapshotNS = 2, AgTransferNS = 3\<rparr>],
       AgTimeline = [\<lparr>Name = ''blackout.pause'', NS = 9\<rparr>]\<rparr>"
  using messages_cross [of s_config "\<lparr>ResumedNS = 7, FinTimeline = []\<rparr>" s_report 3 "\<lparr>buf = [], Iterations = 1, PagesVerified = 32, IntegrityErrors = 0\<rparr>"]
  by (simp add: s_config_def s_report_def config_range_def finalize_range_def report_range_def round_range_def int_range_def
      as_agentReport_def as_agentRound_def)

end
