(* ===== verification/Fcprobe.thy ===== *)
theory Fcprobe
  imports Mig_Prelude "HOL-Library.Sublist" "HOL-Library.Signed_Division" "HOL-Library.Multiset"
begin

text \<open>
  The measurement side of \<open>cmd/fcprobe\<close>: the probes and their answers, the window of samples, the
  statistics over it (longest unanswered run, longest degraded run, send stalls), the downtime
  around the switchover, and the counts behind the service map. Times are nanoseconds.
\<close>

section \<open>Samples\<close>

record sample =
  seq :: u64
  sentNS :: int
  recvNS :: int

record prober =
  interval :: int
  samples :: "sample list"

text \<open>One turn of \<open>sendLoop\<close>: \<open>sent\<close> is whether the socket took the packet.\<close>

definition probe_packet :: "u64 \<Rightarrow> int \<Rightarrow> byte list" where
  "probe_packet s now = be_put 8 s @ be_put 8 (word_of_int now :: u64)"

definition send_turn :: "int \<Rightarrow> bool \<Rightarrow> u64 \<times> prober \<Rightarrow> byte list \<times> u64 \<times> prober" where
  "send_turn now sent st =
     (case st of (s, p) \<Rightarrow>
        (let s' = s + 1
         in (probe_packet s' now, s',
             if sent then p\<lparr>samples := samples p @ [\<lparr>seq = s', sentNS = now, recvNS = 0\<rparr>]\<rparr> else p)))"

text \<open>
  The scan of \<open>recvLoop\<close> from the tail: \<open>i\<close> is one more than the index looked at, and the scan
  stops below \<open>len - 4096\<close>.
\<close>

fun scan_back :: "u64 \<Rightarrow> int \<Rightarrow> nat \<Rightarrow> sample list \<Rightarrow> sample list" where
  "scan_back s now 0 xs = xs"
| "scan_back s now (Suc i) xs =
     (if int i < int (length xs) - 4096 then xs
      else if seq (xs ! i) = s then xs[i := (xs ! i)\<lparr>recvNS := now\<rparr>]
      else scan_back s now i xs)"

definition recv_packet :: "byte list \<Rightarrow> int \<Rightarrow> prober \<Rightarrow> prober" where
  "recv_packet pkt now p =
     (if length pkt < 16 then p
      else p\<lparr>samples := scan_back (be_get (take 8 pkt)) now (length (samples p)) (samples p)\<rparr>)"

definition window :: "int \<Rightarrow> int \<Rightarrow> prober \<Rightarrow> sample list" where
  "window fromNS toNS p = filter (\<lambda>s. sentNS s \<ge> fromNS \<and> sentNS s \<le> toNS) (samples p)"

definition windowAll :: "prober \<Rightarrow> sample list" where
  "windowAll p = window 0 (2 ^ 62) p"

section \<open>Runs of bad probes\<close>

record gap =
  gStart :: int
  gEnd :: int

definition gap_len :: "gap \<Rightarrow> int" where
  "gap_len g = gEnd g - gStart g"

definition badRTT :: int where
  "badRTT = 5 * 10 ^ 6"

definition zero_gap :: gap where
  "zero_gap = \<lparr>gStart = 0, gEnd = 0\<rparr>"

text \<open>\<open>switchoverBlackout\<close>: \<open>sw_flush\<close> is its local closure, \<open>sw_step\<close> one iteration.\<close>

definition sw_flush :: "int \<Rightarrow> int \<Rightarrow> gap \<times> int \<Rightarrow> gap \<times> int" where
  "sw_flush pauseNS resumeNS st =
     (case st of (run, best) \<Rightarrow>
        (zero_gap,
         if gStart run \<noteq> 0 \<and> gStart run \<le> resumeNS \<and> gEnd run \<ge> pauseNS \<and> gap_len run > best
         then gap_len run else best))"

definition extend_run :: "int \<Rightarrow> sample \<Rightarrow> gap \<Rightarrow> gap" where
  "extend_run iv s run =
     (if gStart run = 0 then \<lparr>gStart = sentNS s, gEnd = sentNS s + iv\<rparr> else run\<lparr>gEnd := sentNS s + iv\<rparr>)"

definition sw_step :: "int \<Rightarrow> int \<Rightarrow> int \<Rightarrow> sample \<Rightarrow> gap \<times> int \<Rightarrow> gap \<times> int" where
  "sw_step pauseNS resumeNS iv s st =
     (if recvNS s = 0 then (extend_run iv s (fst st), snd st) else sw_flush pauseNS resumeNS st)"

definition switchoverBlackout :: "int \<Rightarrow> int \<Rightarrow> prober \<Rightarrow> int" where
  "switchoverBlackout pauseNS resumeNS p =
     snd (sw_flush pauseNS resumeNS (fold (sw_step pauseNS resumeNS (interval p)) (samples p) (zero_gap, 0)))"

section \<open>Statistics\<close>

record probeStats =
  Sent :: nat
  Received :: nat
  Lost :: int
  LostRunNS :: int
  TopLostRuns :: "gap list"
  MaxGapNS :: int
  MaxSendStallNS :: int
  TopGaps :: "gap list"

text \<open>
  The locals of \<open>stats\<close>: \<open>in_run\<close> says that the pointer \<open>run\<close> points to the last of \<open>gaps\<close>.
\<close>

record stats_loop =
  received :: nat
  stall :: int
  prevSent :: int
  lostRuns :: "gap list"
  lostRun :: gap
  gaps :: "gap list"
  in_run :: bool

definition is_bad :: "sample \<Rightarrow> bool" where
  "is_bad s \<longleftrightarrow> recvNS s = 0 \<or> recvNS s - sentNS s > badRTT"

definition stats_step :: "int \<Rightarrow> sample \<Rightarrow> stats_loop \<Rightarrow> stats_loop" where
  "stats_step iv s l =
     (let l1 = l\<lparr>stall := (if prevSent l > 0 \<and> sentNS s - prevSent l > stall l then sentNS s - prevSent l else stall l),
                 prevSent := sentNS s,
                 received := (if recvNS s > 0 then received l + 1 else received l)\<rparr>;
          l2 = (if recvNS s = 0 \<and> gStart (lostRun l1) = 0
                then l1\<lparr>lostRun := \<lparr>gStart = sentNS s, gEnd = sentNS s + iv\<rparr>\<rparr>
                else if recvNS s = 0 then l1\<lparr>lostRun := (lostRun l1)\<lparr>gEnd := sentNS s + iv\<rparr>\<rparr>
                else l1\<lparr>lostRuns := (if gStart (lostRun l1) \<noteq> 0 then lostRuns l1 @ [lostRun l1] else lostRuns l1),
                        lostRun := zero_gap\<rparr>)
      in if is_bad s \<and> \<not> in_run l2
         then l2\<lparr>gaps := gaps l2 @ [\<lparr>gStart = sentNS s, gEnd = sentNS s + iv\<rparr>], in_run := True\<rparr>
         else if is_bad s then l2\<lparr>gaps := (gaps l2)[length (gaps l2) - 1 := (last (gaps l2))\<lparr>gEnd := sentNS s + iv\<rparr>]\<rparr>
         else l2\<lparr>in_run := False\<rparr>)"

definition stats_init :: stats_loop where
  "stats_init = \<lparr>received = 0, stall = 0, prevSent = 0, lostRuns = [], lostRun = zero_gap, gaps = [], in_run = False\<rparr>"

text \<open>
  \<open>srt\<close> is \<open>sort.Slice\<close> with the order of falling length: it leaves the order of equally long
  gaps open.
\<close>

definition prober_stats :: "(gap list \<Rightarrow> gap list) \<Rightarrow> sample list \<Rightarrow> prober \<Rightarrow> probeStats" where
  "prober_stats srt win p =
     (let l = fold (stats_step (interval p)) win stats_init;
          lr = srt (if gStart (lostRun l) \<noteq> 0 then lostRuns l @ [lostRun l] else lostRuns l);
          gs = srt (gaps l)
      in \<lparr>Sent = length win, Received = received l, Lost = int (length win) - int (received l),
          LostRunNS = (case lr of [] \<Rightarrow> 0 | g # _ \<Rightarrow> gap_len g), TopLostRuns = take 3 lr,
          MaxGapNS = (case gs of [] \<Rightarrow> 0 | g # _ \<Rightarrow> gap_len g), MaxSendStallNS = stall l, TopGaps = take 3 gs\<rparr>)"

definition slice_sort :: "(gap list \<Rightarrow> gap list) \<Rightarrow> bool" where
  "slice_sort srt \<longleftrightarrow> (\<forall>xs. mset (srt xs) = mset xs \<and> sorted_wrt (\<lambda>g g'. gap_len g \<ge> gap_len g') (srt xs))"

section \<open>Counts of the service map\<close>

definition bump :: "nat \<Rightarrow> nat list \<Rightarrow> nat list" where
  "bump i xs = xs[i := xs ! i + 1]"

definition pad_to :: "nat \<Rightarrow> nat list \<Rightarrow> nat list" where
  "pad_to i xs = xs @ replicate (Suc i - length xs) 0"

text \<open>A sample before the first one has a negative bin and the code panics: \<open>None\<close>.\<close>

definition bin_step :: "int \<Rightarrow> int \<Rightarrow> sample \<Rightarrow> (nat list \<times> nat list) option \<Rightarrow> (nat list \<times> nat list) option" where
  "bin_step start binNS s acc =
     (case acc of None \<Rightarrow> None
      | Some (sent, good) \<Rightarrow>
          (let bin = (sentNS s - start) sdiv binNS
           in if bin < 0 then None
              else Some (bump (nat bin) (pad_to (nat bin) sent),
                         if recvNS s > 0 \<and> recvNS s - sentNS s \<le> badRTT
                         then bump (nat bin) (pad_to (nat bin) good) else pad_to (nat bin) good)))"

definition service_bins :: "sample list \<Rightarrow> int \<Rightarrow> (nat list \<times> nat list) option" where
  "service_bins win binNS =
     (case win of [] \<Rightarrow> Some ([], []) | s # _ \<Rightarrow> fold (bin_step (sentNS s) binNS) win (Some ([], [])))"

section \<open>Maximal runs\<close>

text \<open>The reference: the maximal runs of samples with a property, in order.\<close>

function bad_runs :: "('a \<Rightarrow> bool) \<Rightarrow> 'a list \<Rightarrow> 'a list list" where
  "bad_runs P [] = []"
| "bad_runs P (x # xs) =
     (if P x then (x # takeWhile P xs) # bad_runs P (dropWhile P xs) else bad_runs P xs)"
  by pat_completeness auto

termination
  by (relation "measure (\<lambda>(P, xs). length xs)") (auto simp: less_Suc_eq_le length_dropWhile_le)

definition run_gap :: "int \<Rightarrow> sample list \<Rightarrow> gap" where
  "run_gap iv r = \<lparr>gStart = sentNS (hd r), gEnd = sentNS (last r) + iv\<rparr>"

lemma bad_runs_sound:
  "r \<in> set (bad_runs P xs) \<Longrightarrow> r \<noteq> [] \<and> sublist r xs \<and> (\<forall>x\<in>set r. P x)"
proof (induction P xs rule: bad_runs.induct)
  case (2 P x xs)
  show ?case
  proof (cases "P x \<and> r = x # takeWhile P xs")
    case True
    have "x # xs = [] @ r @ dropWhile P xs" using True by simp
    then have "sublist r (x # xs)" unfolding sublist_def by blast
    then show ?thesis using True by (auto dest: set_takeWhileD)
  next
    case False
    show ?thesis
    proof (cases "P x")
      case True
      then have "r \<in> set (bad_runs P (dropWhile P xs))" using 2(3) False by auto
      from 2(1) [OF True this] have "r \<noteq> []" "sublist r (dropWhile P xs)" "\<forall>x\<in>set r. P x" by simp_all
      moreover have "sublist (dropWhile P xs) (x # xs)"
        unfolding sublist_def
        by (intro exI [of _ "x # takeWhile P xs"] exI [of _ "[]"]) simp
      ultimately show ?thesis using sublist_order.order_trans by blast
    next
      case False
      then have "r \<in> set (bad_runs P xs)" using 2(3) by simp
      from 2(2) [OF False this] show ?thesis by (simp add: sublist_Cons_right)
    qed
  qed
qed simp

lemma bad_runs_complete:
  "sublist ys xs \<Longrightarrow> ys \<noteq> [] \<Longrightarrow> \<forall>y\<in>set ys. P y \<Longrightarrow> \<exists>r\<in>set (bad_runs P xs). sublist ys r"
proof (induction P xs rule: bad_runs.induct)
  case (2 P x xs)
  note IH = 2(1) and ne = 2(4) and al = 2(5)
  show ?case
  proof (cases "P x")
    case False
    then have "\<not> prefix ys (x # xs)" using 2(4,5) by (cases ys) auto
    then have "sublist ys xs" using 2(3) by (simp add: sublist_Cons_right)
    from 2(2) [OF False this 2(4,5)] show ?thesis using False by simp
  next
    case True
    have "x # xs = (x # takeWhile P xs) @ dropWhile P xs" by simp
    then have "sublist ys ((x # takeWhile P xs) @ dropWhile P xs)" using 2(3) by metis
    then consider "sublist ys (x # takeWhile P xs)" | "sublist ys (dropWhile P xs)"
      | u v where "ys = u @ v" "prefix v (dropWhile P xs)" "suffix u (x # takeWhile P xs)" "v \<noteq> []"
      unfolding sublist_append by (metis append_Nil2 suffix_imp_sublist)
    then show ?thesis
    proof cases
      case 3
      then obtain y v' zs where y: "v = y # v'" "dropWhile P xs = y # zs"
        by (cases v) (auto simp: prefix_def)
      then have "P (hd (dropWhile P xs))" using al 3(1) by simp
      moreover have "dropWhile P xs \<noteq> []" using y(2) by simp
      ultimately show ?thesis using hd_dropWhile by metis
    next
      case 2
      from IH [OF True this ne al] show ?thesis using True by auto
    qed (use True in auto)
  qed
qed simp

lemma bad_runs_nonempty: "xs \<noteq> [] \<Longrightarrow> P (last xs) \<Longrightarrow> bad_runs P xs \<noteq> []"
  using bad_runs_complete [of "[last xs]" xs P] by (metis append_butlast_last_id empty_iff empty_set list.discI
      list.set_intros(1) set_ConsD sublist_append_leftI list.set(1))

lemma bad_runs_snoc:
  "bad_runs P (xs @ [y]) =
     (if P y then (if xs \<noteq> [] \<and> P (last xs) then butlast (bad_runs P xs) @ [last (bad_runs P xs) @ [y]] else bad_runs P xs @ [[y]])
      else bad_runs P xs)"
proof (induction P xs rule: bad_runs.induct)
  case (2 P x xs)
  show ?case
  proof (cases "P x")
    case False
    then show ?thesis using 2(2) by (cases xs) auto
  next
    case True
    show ?thesis
    proof (cases "\<forall>z\<in>set xs. P z")
      case all: True
      then have td: "takeWhile P xs = xs" "dropWhile P xs = []" by (simp_all add: takeWhile_eq_all_conv dropWhile_eq_Nil_conv)
      have ta: "takeWhile P (xs @ [y]) = xs @ (if P y then [y] else [])" "dropWhile P (xs @ [y]) = (if P y then [] else [y])"
        using all by (simp_all add: takeWhile_append dropWhile_append)
      show ?thesis using True all by (simp add: td ta)
    next
      case some: False
      then have ne: "dropWhile P xs \<noteq> []" "xs \<noteq> []" by (auto simp: dropWhile_eq_Nil_conv)
      then have l: "last (dropWhile P xs) = last xs" by (metis last_appendR takeWhile_dropWhile_id)
      have "takeWhile P (xs @ [y]) = takeWhile P xs" "dropWhile P (xs @ [y]) = dropWhile P xs @ [y]"
        using some by (auto simp: takeWhile_append dropWhile_append)
      moreover have "bad_runs P (dropWhile P xs) \<noteq> []" if "P (last xs)"
        using bad_runs_nonempty [OF ne(1)] that l by simp
      ultimately show ?thesis using 2(1) [OF True] True ne l by auto
    qed
  qed
qed simp

lemma run_gap_snoc: "r \<noteq> [] \<Longrightarrow> run_gap iv (r @ [x]) = (run_gap iv r)\<lparr>gEnd := sentNS x + iv\<rparr>"
  by (simp add: run_gap_def)

lemma last_run: "xs \<noteq> [] \<Longrightarrow> P (last xs) \<Longrightarrow> last (bad_runs P xs) \<in> set (bad_runs P xs)"
  using bad_runs_nonempty by fastforce

section \<open>The loops build the maximal runs\<close>

abbreviation lost :: "sample \<Rightarrow> bool" where
  "lost s \<equiv> recvNS s = 0"

lemma zero_gap_sel [simp]: "gStart zero_gap = 0"
  by (simp add: zero_gap_def)

lemma last_run_start:
  "xs \<noteq> [] \<Longrightarrow> P (last xs) \<Longrightarrow> \<forall>s\<in>set xs. sentNS s > 0 \<Longrightarrow>
   last (bad_runs P xs) \<noteq> [] \<and> gStart (run_gap iv (last (bad_runs P xs))) > 0"
proof -
  assume h: "xs \<noteq> []" "P (last xs)" "\<forall>s\<in>set xs. sentNS s > 0"
  have r: "last (bad_runs P xs) \<noteq> []" "sublist (last (bad_runs P xs)) xs"
    using bad_runs_sound [OF last_run [of xs P]] h(1,2) by auto
  then have "hd (last (bad_runs P xs)) \<in> set xs" by (meson hd_in_set set_mono_sublist subsetD)
  then show ?thesis using r h(3) by (simp add: run_gap_def)
qed

lemma stats_lost:
  assumes "\<forall>s\<in>set win. sentNS s > 0"
  shows "if win \<noteq> [] \<and> lost (last win)
    then lostRuns (fold (stats_step iv) win stats_init) = map (run_gap iv) (butlast (bad_runs lost win)) \<and>
         lostRun (fold (stats_step iv) win stats_init) = run_gap iv (last (bad_runs lost win))
    else lostRuns (fold (stats_step iv) win stats_init) = map (run_gap iv) (bad_runs lost win) \<and>
         lostRun (fold (stats_step iv) win stats_init) = zero_gap"
  using assms
proof (induction win rule: rev_induct)
  case (snoc x xs)
  let ?l = "fold (stats_step iv) xs stats_init"
  have lo: "lostRuns (stats_step iv x l) = (if lost x then lostRuns l
       else if gStart (lostRun l) \<noteq> 0 then lostRuns l @ [lostRun l] else lostRuns l)"
    "lostRun (stats_step iv x l) = (if lost x then extend_run iv x (lostRun l) else zero_gap)" for l
    by (simp_all add: stats_step_def extend_run_def Let_def)
  have IH: "if xs \<noteq> [] \<and> lost (last xs)
    then lostRuns ?l = map (run_gap iv) (butlast (bad_runs lost xs)) \<and> lostRun ?l = run_gap iv (last (bad_runs lost xs))
    else lostRuns ?l = map (run_gap iv) (bad_runs lost xs) \<and> lostRun ?l = zero_gap"
    using snoc by simp
  show ?case
  proof (cases "xs \<noteq> [] \<and> lost (last xs)")
    case True
    have pos: "last (bad_runs lost xs) \<noteq> []" "gStart (run_gap iv (last (bad_runs lost xs))) \<noteq> 0"
      using last_run_start [of xs lost iv] True snoc.prems by auto
    have ne: "bad_runs lost xs \<noteq> []" by (rule bad_runs_nonempty) (use True in auto)
    then have "map (run_gap iv) (butlast (bad_runs lost xs)) @ [run_gap iv (last (bad_runs lost xs))] = map (run_gap iv) (bad_runs lost xs)"
      by (metis append_butlast_last_id list.simps(8,9) map_append)
    then show ?thesis
      using IH True pos by (simp add: lo bad_runs_snoc run_gap_snoc extend_run_def)
  next
    case False
    then show ?thesis
      using IH by (auto simp: lo bad_runs_snoc extend_run_def run_gap_def)
  qed
qed (simp add: stats_init_def)

lemma stats_gaps:
  "gaps (fold (stats_step iv) win stats_init) = map (run_gap iv) (bad_runs is_bad win) \<and>
   in_run (fold (stats_step iv) win stats_init) = (win \<noteq> [] \<and> is_bad (last win))"
proof (induction win rule: rev_induct)
  case (snoc x xs)
  let ?l = "fold (stats_step iv) xs stats_init" let ?rs = "bad_runs is_bad xs"
  have gp: "gaps (stats_step iv x l) = (if is_bad x \<and> \<not> in_run l then gaps l @ [run_gap iv [x]]
      else if is_bad x then (gaps l)[length (gaps l) - 1 := (last (gaps l))\<lparr>gEnd := sentNS x + iv\<rparr>] else gaps l)"
    "in_run (stats_step iv x l) = is_bad x" for l
    by (auto simp: stats_step_def run_gap_def Let_def)
  have up: "(map (run_gap iv) ?rs)[length ?rs - 1 := (last (map (run_gap iv) ?rs))\<lparr>gEnd := sentNS x + iv\<rparr>] =
      map (run_gap iv) (butlast ?rs @ [last ?rs @ [x]])" if o: "xs \<noteq> []" "is_bad (last xs)"
  proof -
    have ne: "?rs \<noteq> []" using bad_runs_nonempty [of xs is_bad] o by simp
    then have e: "?rs = butlast ?rs @ [last ?rs]" by simp
    have lr: "last ?rs \<noteq> []" using bad_runs_sound [OF last_run [of xs is_bad]] o by simp
    have "map (run_gap iv) ?rs = map (run_gap iv) (butlast ?rs) @ [run_gap iv (last ?rs)]"
      by (subst e) (simp del: append_butlast_last_id)
    then show ?thesis
      using lr ne by (simp add: run_gap_snoc last_map list_update_append length_butlast)
  qed
  show ?case using snoc up by (auto simp: gp bad_runs_snoc)
qed (simp add: stats_init_def)

lemma stats_received:
  "received (fold (stats_step iv) win stats_init) = length (filter (\<lambda>s. recvNS s > 0) win)"
proof (induction win rule: rev_induct)
  case (snoc x xs)
  have "received (stats_step iv x l) = (if recvNS x > 0 then received l + 1 else received l)" for l
    by (simp add: stats_step_def Let_def)
  then show ?case using snoc by simp
qed (simp add: stats_init_def)

section \<open>The longest run\<close>

text \<open>The specification: the spans of all stretches of consecutive samples with a property.\<close>

definition span :: "int \<Rightarrow> sample list \<Rightarrow> int" where
  "span iv r = sentNS (last r) + iv - sentNS (hd r)"

definition bad_spans :: "(sample \<Rightarrow> bool) \<Rightarrow> (sample list \<Rightarrow> bool) \<Rightarrow> int \<Rightarrow> sample list \<Rightarrow> int set" where
  "bad_spans P Q iv xs = {span iv r | r. r \<noteq> [] \<and> sublist r xs \<and> (\<forall>s\<in>set r. P s) \<and> Q r}"

abbreviation in_order :: "sample list \<Rightarrow> bool" where
  "in_order xs \<equiv> sorted_wrt (\<lambda>s t. sentNS s \<le> sentNS t) xs"

lemma sorted_sublist: "in_order xs \<Longrightarrow> sublist ys xs \<Longrightarrow> in_order ys"
  by (auto simp: sublist_def sorted_wrt_append)

lemma in_order_ends: "in_order xs \<Longrightarrow> x \<in> set xs \<Longrightarrow> sentNS (hd xs) \<le> sentNS x \<and> sentNS x \<le> sentNS (last xs)"
  by (induction xs) (auto split: if_splits)

lemma sublist_ends:
  assumes "in_order R" and "sublist r R" and "r \<noteq> []"
  shows "sentNS (hd R) \<le> sentNS (hd r)" and "sentNS (last r) \<le> sentNS (last R)"
proof -
  have "hd r \<in> set R" "last r \<in> set R" using assms(3) set_mono_sublist [OF assms(2)] by auto
  then show "sentNS (hd R) \<le> sentNS (hd r)" "sentNS (last r) \<le> sentNS (last R)"
    using in_order_ends [OF assms(1)] by auto
qed

lemma finite_bad_spans: "finite (bad_spans P Q iv xs)"
proof -
  have "{r. sublist r xs} \<subseteq> {r. set r \<subseteq> set xs \<and> length r \<le> length xs}"
    by (auto dest: set_mono_sublist sublist_length_le)
  then have "finite {r. sublist r xs}" using finite_lists_length_le finite_subset by blast
  then show ?thesis
    by (rule finite_surj [where f = "span iv"]) (auto simp: bad_spans_def)
qed

text \<open>Of the runs only the maximal ones matter, when \<open>Q\<close> passes to longer runs.\<close>

lemma max_over_runs:
  assumes ord: "in_order xs" and up: "\<And>r R. sublist r R \<Longrightarrow> in_order R \<Longrightarrow> r \<noteq> [] \<Longrightarrow> Q r \<Longrightarrow> Q R"
  shows "Max (insert 0 (bad_spans P Q iv xs)) = Max (insert 0 (span iv ` {r \<in> set (bad_runs P xs). Q r}))"
proof (rule antisym)
  have fin: "finite (span iv ` {r \<in> set (bad_runs P xs). Q r})" by simp
  show "Max (insert 0 (bad_spans P Q iv xs)) \<le> Max (insert 0 (span iv ` {r \<in> set (bad_runs P xs). Q r}))"
  proof (rule Max.boundedI)
    fix b assume b: "b \<in> insert 0 (bad_spans P Q iv xs)"
    show "b \<le> Max (insert 0 (span iv ` {r \<in> set (bad_runs P xs). Q r}))"
    proof (cases "b = 0")
      case True
      then show ?thesis using fin by (simp add: Max_ge)
    next
      case False
      then obtain r where r: "b = span iv r" "r \<noteq> []" "sublist r xs" "\<forall>s\<in>set r. P s" "Q r"
        using b by (auto simp: bad_spans_def)
      obtain R where R: "R \<in> set (bad_runs P xs)" "sublist r R" using bad_runs_complete [OF r(3,2,4)] by blast
      have oR: "in_order R" using bad_runs_sound [OF R(1)] sorted_sublist [OF ord] by blast
      have "b \<le> span iv R" using sublist_ends [OF oR R(2) r(2)] by (simp add: r(1) span_def)
      moreover have "span iv R \<in> insert 0 (span iv ` {r \<in> set (bad_runs P xs). Q r})"
        using R(1) up [OF R(2) oR r(2,5)] by simp
      ultimately show ?thesis using fin by (meson Max_ge finite.insertI order_trans)
    qed
  qed (simp_all add: finite_bad_spans)
  show "Max (insert 0 (span iv ` {r \<in> set (bad_runs P xs). Q r})) \<le> Max (insert 0 (bad_spans P Q iv xs))"
  proof (rule Max_mono)
    have "span iv r \<in> bad_spans P Q iv xs" if "r \<in> set (bad_runs P xs)" "Q r" for r
      unfolding bad_spans_def using bad_runs_sound [OF that(1)] that(2) by blast
    then show "insert 0 (span iv ` {r \<in> set (bad_runs P xs). Q r}) \<subseteq> insert 0 (bad_spans P Q iv xs)" by auto
  qed (simp_all add: finite_bad_spans)
qed

lemma span_gap: "gap_len (run_gap iv r) = span iv r"
  by (simp add: gap_len_def run_gap_def span_def)

lemma longest_first:
  assumes "slice_sort srt" and "\<forall>g\<in>set xs. 0 \<le> gap_len g"
  shows "(case srt xs of [] \<Rightarrow> 0 | g # _ \<Rightarrow> gap_len g) = Max (insert 0 (gap_len ` set xs))"
proof (cases "srt xs")
  case Nil
  then have "xs = []" using assms(1) by (metis mset_zero_iff_right slice_sort_def mset_zero_iff)
  then show ?thesis using Nil by simp
next
  case (Cons g gs)
  have st: "set (srt xs) = set xs" using assms(1) by (metis slice_sort_def set_mset_mset)
  have "\<forall>g'\<in>set gs. gap_len g' \<le> gap_len g" using assms(1) Cons by (metis slice_sort_def sorted_wrt.simps(2))
  then have "Max (insert 0 (gap_len ` set xs)) = gap_len g"
    using st Cons assms(2) by (intro Max_eqI) auto
  then show ?thesis using Cons by simp
qed

text \<open>
  C32: The statistics measure what they name: over samples in sending order, \<open>LostRunNS\<close> is exactly
  the largest span, one probe interval included, of consecutive probes that were never answered,
  \<open>MaxGapNS\<close> the largest of consecutive probes unanswered or answered late, and sent probes are
  received or lost.
\<close>

theorem stats_measure_runs:
  assumes "in_order win" and "\<forall>s\<in>set win. sentNS s > 0 \<and> recvNS s \<ge> 0" and "0 \<le> interval p" and "slice_sort srt"
  shows "LostRunNS (prober_stats srt win p) = Max (insert 0 (bad_spans lost (\<lambda>_. True) (interval p) win)) \<and>
    MaxGapNS (prober_stats srt win p) = Max (insert 0 (bad_spans is_bad (\<lambda>_. True) (interval p) win)) \<and>
    Lost (prober_stats srt win p) = int (length (filter lost win))"
proof -
  let ?iv = "interval p" let ?l = "fold (stats_step ?iv) win stats_init"
  let ?lr = "if gStart (lostRun ?l) \<noteq> 0 then lostRuns ?l @ [lostRun ?l] else lostRuns ?l"
  have pos: "\<forall>s\<in>set win. sentNS s > 0" using assms(2) by blast
  have lr: "?lr = map (run_gap ?iv) (bad_runs lost win)"
  proof (cases "win \<noteq> [] \<and> lost (last win)")
    case True
    then have "bad_runs lost win \<noteq> []" using bad_runs_nonempty [of win lost] by simp
    then have "map (run_gap ?iv) (butlast (bad_runs lost win)) @ [run_gap ?iv (last (bad_runs lost win))] = map (run_gap ?iv) (bad_runs lost win)"
      by (metis append_butlast_last_id list.simps(8,9) map_append)
    then show ?thesis using stats_lost [OF pos, of ?iv] True last_run_start [of win lost ?iv] pos by auto
  next
    case False
    then show ?thesis using stats_lost [OF pos, of ?iv] by (auto split: if_splits)
  qed
  have nn: "\<forall>g\<in>set (map (run_gap ?iv) (bad_runs P win)). 0 \<le> gap_len g" for P
  proof (intro ballI)
    fix g assume "g \<in> set (map (run_gap ?iv) (bad_runs P win))"
    then obtain r where r: "r \<in> set (bad_runs P win)" "g = run_gap ?iv r" by auto
    have "r \<noteq> []" "in_order r" using bad_runs_sound [OF r(1)] sorted_sublist [OF assms(1)] by blast+
    then have "sentNS (hd r) \<le> sentNS (last r)" using in_order_ends by simp
    then show "0 \<le> gap_len g" using assms(3) by (simp add: r(2) gap_len_def run_gap_def)
  qed
  have mx: "(case srt (map (run_gap ?iv) (bad_runs P win)) of [] \<Rightarrow> 0 | g # _ \<Rightarrow> gap_len g) =
      Max (insert 0 (bad_spans P (\<lambda>_. True) ?iv win))" for P
    unfolding longest_first [OF assms(4) nn] max_over_runs [OF assms(1), of "\<lambda>_. True", simplified]
    by (simp add: image_image span_gap)
  have "length (filter (\<lambda>s. recvNS s > 0) win) + length (filter lost win) = length win"
  proof -
    have "filter lost win = filter (\<lambda>s. \<not> recvNS s > 0) win" using assms(2) by (intro filter_cong) auto
    then show ?thesis using sum_length_filter_compl [of "\<lambda>s. recvNS s > 0" win] by simp
  qed
  then have "int (length win) - int (length (filter (\<lambda>s. recvNS s > 0) win)) = int (length (filter lost win))" by linarith
  then show ?thesis
    using mx [of lost] mx [of is_bad] stats_gaps [of ?iv win]
    by (simp add: prober_stats_def Let_def lr stats_received)
qed

definition s_sort :: "gap list \<Rightarrow> gap list" where
  "s_sort xs = sort_key (\<lambda>g. - gap_len g) xs"

lemma s_sort_ok: "slice_sort s_sort"
  unfolding slice_sort_def
proof (intro allI conjI)
  fix xs
  have "sorted_wrt (\<le>) (map (\<lambda>g. - gap_len g) (s_sort xs))" using sorted_sort_key by (simp add: s_sort_def)
  then show "sorted_wrt (\<lambda>g g'. gap_len g \<ge> gap_len g') (s_sort xs)" by (simp add: sorted_wrt_map)
qed (simp add: s_sort_def)

definition s_probe :: prober where
  "s_probe = \<lparr>interval = 1, samples = [\<lparr>seq = 1, sentNS = 10, recvNS = 11\<rparr>, \<lparr>seq = 2, sentNS = 12, recvNS = 0\<rparr>,
     \<lparr>seq = 3, sentNS = 14, recvNS = 0\<rparr>, \<lparr>seq = 4, sentNS = 16, recvNS = 17\<rparr>]\<rparr>"

theorem stats_measure_runs_witness:
  "LostRunNS (prober_stats s_sort (samples s_probe) s_probe) = 3 \<and>
   Max (insert 0 (bad_spans lost (\<lambda>_. True) 1 (samples s_probe))) = 3 \<and> Lost (prober_stats s_sort (samples s_probe) s_probe) = 2"
proof -
  have "LostRunNS (prober_stats s_sort (samples s_probe) s_probe) = 3"
    by (simp add: prober_stats_def s_probe_def stats_step_def stats_init_def zero_gap_def is_bad_def badRTT_def s_sort_def gap_len_def Let_def)
  moreover have "interval s_probe = 1" "in_order (samples s_probe)" "\<forall>s\<in>set (samples s_probe). sentNS s > 0 \<and> recvNS s \<ge> 0"
    "length (filter lost (samples s_probe)) = 2"
    by (simp_all add: s_probe_def)
  ultimately show ?thesis
    using stats_measure_runs [of "samples s_probe" s_probe s_sort] s_sort_ok by simp
qed

section \<open>The downtime around the switchover\<close>

definition overlaps :: "int \<Rightarrow> int \<Rightarrow> int \<Rightarrow> sample list \<Rightarrow> bool" where
  "overlaps pauseNS resumeNS iv r \<longleftrightarrow> sentNS (hd r) \<le> resumeNS \<and> sentNS (last r) + iv \<ge> pauseNS"

definition pick :: "int \<Rightarrow> int \<Rightarrow> int \<Rightarrow> sample list \<Rightarrow> int \<Rightarrow> int" where
  "pick pauseNS resumeNS iv r best =
     (if overlaps pauseNS resumeNS iv r \<and> span iv r > best then span iv r else best)"

lemma pick_max: "pick p r iv x b = (if overlaps p r iv x then max (span iv x) b else b)"
  by (auto simp: pick_def)

lemma fold_last: "rs \<noteq> [] \<Longrightarrow> fold f rs b = f (last rs) (fold f (butlast rs) b)"
  by (induction rs rule: rev_induct) auto

lemma fold_pick:
  "fold (pick p r iv) rs b = Max (insert b (span iv ` {x \<in> set rs. overlaps p r iv x}))"
proof (induction rs rule: rev_induct)
  case (snoc x xs)
  let ?S = "insert b (span iv ` {y \<in> set xs. overlaps p r iv y})"
  have S: "insert b (span iv ` {y \<in> set (xs @ [x]). overlaps p r iv y}) = (if overlaps p r iv x then insert (span iv x) ?S else ?S)"
    by auto
  have "fold (pick p r iv) (xs @ [x]) b = pick p r iv x (Max ?S)" by (simp add: snoc.IH)
  also have "\<dots> = (if overlaps p r iv x then max (span iv x) (Max ?S) else Max ?S)" by (rule pick_max)
  also have "\<dots> = Max (if overlaps p r iv x then insert (span iv x) ?S else ?S)"
  proof -
    have "Max (insert (span iv x) ?S) = max (span iv x) (Max ?S)" by (intro Max_insert) simp_all
    then show ?thesis by (cases "overlaps p r iv x") (simp_all only: if_True if_False)
  qed
  finally show ?case unfolding S .
qed simp

lemma flush_run:
  "gStart (run_gap iv R) > 0 \<Longrightarrow> snd (sw_flush p r (run_gap iv R, b)) = pick p r iv R b"
  by (simp add: sw_flush_def pick_def overlaps_def run_gap_def gap_len_def span_def)

lemma sw_fold:
  assumes "\<forall>s\<in>set xs. sentNS s > 0"
  shows "fold (sw_step p r iv) xs (zero_gap, 0) =
    (if xs \<noteq> [] \<and> lost (last xs)
     then (run_gap iv (last (bad_runs lost xs)), fold (pick p r iv) (butlast (bad_runs lost xs)) 0)
     else (zero_gap, fold (pick p r iv) (bad_runs lost xs) 0))"
  using assms
proof (induction xs rule: rev_induct)
  case (snoc x xs)
  show ?case
  proof (cases "xs \<noteq> [] \<and> lost (last xs)")
    case True
    have pos: "last (bad_runs lost xs) \<noteq> []" "gStart (run_gap iv (last (bad_runs lost xs))) > 0"
      using last_run_start [of xs lost iv] True snoc.prems by auto
    have "bad_runs lost xs \<noteq> []" using bad_runs_nonempty [of xs lost] True by simp
    then have e: "fold (pick p r iv) (bad_runs lost xs) 0 =
        pick p r iv (last (bad_runs lost xs)) (fold (pick p r iv) (butlast (bad_runs lost xs)) 0)"
      by (rule fold_last)
    have "sw_step p r iv x (run_gap iv (last (bad_runs lost xs)), b) =
        (if lost x then (run_gap iv (last (bad_runs lost xs) @ [x]), b) else (zero_gap, pick p r iv (last (bad_runs lost xs)) b))" for b
      using pos flush_run [OF pos(2), of p r b] by (simp add: sw_step_def extend_run_def run_gap_snoc sw_flush_def)
    then show ?thesis using snoc True by (simp add: bad_runs_snoc e)
  next
    case False
    have "sw_step p r iv x (zero_gap, b) = (if lost x then (run_gap iv [x], b) else (zero_gap, b))" for b
      by (simp add: sw_step_def extend_run_def sw_flush_def run_gap_def)
    moreover have "fold (sw_step p r iv) xs (zero_gap, 0) = (zero_gap, fold (pick p r iv) (bad_runs lost xs) 0)"
      using snoc.IH snoc.prems False by auto
    ultimately show ?thesis using False by (auto simp: bad_runs_snoc)
  qed
qed simp



section \<open>Replies\<close>

lemma scan_back_miss:
  "n \<le> length xs \<Longrightarrow> (\<And>j. j < n \<Longrightarrow> int j \<ge> int (length xs) - 4096 \<Longrightarrow> seq (xs ! j) \<noteq> s) \<Longrightarrow> scan_back s now n xs = xs"
  by (induction n) auto

lemma scan_back_hit:
  assumes "i < n" and "n \<le> length xs" and "seq (xs ! i) = s" and "\<And>j. i < j \<Longrightarrow> j < n \<Longrightarrow> seq (xs ! j) \<noteq> s"
    and "int i \<ge> int (length xs) - 4096"
  shows "scan_back s now n xs = xs[i := (xs ! i)\<lparr>recvNS := now\<rparr>]"
  using assms
proof (induction n)
  case (Suc n)
  then show ?case by (cases "i = n") auto
qed simp

text \<open>
  A reply is credited to the probe that caused it: with distinct sequence numbers, the echo of
  a probe packet, with whatever follows its first 16 bytes, sets the receive time of exactly the
  sample with that number if it is among the last 4096, and changes nothing otherwise.
\<close>

lemma recv_credits:
  assumes "distinct (map seq (samples p))" and "i < length (samples p)" and "seq (samples p ! i) = s"
  shows "samples (recv_packet (probe_packet s x @ rest) now p) =
    (if length (samples p) \<le> i + 4096 then (samples p)[i := (samples p ! i)\<lparr>recvNS := now\<rparr>] else samples p)"
proof -
  have other: "seq (samples p ! j) \<noteq> s" if "j \<noteq> i" "j < length (samples p)" for j
    using assms that by (auto simp: distinct_conv_nth)
  have get: "be_get (take 8 (probe_packet s x @ rest)) = s"
    by (simp add: probe_packet_def be_get_put)
  have len: "\<not> length (probe_packet s x @ rest) < 16" by (simp add: probe_packet_def)
  have "samples (recv_packet (probe_packet s x @ rest) now p) = scan_back s now (length (samples p)) (samples p)"
    unfolding recv_packet_def get using len by simp
  also have "\<dots> = (if length (samples p) \<le> i + 4096 then (samples p)[i := (samples p ! i)\<lparr>recvNS := now\<rparr>] else samples p)"
  proof (cases "length (samples p) \<le> i + 4096")
    case True
    then have "scan_back s now (length (samples p)) (samples p) = (samples p)[i := (samples p ! i)\<lparr>recvNS := now\<rparr>]"
      by (intro scan_back_hit) (use assms(2,3) other in auto)
    then show ?thesis using True by simp
  next
    case False
    have "scan_back s now (length (samples p)) (samples p) = samples p"
    proof (rule scan_back_miss)
      fix j assume j: "j < length (samples p)" "int j \<ge> int (length (samples p)) - 4096"
      then have "j \<noteq> i" using False by linarith
      then show "seq (samples p ! j) \<noteq> s" using other j(1) by blast
    qed simp
    then show ?thesis using False by simp
  qed
  finally show ?thesis .
qed

section \<open>Counts of the service map\<close>

definition answered :: "sample \<Rightarrow> bool" where
  "answered s \<longleftrightarrow> recvNS s > 0 \<and> recvNS s - sentNS s \<le> badRTT"

definition in_bin :: "int \<Rightarrow> int \<Rightarrow> nat \<Rightarrow> sample \<Rightarrow> bool" where
  "in_bin start binNS b s \<longleftrightarrow> nat ((sentNS s - start) div binNS) = b"

lemma length_pad [simp]: "length (pad_to i xs) = max (length xs) (Suc i)"
  by (simp add: pad_to_def)

lemma pad_get: "(if b < length (pad_to i xs) then pad_to i xs ! b else 0) = (if b < length xs then xs ! b else 0)"
  by (auto simp: pad_to_def nth_append)

definition counts :: "(sample \<Rightarrow> bool) \<Rightarrow> int \<Rightarrow> int \<Rightarrow> sample list \<Rightarrow> nat list \<Rightarrow> bool" where
  "counts P start binNS xs cs \<longleftrightarrow> (\<forall>b. (if b < length cs then cs ! b else 0) = length (filter (\<lambda>s. P s \<and> in_bin start binNS b s) xs))"

lemma counts_pad: "counts P start binNS xs cs \<Longrightarrow> counts P start binNS xs (pad_to i cs)"
  unfolding counts_def pad_get .

lemma counts_bump:
  assumes "counts P start binNS xs cs" and "i < length cs" and "P s" and "in_bin start binNS i s"
  shows "counts P start binNS (xs @ [s]) (bump i cs)"
  using assms unfolding counts_def bump_def in_bin_def by (auto simp: nth_list_update split: if_splits)

lemma counts_skip:
  "counts P start binNS xs cs \<Longrightarrow> \<not> P s \<Longrightarrow> counts P start binNS (xs @ [s]) cs"
  unfolding counts_def by simp

lemma bins_fold:
  assumes "0 < binNS" and "\<forall>s\<in>set xs. start \<le> sentNS s"
  shows "\<exists>sent good. fold (bin_step start binNS) xs (Some ([], [])) = Some (sent, good) \<and> length good = length sent \<and>
    counts (\<lambda>_. True) start binNS xs sent \<and> counts answered start binNS xs good"
  using assms(2)
proof (induction xs rule: rev_induct)
  case Nil
  then show ?case by (simp add: counts_def)
next
  case (snoc s xs)
  then obtain sent good where f: "fold (bin_step start binNS) xs (Some ([], [])) = Some (sent, good)" "length good = length sent"
    and c: "counts (\<lambda>_. True) start binNS xs sent" "counts answered start binNS xs good" by auto
  let ?b = "nat ((sentNS s - start) div binNS)"
  have d: "(sentNS s - start) sdiv binNS = (sentNS s - start) div binNS" "0 \<le> (sentNS s - start) div binNS"
    using snoc.prems assms(1) by (simp_all add: signed_divide_int_def sgn_if pos_imp_zdiv_nonneg_iff)
  let ?sent = "bump ?b (pad_to ?b sent)"
  let ?good = "if answered s then bump ?b (pad_to ?b good) else pad_to ?b good"
  have "fold (bin_step start binNS) (xs @ [s]) (Some ([], [])) = Some (?sent, ?good)"
    using f(1) d by (simp add: bin_step_def answered_def Let_def)
  moreover have "length ?good = length ?sent" using f(2) by (simp add: bump_def)
  moreover have "counts (\<lambda>_. True) start binNS (xs @ [s]) ?sent"
    by (rule counts_bump) (use c(1) in \<open>simp_all add: counts_pad in_bin_def\<close>)
  moreover have "counts answered start binNS (xs @ [s]) ?good"
  proof (cases "answered s")
    case True
    have "counts answered start binNS (xs @ [s]) (bump ?b (pad_to ?b good))"
      by (rule counts_bump) (use c(2) True in \<open>simp_all add: counts_pad in_bin_def\<close>)
    then show ?thesis using True by simp
  next
    case False
    then show ?thesis using counts_skip [OF counts_pad [OF c(2)] False] by simp
  qed
  ultimately show ?case by blast
qed

text \<open>
  The service map counts every probe once, in the bin of its sending time: over a window in
  sending order the code does not panic, the count of a bin is the number of probes sent in it,
  and its good count the number of those answered in time.
\<close>

theorem service_bins_count:
  assumes "in_order win" and "0 < binNS" and "win \<noteq> []"
  shows "\<exists>sent good. service_bins win binNS = Some (sent, good) \<and> length good = length sent \<and>
    (\<forall>b<length sent. sent ! b = length (filter (in_bin (sentNS (hd win)) binNS b) win) \<and>
       good ! b = length (filter (\<lambda>s. answered s \<and> in_bin (sentNS (hd win)) binNS b s) win))"
proof -
  have "\<forall>s\<in>set win. sentNS (hd win) \<le> sentNS s" using in_order_ends [OF assms(1)] by blast
  from bins_fold [OF assms(2) this] obtain sent good where
    "fold (bin_step (sentNS (hd win)) binNS) win (Some ([], [])) = Some (sent, good)" "length good = length sent"
    "counts (\<lambda>_. True) (sentNS (hd win)) binNS win sent" "counts answered (sentNS (hd win)) binNS win good" by blast
  then show ?thesis
    using assms(3) unfolding counts_def service_bins_def by (cases win) (auto split: if_splits)
qed

theorem service_bins_count_witness:
  "service_bins (samples s_probe) 4 = Some ([2, 2], [1, 1]) \<and>
   length (filter (in_bin 10 4 1) (samples s_probe)) = 2"
proof -
  have b: "service_bins (samples s_probe) 4 = Some ([2, 2], [1, 1])"
    by (simp add: service_bins_def s_probe_def bin_step_def bump_def pad_to_def badRTT_def signed_divide_int_def Let_def)
  have "in_order (samples s_probe)" "samples s_probe \<noteq> []" "sentNS (hd (samples s_probe)) = 10" by (simp_all add: s_probe_def)
  then show ?thesis using b service_bins_count [of "samples s_probe" 4] by force
qed

end
