(* ===== verification/Guest_Net.thy ===== *)
theory Guest_Net
  imports Fcprobe Wire_Client Agent_Routes Guest_Boot
begin

text \<open>
  The services of \<open>cmd/guestd\<close>: the UDP echo, joined with the prober of \<open>cmd/fcprobe\<close> into one
  step relation over probes in flight; the TCP counter stream; and the status server. The sockets
  are the steps of the relations: what arrives, and whether a write succeeds.
\<close>

section \<open>The UDP echo and the prober\<close>

text \<open>One turn of \<open>runUDPEcho\<close>: \<open>ReadFrom\<close> fills at most the 2048 bytes of the buffer.\<close>

definition udp_echo :: "(byte list \<times> 'a) option \<Rightarrow> (byte list \<times> 'a) option" where
  "udp_echo got = (case got of None \<Rightarrow> None | Some (pkt, from) \<Rightarrow> Some (take 2048 pkt, from))"

text \<open>
  The prober and its network: the sender's sequence number and number of turns, the samples, the
  packets that were sent, and what was heard: the number and the time of every reply.
\<close>

record probing =
  num :: u64
  turns :: nat
  pr :: prober
  on_wire :: "byte list list"
  heard :: "(u64 \<times> int) list"

definition probing_start :: "int \<Rightarrow> probing" where
  "probing_start iv = \<lparr>num = 0, turns = 0, pr = \<lparr>interval = iv, samples = []\<rparr>, on_wire = [], heard = []\<rparr>"

text \<open>Packets may be lost, delayed, reordered and duplicated.\<close>

inductive probe_step :: "probing \<Rightarrow> probing \<Rightarrow> bool" where
  probe_send: "send_turn now took (num g, pr g) = (pkt, s, p) \<Longrightarrow>
     probe_step g (g\<lparr>num := s, turns := Suc (turns g), pr := p, on_wire := (if took then pkt # on_wire g else on_wire g)\<rparr>)"
| probe_reply: "pkt \<in> set (on_wire g) \<Longrightarrow> udp_echo (Some (pkt, ())) = Some (rp, ()) \<Longrightarrow>
     probe_step g (g\<lparr>pr := recv_packet rp now (pr g), heard := (be_get (take 8 rp), now) # heard g\<rparr>)"

inductive probe_reach :: "int \<Rightarrow> probing \<Rightarrow> bool" for iv where
  start: "probe_reach iv (probing_start iv)"
| step: "probe_reach iv g \<Longrightarrow> probe_step g g' \<Longrightarrow> probe_reach iv g'"

definition probe_inv :: "probing \<Rightarrow> bool" where
  "probe_inv g \<longleftrightarrow> num g = of_nat (turns g) \<and> distinct (map seq (samples (pr g))) \<and>
     (\<forall>x\<in>set (samples (pr g)). unat (seq x) \<le> turns g \<and> (recvNS x \<noteq> 0 \<longrightarrow> (seq x, recvNS x) \<in> set (heard g))) \<and>
     (\<forall>pkt\<in>set (on_wire g). \<exists>i<length (samples (pr g)). \<exists>x. pkt = probe_packet (seq (samples (pr g) ! i)) x)"

lemma echo_probe: "udp_echo (Some (probe_packet s x, from)) = Some (probe_packet s x, from)"
  by (simp add: udp_echo_def probe_packet_def)

lemma probe_number: "be_get (take 8 (probe_packet s x)) = s"
  by (simp add: probe_packet_def be_get_put)

lemma credit:
  assumes "distinct (map seq (samples p))" and "i < length (samples p)"
  shows "samples (recv_packet (probe_packet (seq (samples p ! i)) x) now p) =
    (if length (samples p) \<le> i + 4096 then (samples p)[i := (samples p ! i)\<lparr>recvNS := now\<rparr>] else samples p)"
  using recv_credits [OF assms refl, of x "[]" now] by simp

lemma on_wire_samples:
  "probe_inv g \<Longrightarrow> \<forall>q\<in>set (on_wire g). \<exists>i<length (samples (pr g)). \<exists>x. q = probe_packet (seq (samples (pr g) ! i)) x"
  by (simp add: probe_inv_def)

lemma send_keeps:
  assumes inv: "probe_inv g" and t: "Suc (turns g) < 2 ^ 64" and s: "send_turn now took (num g, pr g) = (pkt, s, p)"
  shows "probe_inv (g\<lparr>num := s, turns := Suc (turns g), pr := p, on_wire := (if took then pkt # on_wire g else on_wire g)\<rparr>)"
proof -
  have "s = of_nat (Suc (turns g))" using s inv by (simp add: send_turn_def Let_def probe_inv_def ac_simps)
  moreover have "unat (of_nat (Suc (turns g)) :: u64) = Suc (turns g)" using t by (simp only: unat_of_nat) simp
  ultimately have n: "s = of_nat (Suc (turns g))" "unat s = Suc (turns g)" by simp_all
  have new: "s \<notin> seq ` set (samples (pr g))" using inv n(2) by (force simp: probe_inv_def)
  have pkt: "pkt = probe_packet s now" and
    p: "p = (if took then (pr g)\<lparr>samples := samples (pr g) @ [\<lparr>seq = s, sentNS = now, recvNS = 0\<rparr>]\<rparr> else pr g)"
    using s by (auto simp: send_turn_def Let_def)
  have d: "distinct (map seq (samples (pr g)))" using inv by (simp add: probe_inv_def)
  note w = on_wire_samples [OF inv]
  have old: "\<exists>i<Suc (length (samples (pr g))). \<exists>x. q = probe_packet (seq ((samples (pr g) @ [y]) ! i)) x" if q: "q \<in> set (on_wire g)" for q y
  proof -
    obtain i x where "i < length (samples (pr g))" "q = probe_packet (seq (samples (pr g) ! i)) x"
      using w q by blast
    moreover from this have "(samples (pr g) @ [y]) ! i = samples (pr g) ! i" by (simp add: nth_append)
    ultimately show ?thesis by (metis less_SucI)
  qed
  let ?y = "\<lparr>seq = s, sentNS = now, recvNS = 0\<rparr>"
  have last: "\<exists>i<Suc (length (samples (pr g))). \<exists>x. pkt = probe_packet (seq ((samples (pr g) @ [?y]) ! i)) x"
    by (intro exI [of _ "length (samples (pr g))"] conjI exI [of _ now]) (simp_all add: pkt)
  have le: "\<forall>x\<in>set (samples (pr g)). unat (seq x) \<le> Suc (turns g) \<and> (recvNS x \<noteq> 0 \<longrightarrow> (seq x, recvNS x) \<in> set (heard g))"
    using inv by (auto simp: probe_inv_def intro: le_SucI)
  show ?thesis
  proof (cases took)
    case True
    have "\<forall>q\<in>set (pkt # on_wire g). \<exists>i<Suc (length (samples (pr g))). \<exists>x. q = probe_packet (seq ((samples (pr g) @ [?y]) ! i)) x"
      using last old by simp
    then show ?thesis using n d le new by (simp add: probe_inv_def True p)
  next
    case False
    then show ?thesis using n d le w by (simp add: probe_inv_def p)
  qed
qed

lemma reply_keeps:
  assumes inv: "probe_inv g" and w: "pkt \<in> set (on_wire g)" and e: "udp_echo (Some (pkt, ())) = Some (rp, ())"
  shows "probe_inv (g\<lparr>pr := recv_packet rp now (pr g), heard := (be_get (take 8 rp), now) # heard g\<rparr>)"
proof -
  let ?xs = "samples (pr g)"
  obtain i x where i: "i < length ?xs" "pkt = probe_packet (seq (?xs ! i)) x" using on_wire_samples [OF inv] w by blast
  have r: "rp = probe_packet (seq (?xs ! i)) x" using e by (simp add: i(2) echo_probe)
  then have q: "be_get (take 8 rp) = seq (?xs ! i)" by (simp only: probe_number)
  have c: "samples (recv_packet rp now (pr g)) =
      (if length ?xs \<le> i + 4096 then ?xs[i := (?xs ! i)\<lparr>recvNS := now\<rparr>] else ?xs)"
    unfolding r by (rule credit [OF _ i(1)]) (use inv in \<open>simp add: probe_inv_def\<close>)
  have sq: "map seq (?xs[i := (?xs ! i)\<lparr>recvNS := now\<rparr>]) = map seq ?xs"
    using i(1) by (simp add: map_update list_update_same_conv)
  then have sqi: "seq (?xs[i := (?xs ! i)\<lparr>recvNS := now\<rparr>] ! j) = seq (?xs ! j)" if "j < length ?xs" for j
    using that by (metis length_list_update nth_map)
  show ?thesis
  proof (cases "length ?xs \<le> i + 4096")
    case True
    have "\<forall>y\<in>set (?xs[i := (?xs ! i)\<lparr>recvNS := now\<rparr>]). unat (seq y) \<le> turns g \<and>
        (recvNS y \<noteq> 0 \<longrightarrow> (seq y, recvNS y) \<in> set ((seq (?xs ! i), now) # heard g))"
      using inv i(1) by (auto simp: probe_inv_def dest!: set_update_subset_insert [THEN subsetD])
    moreover have "\<forall>pkt\<in>set (on_wire g). \<exists>j<length ?xs. \<exists>x. pkt = probe_packet (seq (?xs[i := (?xs ! i)\<lparr>recvNS := now\<rparr>] ! j)) x"
    proof
      fix pkt assume "pkt \<in> set (on_wire g)"
      then obtain j x where "j < length ?xs" "pkt = probe_packet (seq (?xs ! j)) x" using on_wire_samples [OF inv] by blast
      then show "\<exists>j<length ?xs. \<exists>x. pkt = probe_packet (seq (?xs[i := (?xs ! i)\<lparr>recvNS := now\<rparr>] ! j)) x"
        using sqi by metis
    qed
    ultimately show ?thesis using inv True sq unfolding probe_inv_def by (simp add: c q)
  next
    case False
    then show ?thesis using inv unfolding probe_inv_def by (simp add: c)
  qed
qed

lemma probe_reach_inv: "probe_reach iv g \<Longrightarrow> turns g < 2 ^ 64 \<Longrightarrow> probe_inv g"
proof (induction rule: probe_reach.induct)
  case start
  then show ?case by (simp add: probe_inv_def probing_start_def)
next
  case (step g g')
  from step.hyps(2) show ?case
  proof cases
    case (probe_send now took pkt s p)
    then have "Suc (turns g) < 2 ^ 64" using step.prems by simp
    then show ?thesis unfolding probe_send(1) by (intro send_keeps [OF step.IH _ probe_send(2)]) simp_all
  next
    case (probe_reply pkt rp now)
    then have "turns g < 2 ^ 64" using step.prems by simp
    then show ?thesis unfolding probe_reply(1) by (intro reply_keeps [OF step.IH probe_reply(2,3)])
  qed
qed



section \<open>The TCP counter stream\<close>

text \<open>
  The counter and, per open connection, the lines it was sent so far, each with the values it was
  printed from. A connection whose write fails is closed and its goroutine ends.
\<close>

record counter_server =
  count :: int
  conns :: "nat \<Rightarrow> (int \<times> int) list option"

definition counter_line :: "int \<Rightarrow> int \<Rightarrow> string" where
  "counter_line c uptime = ''count='' @ Itoa c @ '' uptime_ms='' @ Itoa uptime @ [char_of (10 :: nat)]"

definition stream_text :: "(int \<times> int) list \<Rightarrow> string" where
  "stream_text ps = concat (map (\<lambda>(c, u). counter_line c u) ps)"

inductive counter_step :: "counter_server \<Rightarrow> counter_server \<Rightarrow> bool" where
  count_tick: "counter_step s (s\<lparr>count := count s + 1\<rparr>)"
| count_accept: "conns s k = None \<Longrightarrow> counter_step s (s\<lparr>conns := (conns s)(k \<mapsto> [])\<rparr>)"
| count_print: "conns s k = Some ps \<Longrightarrow> counter_step s (s\<lparr>conns := (conns s)(k \<mapsto> ps @ [(count s, uptime)])\<rparr>)"
| count_close: "conns s k = Some ps \<Longrightarrow> counter_step s (s\<lparr>conns := (conns s)(k := None)\<rparr>)"

text \<open>
  The stream of every connection counts upwards, never beyond the counter: a stream that falls
  back shows a guest that lost state.
\<close>

definition streams_rise :: "counter_server \<Rightarrow> bool" where
  "streams_rise s \<longleftrightarrow> (\<forall>k ps. conns s k = Some ps \<longrightarrow> sorted (map fst ps) \<and> (\<forall>(c, u)\<in>set ps. c \<le> count s))"

lemma counter_step_rises: "counter_step s s' \<Longrightarrow> streams_rise s \<Longrightarrow> streams_rise s'"
proof (induction rule: counter_step.induct)
  case (count_tick s)
  then show ?case by (fastforce simp: streams_rise_def)
next
  case (count_print s k ps uptime)
  then have "sorted (map fst ps)" "\<forall>(c, u)\<in>set ps. c \<le> count s" by (simp_all add: streams_rise_def)
  then have "sorted (map fst (ps @ [(count s, uptime)]))" by (auto simp: sorted_append)
  then show ?case using count_print by (auto simp: streams_rise_def)
qed (auto simp: streams_rise_def)

lemma counter_stream_rises:
  assumes "counter_step\<^sup>*\<^sup>* \<lparr>count = 0, conns = Map.empty\<rparr> s" and "conns s k = Some ps"
  shows "sorted (map fst ps) \<and> (\<forall>(c, u)\<in>set ps. c \<le> count s)"
proof -
  have "streams_rise \<lparr>count = 0, conns = Map.empty\<rparr>" by (simp add: streams_rise_def)
  with assms(1) have "streams_rise s" by (induction rule: rtranclp_induct) (auto intro: counter_step_rises)
  then show ?thesis using assms(2) by (simp add: streams_rise_def)
qed

section \<open>The status server\<close>

record guest_state =
  ticks :: int
  dirty_rate :: int
  scrib :: Scribbler

text \<open>What \<open>main\<close> starts from the kernel's command line; a panic of the scribbler ends the guest.\<close>

definition guest_main :: "string option \<Rightarrow> guest_state option" where
  "guest_main raw = map_option (\<lambda>(rate, s). \<lparr>ticks = 0, dirty_rate = rate, scrib = s\<rparr>) (start_scribbler raw)"

datatype guest_answer = GPage json | GCode int

definition guest_serve :: "int \<Rightarrow> string \<Rightarrow> string \<Rightarrow> string \<Rightarrow> guest_state \<Rightarrow> guest_answer \<times> guest_state" where
  "guest_serve uptime m p q g =
     (if cleanPath p \<noteq> p then (GCode 301, g)
      else if p = ''/status'' then
        (if meth_match ''GET'' m then (GPage (guest_status_page uptime (ticks g) (dirty_rate g) (scrib g)), g) else (GCode 405, g))
      else if p = ''/dirty'' then
        (if meth_match ''POST'' m
         then (case handle_dirty (query_get ''mbps'' q) (dirty_rate g) of (r, c) \<Rightarrow> (GCode c, g\<lparr>dirty_rate := r\<rparr>))
         else (GCode 405, g))
      else (GCode 404, g))"

lemma plain_Itoa: "c \<in> set ''&;=%+#'' \<Longrightarrow> c \<notin> set (Itoa n)"
proof
  assume c: "c \<in> set ''&;=%+#''" "c \<in> set (Itoa n)"
  have "digit_val c = None" "c \<noteq> CHR ''-''" using c(1) by (auto simp: digit_val_def)
  moreover have "\<exists>d<10. c = digit_char d" if "c \<in> set (nat_dec k)" for k using that by (rule nat_dec_digits)
  ultimately show False using c(2) digit_val_char by (fastforce simp: Itoa_def split: if_splits)
qed

text \<open>A rate posted in decimal is the rate the scribbler runs at; the status page shows it.\<close>

lemma dirty_takes_rate:
  assumes "0 \<le> n" and "n < 2 ^ 63"
  shows "guest_serve up ''POST'' ''/dirty'' (''mbps='' @ Itoa n) g = (GCode 200, g\<lparr>dirty_rate := n\<rparr>)"
proof -
  have p: "CHR ''&'' \<notin> set (Itoa n)" "CHR '';'' \<notin> set (Itoa n)" "CHR ''='' \<notin> set (Itoa n)"
    by (rule plain_Itoa; simp)+
  have "cut_at (CHR ''&'') (''mbps='' @ Itoa n) = (''mbps='' @ Itoa n, '''')"
    by (rule cut_none) (use p in simp)
  moreover have "cut_at (CHR ''='') (''mbps='' @ Itoa n) = (''mbps'', Itoa n)"
    using cut_first [of "CHR ''=''" "''mbps''" "Itoa n"] by simp
  ultimately have "query_get ''mbps'' (''mbps='' @ Itoa n) = Itoa n"
    by (subst query_get.simps) (use p in simp)
  moreover have "cleanPath ''/dirty'' = ''/dirty''" by code_simp
  ultimately show ?thesis
    using assms by (simp add: guest_serve_def handle_dirty_def Atoi_Itoa meth_match_def)
qed

end
