(* ===== verification/Service_Map.thy ===== *)
theory Service_Map
  imports Fcprobe Migrate_Bounds
begin

text \<open>
  The floating-point parts of \<open>cmd/fcprobe\<close> in IEEE double arithmetic: the fraction of answered
  probes per bin with its glyph in the service map, and the ranks of the benchmark's quantiles.
  Doubles are integers scaled by a power of two, as for the plateau test of \<open>Agent_Migrate\<close>.
\<close>

section \<open>Division and constants\<close>

text \<open>
  The quotient of two integers, the first no larger than the second: the mantissa \<open>m\<close> and the scale
  \<open>e\<close> of the double \<open>m / 2^e\<close> nearest to it, ties to even.
\<close>

definition rne :: "nat \<Rightarrow> nat \<Rightarrow> nat" where
  "rne n d = (let q = n div d; r = n mod d in if 2 * r > d \<or> 2 * r = d \<and> odd q then q + 1 else q)"

function quot_exp :: "nat \<Rightarrow> nat \<Rightarrow> nat" where
  "quot_exp n d = (if n = 0 \<or> 2 ^ 52 * d \<le> n then 0 else Suc (quot_exp (2 * n) d))"
  by pat_completeness auto

termination by (relation "measure (\<lambda>(n, d). 2 ^ 52 * d - n)") auto

declare quot_exp.simps [simp del]

definition f64_div :: "nat \<Rightarrow> nat \<Rightarrow> nat \<times> nat" where
  "f64_div n d = (let e = quot_exp n d in (rne (2 ^ e * n) d, e))"

text \<open>The doubles nearest to 0.99 and 0.10 are \<open>c99 / 2^53\<close> and \<open>c10 / 2^56\<close>; 0.90 is \<open>plateauMantissa / 2^53\<close>.\<close>

definition c99 :: nat where
  "c99 = 8917127262193582"

definition c10 :: nat where
  "c10 = 7205759403792794"

section \<open>The service map\<close>

definition glyph :: "nat \<Rightarrow> nat \<Rightarrow> char" where
  "glyph good tot =
     (case f64_div good (max tot 1) of (m, e) \<Rightarrow>
        if m * 2 ^ 53 \<ge> c99 * 2 ^ e then char_of (183 :: nat)
        else if m * 2 ^ 56 < c10 * 2 ^ e then CHR ''X''
        else char_of (48 + f64_round (10 * m) div 2 ^ e))"

text \<open>The byte \<open>0xB7\<close> becomes the two bytes of the middle dot in UTF-8.\<close>

definition render_dots :: "string \<Rightarrow> string" where
  "render_dots s = concat (map (\<lambda>c. if c = char_of (183 :: nat) then [char_of (194 :: nat), char_of (183 :: nat)] else [c]) s)"

definition serviceMap :: "sample list \<Rightarrow> int \<Rightarrow> string option" where
  "serviceMap win binNS =
     (if win = [] then Some ''''
      else map_option (\<lambda>(tot, good). render_dots (map2 glyph good tot)) (service_bins win binNS))"

section \<open>Quantiles\<close>

text \<open>\<open>observed[int(p*float64(len(observed)-1))]\<close>, for \<open>p\<close> the double \<open>c / 2^53\<close>.\<close>

definition quant_rank :: "nat \<Rightarrow> nat \<Rightarrow> nat" where
  "quant_rank c n = f64_round (c * f64_round (n - 1)) div 2 ^ 53"

definition quantiles :: "int list \<Rightarrow> int list" where
  "quantiles xs = map (\<lambda>c. xs ! quant_rank c (length xs)) [2 ^ 52, plateauMantissa, c99, 2 ^ 53]"

section \<open>The quotient is nearest\<close>

lemma rne_near: "0 < d \<Longrightarrow> 2 * (rne n d * d) \<le> 2 * n + d \<and> 2 * n \<le> 2 * (rne n d * d) + d"
proof -
  assume "0 < d"
  then have r: "n mod d < d" by simp
  have "n div d * d + n mod d = n" by simp
  moreover have "rne n d * d = n div d * d \<and> 2 * (n mod d) \<le> d \<or> rne n d * d = n div d * d + d \<and> d \<le> 2 * (n mod d)"
    by (auto simp: rne_def Let_def)
  ultimately show ?thesis using r by linarith
qed

lemma quot_exp_ok: "0 < n \<Longrightarrow> n < 2 ^ 53 * d \<Longrightarrow> 2 ^ 52 * d \<le> 2 ^ quot_exp n d * n \<and> 2 ^ quot_exp n d * n < 2 ^ 53 * d"
proof (induction n d rule: quot_exp.induct)
  case (1 n d)
  show ?case
  proof (cases "2 ^ 52 * d \<le> n")
    case True
    then show ?thesis using 1(3) by (subst (1 2) quot_exp.simps) simp
  next
    case False
    then have "2 ^ 52 * d \<le> 2 ^ quot_exp (2 * n) d * (2 * n) \<and> 2 ^ quot_exp (2 * n) d * (2 * n) < 2 ^ 53 * d"
      using 1(1,2) by simp
    moreover have "quot_exp n d = Suc (quot_exp (2 * n) d)" using False 1(2) by (subst quot_exp.simps) simp
    ultimately show ?thesis by (simp add: ac_simps)
  qed
qed

lemma f64_div_ok:
  assumes "0 < n" and "n \<le> d" and "f64_div n d = (m, e)"
  shows "2 * (m * d) \<le> 2 * (2 ^ e * n) + d" "2 * (2 ^ e * n) \<le> 2 * (m * d) + d" "2 ^ 52 \<le> m" "m \<le> 2 ^ 53"
    "52 \<le> e" "2 ^ 52 * d \<le> 2 ^ e * n" "2 ^ e * n < 2 ^ 53 * d"
proof -
  have d: "0 < d" using assms by simp
  have e: "e = quot_exp n d" and m: "m = rne (2 ^ e * n) d" using assms(3) by (auto simp: f64_div_def Let_def)
  show near: "2 * (m * d) \<le> 2 * (2 ^ e * n) + d" "2 * (2 ^ e * n) \<le> 2 * (m * d) + d"
    using rne_near [OF d] by (simp_all add: m)
  show b: "2 ^ 52 * d \<le> 2 ^ e * n" "2 ^ e * n < 2 ^ 53 * d"
    using quot_exp_ok [OF assms(1), of d] assms(2) d by (simp_all add: e)
  have "(2 * m + 1) * d = 2 * (m * d) + d" by (simp add: algebra_simps)
  then have "2 * 2 ^ 52 * d \<le> (2 * m + 1) * d" using near(2) b(1) by linarith
  then have "2 * 2 ^ 52 \<le> 2 * m + 1" using d by (simp only: mult_le_cancel2)
  then show "2 ^ 52 \<le> m" by simp
  have "2 * m * d < (2 * 2 ^ 53 + 1) * d" using near(1) b(2) unfolding distrib_right mult.assoc by linarith
  then have "2 * m < 2 * 2 ^ 53 + 1" by (simp only: mult_less_cancel2)
  then show "m \<le> 2 ^ 53" by simp
  have "2 ^ 52 * n \<le> 2 ^ e * n" using b(1) assms(2) by (meson le_trans mult_le_mono2)
  then have "(2::nat) ^ 52 \<le> 2 ^ e" using assms(1) by simp
  then show "52 \<le> e" by (simp only: power_increasing_iff one_less_numeral_iff semiring_norm)
qed

section \<open>Comparisons and digits\<close>

lemma f64_round_up:
  assumes "2 ^ (bit_len n - 53) dvd x" and "x \<le> n + d" and "2 * d < 2 ^ (bit_len n - 53)"
  shows "x \<le> f64_round n"
proof (cases "x \<le> n")
  case True
  then show ?thesis by (rule f64_round_ge [OF _ assms(1)])
next
  case False
  let ?g = "(2::nat) ^ (bit_len n - 53)"
  obtain y where x: "x = ?g * y" using assms(1) by (rule dvdE)
  have g: "0 < ?g" by simp
  have n: "n = ?g * (n div ?g) + n mod ?g" "n mod ?g < ?g" by simp_all
  have "?g * (n div ?g) < ?g * y" using False n x by linarith
  moreover have "?g * y < ?g * (n div ?g + 2)" using assms(2,3) n x by (simp only: distrib_left)
  ultimately have y: "y = n div ?g + 1" using g by (simp only: mult_less_cancel1) arith
  then have "?g < 2 * (n mod ?g)" using assms(2,3) n x by (simp only: distrib_left)
  then have "f64_round n = (n div ?g + 1) * ?g"
    by (auto simp: f64_round_def Let_def)
  then show ?thesis by (simp add: x y)
qed

lemma scaled_less: "a \<le> 10 * y \<Longrightarrow> y < z \<Longrightarrow> a < 10 * (z :: nat)"
  by simp

lemma at_least_99:
  assumes "0 < n" and "n \<le> d" and "d < 2 ^ 40" and "f64_div n d = (m, e)"
  shows "m * 2 ^ 53 \<ge> c99 * 2 ^ e \<longleftrightarrow> 100 * n \<ge> 99 * d"
proof
  note ok = f64_div_ok [OF assms(1,2,4)]
  have e: "(2::nat) ^ 52 \<le> 2 ^ e" using ok(5) by (rule power_increasing) simp
  {
    assume ge: "m * 2 ^ 53 \<ge> c99 * 2 ^ e"
    show "100 * n \<ge> 99 * d"
    proof (rule ccontr)
      assume "\<not> 99 * d \<le> 100 * n"
      then have lt: "100 * n + 1 \<le> 99 * d" by simp
      have "2 ^ e * (100 * n + 1) \<le> 2 ^ e * (99 * d)" using lt by (rule mult_le_mono2)
      then have "100 * (2 ^ e * n) + 2 ^ e \<le> 99 * (2 ^ e * d)" by (simp add: algebra_simps)
      then have "100 * (2 * (m * d)) + 2 * 2 ^ e \<le> 198 * (2 ^ e * d) + 100 * d" using ok(1) by linarith
      then have "2 ^ 53 * (100 * (2 * (m * d)) + 2 * 2 ^ e) \<le> 2 ^ 53 * (198 * (2 ^ e * d) + 100 * d)" by (rule mult_le_mono2)
      then have u: "200 * (m * 2 ^ 53 * d) + 2 ^ 54 * 2 ^ e \<le> 198 * 2 ^ 53 * (2 ^ e * d) + 100 * 2 ^ 53 * d"
        by (simp add: algebra_simps)
      have "c99 * 2 ^ e * d \<le> m * 2 ^ 53 * d" using ge by (rule mult_le_mono1)
      then have "200 * c99 * (2 ^ e * d) \<le> 200 * (m * 2 ^ 53 * d)" by (simp add: ac_simps)
      then have "200 * c99 * (2 ^ e * d) + 2 ^ 54 * 2 ^ e \<le> 198 * 2 ^ 53 * (2 ^ e * d) + 100 * 2 ^ 53 * d" using u by linarith
      then have w: "2 ^ 54 * 2 ^ e \<le> 16 * (2 ^ e * d) + 100 * 2 ^ 53 * d" by (simp add: c99_def mult.commute)
      have "2 ^ 52 * d \<le> 2 ^ e * d" using e by (rule mult_le_mono1)
      moreover have "a \<le> 16 * x + 100 * 2 ^ 53 * d \<Longrightarrow> 2 ^ 52 * d \<le> x \<Longrightarrow> a \<le> 216 * x" for a x :: nat by simp
      ultimately have "2 ^ 54 * 2 ^ e \<le> 216 * (2 ^ e * d)" using w by blast
      also have "\<dots> = (216 * d) * 2 ^ e" by simp
      finally have "2 ^ 54 \<le> 216 * d" by (simp only: mult_le_cancel2) simp
      then show False using assms(3) by simp
    qed
  }
  {
    assume "100 * n \<ge> 99 * d"
    then have "2 ^ e * (99 * d) \<le> 2 ^ e * (100 * n)" by (rule mult_le_mono2)
    then have l: "99 * 2 ^ e * d \<le> 100 * (2 ^ e * n)" by (simp add: ac_simps)
    moreover have "100 * (2 ^ e * n) < 100 * (2 ^ 53 * d)" using ok(7) by (simp only: mult_less_cancel1) simp
    ultimately have "(99 * 2 ^ e) * d < (100 * 2 ^ 53) * d" by (simp only: mult.assoc)
    then have "99 * 2 ^ e < 100 * (2::nat) ^ 53" by (simp only: mult_less_cancel2)
    then have "(2::nat) ^ e < 2 ^ 54" by simp
    then have "e < 54" by (simp only: power_strict_increasing_iff one_less_numeral_iff semiring_norm)
    then consider "e = 52" | "e = 53" using ok(5) by linarith
    then show "m * 2 ^ 53 \<ge> c99 * 2 ^ e"
    proof cases
      case 1
      then show ?thesis using ok(3) by (simp add: c99_def)
    next
      case 2
      have "99 * x \<le> 100 * y \<Longrightarrow> 2 * y \<le> z \<Longrightarrow> 2 * (99 * x) \<le> 100 * z" for x y z :: nat by simp
      from this [OF l [unfolded mult.assoc] ok(2)] have "2 * (99 * (2 ^ e * d)) \<le> 100 * (2 * (m * d) + d)" .
      then have "(198 * 2 ^ e) * d \<le> (200 * m + 100) * d" by (simp add: algebra_simps)
      then have "198 * 2 ^ e \<le> 200 * m + 100" using assms(1,2) by (simp only: mult_le_cancel2)
      then have "c99 \<le> m" using 2 by (simp add: c99_def)
      then show ?thesis using 2 by simp
    qed
  }
qed

lemma below_10:
  assumes "0 < n" and "n \<le> d" and "d < 2 ^ 40" and "f64_div n d = (m, e)"
  shows "m * 2 ^ 56 < c10 * 2 ^ e \<longleftrightarrow> 10 * n < d"
proof
  note ok = f64_div_ok [OF assms(1,2,4)]
  have e: "(2::nat) ^ 52 \<le> 2 ^ e" using ok(5) by (rule power_increasing) simp
  {
    assume lt: "10 * n < d"
    then have "2 ^ e * (10 * n + 1) \<le> 2 ^ e * d" by (intro mult_le_mono2) simp
    then have "10 * (2 ^ e * n) + 2 ^ e \<le> 2 ^ e * d" by (simp add: algebra_simps)
    moreover have "5 * d \<le> 2 ^ e" using e assms(3) by simp
    ultimately have "10 * (m * d) < 2 ^ e * d + 1" using ok(1) assms(1,2) by linarith
    then have "10 * (m * d) \<le> 2 ^ e * d" by (simp only: less_Suc_eq_le Suc_eq_plus1 [symmetric])
    then have "(10 * m) * d \<le> 2 ^ e * d" unfolding mult.assoc .
    then have "10 * m \<le> 2 ^ e" using assms(1,2) by (simp only: mult_le_cancel2)
    moreover have "(0::nat) < 2 ^ e" by simp
    moreover have "10 * m \<le> x \<Longrightarrow> 0 < x \<Longrightarrow> m * 2 ^ 56 < c10 * x" for x by (simp add: c10_def)
    ultimately show "m * 2 ^ 56 < c10 * 2 ^ e" by blast
  }
  {
    assume lt: "m * 2 ^ 56 < c10 * 2 ^ e"
    show "10 * n < d"
    proof (rule ccontr)
      assume "\<not> 10 * n < d"
      then have "2 ^ e * d \<le> 2 ^ e * (10 * n)" by (intro mult_le_mono2) simp
      then have l: "2 ^ e * d \<le> 10 * (2 ^ e * n)" by (simp add: ac_simps)
      have "2 ^ e * d < (10 * 2 ^ 53) * d" using l ok(7) unfolding mult.assoc by (rule scaled_less)
      then have "(2::nat) ^ e < 10 * 2 ^ 53" by (simp only: mult_less_cancel2)
      then have "(2::nat) ^ e < 2 ^ 57" by simp
      then have e57: "e < 57" by (simp only: power_strict_increasing_iff one_less_numeral_iff semiring_norm)
      have "(2 * 2 ^ e) * d \<le> (20 * m + 10) * d" using l ok(2) unfolding distrib_right mult.assoc by linarith
      then have b: "2 * 2 ^ e \<le> 20 * m + 10" using assms(1,2) by (simp only: mult_le_cancel2)
      show False
      proof (cases "e = 56")
        case True
        then show False using b lt by (simp add: c10_def)
      next
        case False
        then have "(2::nat) ^ e \<le> 2 ^ 55" using e57 by (intro power_increasing) simp_all
        then show False using lt ok(3) by (simp add: c10_def)
      qed
    qed
  }
qed

lemma last_digit: "10 * m < x \<Longrightarrow> x \<le> 10 * m + 5 \<Longrightarrow> 10 * m = x - x mod 10 \<and> 1 \<le> x mod 10 \<and> x mod 10 \<le> (5 :: nat)"
proof -
  assume a: "10 * m < x" "x \<le> 10 * m + 5"
  then obtain r where r: "x = 10 * m + r" "1 \<le> r" "r \<le> 5" by (metis add_le_cancel_left less_imp_add_positive Suc_leI One_nat_def)
  then have "x mod 10 = r" by simp
  then show ?thesis using r by simp
qed

text \<open>The three products that fall just below a multiple and are rounded onto it.\<close>

lemma digit_ties:
  assumes "10 * m < k * 2 ^ e" and "k * 2 ^ e \<le> 10 * m + 5" and "2 ^ 52 \<le> m" and "k * 2 ^ e < 10 * 2 ^ 53" and "1 \<le> k" and "k < (10::nat)"
  shows "f64_round (10 * m) = k * 2 ^ e"
proof -
  have "10 * 2 ^ 52 < 9 * (2::nat) ^ e"
    using assms(1,3,6) mult_le_mono1 [of k 9 "2 ^ e"] by linarith
  then have "(2::nat) ^ 52 < 2 ^ e" by simp
  then have "52 < e" by (simp only: power_strict_increasing_iff one_less_numeral_iff semiring_norm)
  moreover have "2 ^ e \<le> k * 2 ^ e" using assms(5) by simp
  then have "(2::nat) ^ e < 10 * 2 ^ 53" using assms(4) by (rule le_less_trans)
  then have "(2::nat) ^ e < 2 ^ 57" by (rule less_trans) simp
  then have e57: "e < 57" by (simp only: power_strict_increasing_iff one_less_numeral_iff semiring_norm)
  ultimately have e: "e \<in> {53, 54, 55, 56}" using e57 by auto
  moreover have "k \<in> {1, 2, 3, 4, 5, 6, 7, 8, 9}" using assms(5,6) by auto
  moreover have big: "10 * 2 ^ 52 < k * 2 ^ e" using assms(1,3) by linarith
  ultimately have "(k, e) \<in> {(6, 53), (7, 53), (8, 53), (9, 53), (3, 54), (4, 54), (2, 55), (1, 56)}"
    using assms(4) by (elim insertE emptyE) simp_all
  moreover have "10 * m = k * 2 ^ e - k * 2 ^ e mod 10 \<and> 1 \<le> k * 2 ^ e mod 10 \<and> k * 2 ^ e mod 10 \<le> 5"
    using last_digit [OF assms(1,2)] .
  ultimately have "10 * m = 54043195528445950 \<and> k * 2 ^ e = 54043195528445952 \<or> 10 * m = 63050394783186940 \<and> k * 2 ^ e = 63050394783186944"
    by (elim insertE emptyE) simp_all
  moreover have "f64_round 54043195528445950 = 54043195528445952" "f64_round 63050394783186940 = 63050394783186944"
    by (simp_all add: f64_round_def bit_len.simps Let_def)
  ultimately show ?thesis by auto
qed

lemma digit_floor:
  assumes "0 < n" and "n \<le> d" and "d < 2 ^ 40" and "f64_div n d = (m, e)" and "d \<le> 10 * n" and "10 * n < 10 * d"
  shows "f64_round (10 * m) div 2 ^ e = 10 * n div d"
proof -
  note ok = f64_div_ok [OF assms(1,2,4)]
  have d: "0 < d" using assms by simp
  have e: "(2::nat) ^ 52 \<le> 2 ^ e" using ok(5) by (rule power_increasing) simp
  define k where "k = 10 * n div d"
  have k: "k * d \<le> 10 * n" "10 * n + 1 \<le> (k + 1) * d" using d
    by (simp_all add: k_def Suc_le_eq dividend_less_times_div mult.commute [of _ d])
  have k1: "1 \<le> k" "k < 10"
    using assms(5,6) d by (simp_all add: k_def div_le_mono [of d "10 * n" d, simplified] less_mult_imp_div_less Suc_le_eq div_greater_zero_iff)
  have bl: "bit_len (10 * m) \<le> 57" by (rule bit_len_le) (use ok(4) in simp)
  have "k * 2 ^ e \<le> f64_round (10 * m)"
  proof (cases "k * 2 ^ e \<le> 10 * m")
    case True
    have "2 ^ (bit_len (10 * m) - 53) dvd k * 2 ^ e" using bl ok(5) by (intro dvd_mult le_imp_power_dvd) simp
    then show ?thesis by (rule f64_round_ge [OF True])
  next
    case False
    have "2 ^ e * (k * d) \<le> 2 ^ e * (10 * n)" using k(1) by (rule mult_le_mono2)
    then have l: "k * 2 ^ e * d \<le> 10 * (2 ^ e * n)" by (simp add: ac_simps)
    have "(2 * (k * 2 ^ e)) * d \<le> (20 * m + 10) * d" using l ok(2) unfolding distrib_right mult.assoc by linarith
    then have "2 * (k * 2 ^ e) \<le> 20 * m + 10" using d by (simp only: mult_le_cancel2)
    moreover have "k * 2 ^ e * d < (10 * 2 ^ 53) * d" using l ok(7) unfolding mult.assoc by (rule scaled_less)
    then have "k * 2 ^ e < 10 * 2 ^ 53" by (simp only: mult_less_cancel2)
    ultimately show ?thesis using digit_ties [of m k e] False ok(3) k1 by simp
  qed
  moreover have "f64_round (10 * m) < (k + 1) * 2 ^ e"
  proof -
    have "(2::nat) ^ (bit_len (10 * m) - 53) \<le> 2 ^ 4" using bl by (intro power_increasing) simp_all
    then have "f64_round (10 * m) \<le> 10 * m + 16" using f64_round_bounds(2) [of "10 * m"] by simp
    then have "f64_round (10 * m) * d \<le> (10 * m + 16) * d" by (rule mult_le_mono1)
    moreover have "2 ^ e * (10 * n + 1) \<le> 2 ^ e * ((k + 1) * d)" using k(2) by (rule mult_le_mono2)
    then have "10 * (2 ^ e * n) + 2 ^ e \<le> (k + 1) * 2 ^ e * d" by (simp add: algebra_simps)
    moreover have "21 * d < 2 ^ e" using e assms(3) by simp
    ultimately have "f64_round (10 * m) * d < (k + 1) * 2 ^ e * d" using ok(1) unfolding distrib_right [of _ _ d] mult.assoc by linarith
    then show ?thesis by (simp only: mult_less_cancel2)
  qed
  ultimately show ?thesis unfolding k_def [symmetric]
    by (intro div_nat_eqI) (simp_all add: mult.commute)
qed

lemma quant_rank_exact:
  assumes "100 * c \<le> P * 2 ^ 53 + 20" and "P * 2 ^ 53 \<le> 100 * c + 8" and "2 ^ 52 \<le> c" and "c \<le> 2 ^ 53" and "n \<le> 2 ^ 40"
  shows "quant_rank c n = P * (n - 1) div 100"
proof (cases "n - 1 = 0")
  case True
  then show ?thesis by (simp add: quant_rank_def f64_round_small)
next
  case False
  define m where "m = n - 1"
  define k where "k = P * m div 100"
  let ?g = "(2::nat) ^ (bit_len (c * m) - 53)"
  have m: "1 \<le> m" "m < 2 ^ 40" using False assms(5) by (simp_all add: m_def)
  have cm: "0 < c * m" "2 ^ 52 * m \<le> c * m" "c * m \<le> 2 ^ 53 * m" using m assms(3,4) by simp_all
  have pb: "c * m < 2 ^ bit_len (c * m)" "2 ^ bit_len (c * m) \<le> 2 * (c * m)" using pow_bit_len [OF cm(1)] by simp_all
  have "bit_len (c * m) \<le> 93" 
  proof (rule bit_len_le)
    have "2 ^ 53 * m < 2 ^ 53 * 2 ^ 40" using m(2) by (simp only: mult_less_cancel1) simp
    also have "\<dots> = 2 ^ 93" by simp
    finally show "c * m < 2 ^ 93" using cm(3) by (rule le_less_trans [rotated])
  qed
  then have dv: "?g dvd k * 2 ^ 53" by (intro dvd_mult le_imp_power_dvd) simp
  have "x < 100 * (x div 100 + 1)" "100 * (x div 100) \<le> x" for x :: nat by simp_all
  from this [of "P * m"] have k: "100 * k \<le> P * m" "P * m + 1 \<le> 100 * (k + 1)" by (simp_all add: k_def)
  have hi: "?g \<le> 2 * m \<and> m < 2 * ?g"
  proof (cases "bit_len (c * m) \<le> 53")
    case True
    then have "(2::nat) ^ bit_len (c * m) \<le> 2 ^ 53" by (intro power_increasing) simp_all
    then have "2 ^ 52 * m < 2 ^ 53" by (rule le_less_trans [OF cm(2) less_le_trans [OF pb(1)]])
    then have "m < 2" by simp
    then show ?thesis using True m(1) by simp
  next
    case False
    then have "bit_len (c * m) = 53 + (bit_len (c * m) - 53)" by simp
    then have "2 ^ bit_len (c * m) = 2 ^ 53 * ?g" by (metis power_add)
    then have pg: "c * m < 2 ^ 53 * ?g" "2 ^ 53 * ?g \<le> 2 * (c * m)" using pb by simp_all
    have "2 ^ 52 * m < 2 ^ 53 * ?g" by (rule le_less_trans [OF cm(2) pg(1)])
    moreover have "2 ^ 53 * ?g \<le> 2 * (2 ^ 53 * m)" by (rule le_trans [OF pg(2)]) (use cm(3) in simp)
    ultimately show ?thesis by simp
  qed
  have "P * 2 ^ 53 * m \<le> (100 * c + 8) * m" "100 * c * m \<le> (P * 2 ^ 53 + 20) * m"
    using assms(1,2) by (auto intro: mult_le_mono1)
  then have b: "P * m * 2 ^ 53 \<le> 100 * (c * m) + 8 * m" "100 * (c * m) \<le> P * m * 2 ^ 53 + 20 * m"
    by (simp_all add: algebra_simps)
  have k53: "100 * (k * 2 ^ 53) \<le> P * m * 2 ^ 53" "P * m * 2 ^ 53 + 2 ^ 53 \<le> 100 * ((k + 1) * 2 ^ 53)"
    using mult_le_mono1 [OF k(1), of "2 ^ 53"] mult_le_mono1 [OF k(2), of "2 ^ 53"] by simp_all
  have "k * 2 ^ 53 \<le> f64_round (c * m)"
  proof (rule f64_round_up [OF dv, of "8 * m div 100"])
    show "k * 2 ^ 53 \<le> c * m + 8 * m div 100" using k53(1) b(1) by linarith
    show "2 * (8 * m div 100) < ?g" using hi by linarith
  qed
  moreover have "f64_round (c * m) < (k + 1) * 2 ^ 53"
  proof -
    have "f \<le> y + g \<Longrightarrow> g \<le> 2 * m \<Longrightarrow> 100 * y \<le> a + 20 * m \<Longrightarrow> a + z \<le> 100 * x \<Longrightarrow> 220 * m < z \<Longrightarrow> f < x"
      for f y g a z x :: nat by simp
    from this [OF f64_round_bounds(2) conjunct1 [OF hi] b(2) k53(2)] show ?thesis using m(2) by simp
  qed
  ultimately have "f64_round (c * m) div 2 ^ 53 = k" by (intro div_nat_eqI) (simp_all add: mult.commute)
  moreover have "f64_round m = m" using m(2) by (simp add: f64_round_small)
  ultimately show ?thesis unfolding quant_rank_def k_def m_def [symmetric] by simp
qed

text \<open>The quantiles are the values at the exact ranks.\<close>

lemma quantiles_exact:
  assumes "length xs \<le> 2 ^ 40"
  shows "quantiles xs = map (\<lambda>P. xs ! (P * (length xs - 1) div 100)) [50, 90, 99, 100]"
proof -
  have "quant_rank (2 ^ 52) (length xs) = 50 * (length xs - 1) div 100"
    "quant_rank plateauMantissa (length xs) = 90 * (length xs - 1) div 100"
    "quant_rank c99 (length xs) = 99 * (length xs - 1) div 100"
    "quant_rank (2 ^ 53) (length xs) = 100 * (length xs - 1) div 100"
    by (rule quant_rank_exact [OF _ _ _ _ assms]; simp add: plateauMantissa_def c99_def)+
  then show ?thesis by (simp add: quantiles_def)
qed

section \<open>The map is exact\<close>

definition exact_glyph :: "nat \<Rightarrow> nat \<Rightarrow> string" where
  "exact_glyph good tot =
     (if 100 * good \<ge> 99 * max tot 1 then [char_of (194 :: nat), char_of (183 :: nat)]
      else if 10 * good < max tot 1 then ''X'' else [char_of (48 + 10 * good div tot)])"

lemma glyph_exact:
  assumes "good \<le> tot" and "tot < 2 ^ 40"
  shows "render_dots [glyph good tot] = exact_glyph good tot"
proof (cases "good = 0")
  case True
  have "f64_div 0 (max tot 1) = (0, 0)" by (simp add: f64_div_def quot_exp.simps rne_def)
  then have "glyph good tot = CHR ''X''" by (simp add: glyph_def True c99_def c10_def)
  then show ?thesis by (simp add: render_dots_def exact_glyph_def True char_of_def)
next
  case False
  obtain m e where me: "f64_div good tot = (m, e)" by fastforce
  have t: "max tot 1 = tot" "0 < good" "max tot (Suc 0) = tot" using False assms(1) by simp_all
  have "f64_div good (max tot 1) = (m, e)" unfolding t(1) by (rule me)
  then have g: "glyph good tot = (if 100 * good \<ge> 99 * tot then char_of (183 :: nat) else if 10 * good < tot then CHR ''X''
      else char_of (48 + f64_round (10 * m) div 2 ^ e))"
    using at_least_99 [OF t(2) assms me] below_10 [OF t(2) assms me] unfolding glyph_def by simp
  show ?thesis
  proof (cases "99 * tot \<le> 100 * good \<or> 10 * good < tot")
    case True
    then show ?thesis unfolding g by (auto simp: render_dots_def exact_glyph_def t(3) char_of_def)
  next
    case False
    then have f: "f64_round (10 * m) div 2 ^ e = 10 * good div tot"
      using digit_floor [OF t(2) assms me] assms(1) by simp
    have "10 * good div tot < 10" using False t(2) by (intro less_mult_imp_div_less) simp
    moreover have "char_of (48 + k) \<noteq> (char_of (183 :: nat) :: char)" if "k < 10" for k :: nat
    proof -
      from that have "k \<in> {0, 1, 2, 3, 4, 5, 6, 7, 8, 9}" by auto
      then show ?thesis by (auto simp: char_of_def)
    qed
    ultimately have "char_of (48 + 10 * good div tot) \<noteq> (char_of (183 :: nat) :: char)" by blast
    then show ?thesis using False unfolding g f by (simp add: render_dots_def exact_glyph_def t(3))
  qed
qed

lemma render_glyphs:
  assumes "length good = length tot" and "\<forall>b<length tot. good ! b \<le> tot ! b \<and> tot ! b < 2 ^ 40"
  shows "render_dots (map2 glyph good tot) = concat (map (\<lambda>b. exact_glyph (good ! b) (tot ! b)) [0..<length tot])"
proof -
  have z: "map2 f good tot = map (\<lambda>b. f (good ! b) (tot ! b)) [0..<length tot]" for f :: "nat \<Rightarrow> nat \<Rightarrow> 'a"
    using assms(1) by (intro nth_equalityI) simp_all
  have "render_dots (map f bs) = concat (map (\<lambda>b. render_dots [f b]) bs)" for f :: "nat \<Rightarrow> char" and bs
    by (induction bs) (simp_all add: render_dots_def)
  then have "render_dots (map2 glyph good tot) = concat (map (\<lambda>b. render_dots [glyph (good ! b) (tot ! b)]) [0..<length tot])"
    unfolding z .
  also have "map (\<lambda>b. render_dots [glyph (good ! b) (tot ! b)]) [0..<length tot] = map (\<lambda>b. exact_glyph (good ! b) (tot ! b)) [0..<length tot]"
    using assms(2) by (intro map_cong refl glyph_exact) simp_all
  finally show ?thesis .
qed

lemma map_cong_bins: "(\<And>b. b < n \<Longrightarrow> f b = g b) \<Longrightarrow> map f [0..<n] = map g [0..<n]"
  by simp

definition bin_of :: "sample list \<Rightarrow> int \<Rightarrow> sample \<Rightarrow> nat" where
  "bin_of win binNS s = nat ((sentNS s - sentNS (hd win)) div binNS)"

text \<open>
  C34: The service map shows the exact rates. For any window of probes in sending order, every probe
  falls into one of the bins, and the glyph of a bin, computed by the code in IEEE doubles, is the
  one of the exact fraction of its probes that were answered in time: the dot from 99 percent, an
  \<open>X\<close> below 10 percent, otherwise the digit of the full tenths.
\<close>

theorem service_map_exact:
  assumes "in_order win" and "0 < binNS" and "length win < 2 ^ 40"
  shows "\<exists>n. (\<forall>s\<in>set win. bin_of win binNS s < n) \<and>
    serviceMap win binNS = Some (concat (map (\<lambda>b.
      exact_glyph (length (filter (\<lambda>s. answered s \<and> bin_of win binNS s = b) win))
        (length (filter (\<lambda>s. bin_of win binNS s = b) win))) [0..<n]))"
proof (cases "win = []")
  case True
  then show ?thesis by (intro exI [of _ 0]) (simp add: serviceMap_def)
next
  case False
  have "\<forall>s\<in>set win. sentNS (hd win) \<le> sentNS s" using in_order_ends [OF assms(1)] by blast
  from bins_fold [OF assms(2) this] obtain tot good where
    f: "fold (bin_step (sentNS (hd win)) binNS) win (Some ([], [])) = Some (tot, good)" "length good = length tot"
    and c: "counts (\<lambda>_. True) (sentNS (hd win)) binNS win tot" "counts answered (sentNS (hd win)) binNS win good" by blast
  have b: "in_bin (sentNS (hd win)) binNS b s \<longleftrightarrow> bin_of win binNS s = b" for b s by (simp add: in_bin_def bin_of_def)
  have t: "tot ! b = length (filter (\<lambda>s. bin_of win binNS s = b) win)"
    "good ! b = length (filter (\<lambda>s. answered s \<and> bin_of win binNS s = b) win)" if "b < length tot" for b
  proof -
    have "(if b < length tot then tot ! b else 0) = length (filter (\<lambda>s. bin_of win binNS s = b) win)"
      "(if b < length good then good ! b else 0) = length (filter (\<lambda>s. answered s \<and> bin_of win binNS s = b) win)"
      using c unfolding counts_def b by simp_all
    then show "tot ! b = length (filter (\<lambda>s. bin_of win binNS s = b) win)"
      "good ! b = length (filter (\<lambda>s. answered s \<and> bin_of win binNS s = b) win)" using that f(2) by simp_all
  qed
  have le: "\<forall>b<length tot. good ! b \<le> tot ! b \<and> tot ! b < 2 ^ 40"
  proof (intro allI impI conjI)
    fix b assume l: "b < length tot"
    have "filter (\<lambda>s. answered s \<and> bin_of win binNS s = b) win = filter answered (filter (\<lambda>s. bin_of win binNS s = b) win)"
      by (simp add: conj_commute)
    then show "good ! b \<le> tot ! b" unfolding t [OF l] by (simp only: length_filter_le)
    show "tot ! b < 2 ^ 40" unfolding t [OF l] using assms(3) by (rule le_less_trans [OF length_filter_le])
  qed
  have "bin_of win binNS s < length tot" if "s \<in> set win" for s
  proof (rule ccontr)
    assume "\<not> bin_of win binNS s < length tot"
    then have "filter (\<lambda>x. bin_of win binNS x = bin_of win binNS s) win = []"
      using c(1) unfolding counts_def b by (metis length_0_conv)
    then show False using that by (auto simp: filter_empty_conv)
  qed
  moreover have "serviceMap win binNS = Some (render_dots (map2 glyph good tot))"
    using f(1) False by (cases win) (simp_all add: serviceMap_def service_bins_def)
  ultimately show ?thesis
    using render_glyphs [OF f(2) le] by (intro exI [of _ "length tot"]) (simp add: t cong: map_cong_bins)
qed

theorem service_map_exact_witness:
  "serviceMap (samples s_probe) 4 = Some ''55'' \<and>
   (\<exists>n. (\<forall>s\<in>set (samples s_probe). bin_of (samples s_probe) 4 s < n) \<and>
     serviceMap (samples s_probe) 4 = Some (concat (map (\<lambda>b.
       exact_glyph (length (filter (\<lambda>s. answered s \<and> bin_of (samples s_probe) 4 s = b) (samples s_probe)))
         (length (filter (\<lambda>s. bin_of (samples s_probe) 4 s = b) (samples s_probe)))) [0..<n])))"
proof -
  have "f64_div 1 2 = (2 ^ 52, 53)" by (simp add: f64_div_def quot_exp.simps rne_def)
  moreover have "max 2 1 = (2 :: nat)" by simp
  ultimately have "f64_div 1 (max 2 1) = (2 ^ 52, 53)" by (simp only:)
  moreover have "f64_round (10 * 2 ^ 52) = 10 * 2 ^ 52" by (simp add: f64_round_def bit_len.simps Let_def)
  moreover have "char_of (53 :: nat) = CHR ''5''" by code_simp
  ultimately have "glyph 1 2 = CHR ''5''" unfolding glyph_def c99_def c10_def by simp
  moreover have "service_bins (samples s_probe) 4 = Some ([2, 2], [1, 1])"
    by (simp add: service_bins_def s_probe_def bin_step_def bump_def pad_to_def badRTT_def signed_divide_int_def Let_def)
  ultimately have "serviceMap (samples s_probe) 4 = Some ''55''"
    by (simp add: serviceMap_def render_dots_def char_of_def) (simp add: s_probe_def)
  moreover have "in_order (samples s_probe)" "length (samples s_probe) < 2 ^ 40" by (simp_all add: s_probe_def)
  ultimately show ?thesis using service_map_exact [of "samples s_probe" 4] by simp
qed

end
