(* ===== verification/Fcprobe_Bench.thy ===== *)
theory Fcprobe_Bench
  imports Service_Map Wire_Client Server_Props
begin

text \<open>
  The driving side of \<open>cmd/fcprobe\<close>: finding the host that runs the VM, one probed migration,
  rebooting a dead guest, and the benchmark loop with its verdict. The two agents are the hosts
  of \<open>Agent_Server\<close>; the control network, the probes, the guest's status page and the clock come
  from the environment.
\<close>

section \<open>Two agents under test\<close>

record endpoint =
  ctrl :: string
  xfer :: string

record 'p lab =
  at0 :: "'p host"
  at1 :: "'p host"
  lt :: nat

record 'p lab_env =
  guestAddr :: string
  agent_env :: "nat \<Rightarrow> 'p env"
  ends :: "nat \<Rightarrow> endpoint"
  net :: "nat \<Rightarrow> net_outcome"
  lclk :: "nat \<Rightarrow> int"
  seen :: "nat \<Rightarrow> prober"
  gstat :: "nat \<Rightarrow> nat \<Rightarrow> string \<Rightarrow> gerror + json"
  gwaits :: "nat \<Rightarrow> nat"
  srt :: "gap list \<Rightarrow> gap list"
  mkdir_err :: "gerror option"
  create_err :: "gerror option"

type_synonym ('p, 'a) lab_act = "('p lab, 'a) act"

definition host_at :: "nat \<Rightarrow> 'p lab \<Rightarrow> 'p host" where
  "host_at k l = (if k = 0 then at0 l else at1 l)"

definition set_host :: "nat \<Rightarrow> 'p host \<Rightarrow> 'p lab \<Rightarrow> 'p lab" where
  "set_host k h l = (if k = 0 then l\<lparr>at0 := h\<rparr> else l\<lparr>at1 := h\<rparr>)"

definition labTick :: "('p, nat) lab_act" where
  "labTick l = (Inr (lt l), l\<lparr>lt := Suc (lt l)\<rparr>)"

definition onHost :: "nat \<Rightarrow> ('p, 'a) host_act \<Rightarrow> ('p, 'a) lab_act" where
  "onHost k m l = (case m (host_at k l) of (r, h) \<Rightarrow> (r, set_host k h l))"

definition onPair :: "nat \<Rightarrow> ('p, 'a) world_act \<Rightarrow> ('p, 'a) lab_act" where
  "onPair k m l =
     (case m \<lparr>src = host_at k l, dst = host_at (1 - k) l\<rparr> of
        (r, w) \<Rightarrow> (r, set_host k (src w) (set_host (1 - k) (dst w) l)))"

text \<open>A request on the control network: delivered, lost, or with its answer lost.\<close>

definition ctrlDo :: "'p lab_env \<Rightarrow> ('p, 'a) lab_act \<Rightarrow> ('p, 'a) lab_act" where
  "ctrlDo B m = bindE labTick (\<lambda>t.
     case net B t of
       Delivered \<Rightarrow> m
     | ReqLost er \<Rightarrow> failE er
     | CutOff _ er \<Rightarrow> failE er
     | RespLost er \<Rightarrow> thenE (tryE m) (failE er))"

section \<open>Placement and reboot\<close>

definition orderAgents :: "'p lab_env \<Rightarrow> string \<Rightarrow> ('p, nat \<times> nat) lab_act" where
  "orderAgents B vmID =
     (let ask = (\<lambda>k next. bindE (tryE (ctrlDo B (onHost k (handleGetVM vmID)))) (\<lambda>r.
            case r of
              Inr resp \<Rightarrow> (case abody resp of AStatus st \<Rightarrow> if StState st = ''running'' then retE (k, 1 - k) else next | _ \<Rightarrow> next)
            | Inl _ \<Rightarrow> next))
      in ask 0 (ask 1 (failE (Err ''no agent reports %s running'' [AStr vmID]))))"

definition rebootVM :: "'p lab_env \<Rightarrow> string \<Rightarrow> ('p, (nat \<times> nat) option) lab_act" where
  "rebootVM B vmID =
     (let del = (\<lambda>k. tryE (ctrlDo B (onHost k (handleDeleteVM (agent_env B k) vmID))));
          post = (\<lambda>k next. bindE (tryE (ctrlDo B (onHost k (handleCreateVM (agent_env B k) (Inr (reboot_req vmID)))))) (\<lambda>r.
            case r of Inr resp \<Rightarrow> if code resp = 200 then retE (Some (k, 1 - k)) else next | Inl _ \<Rightarrow> next))
      in thenE (del 0) (thenE (del 1) (post 0 (post 1 (retE None)))))"

section \<open>One probed migration\<close>

text \<open>The first entry of that name, 0 if there is none.\<close>

fun timelineEvent :: "string \<Rightarrow> Event list \<Rightarrow> int" where
  "timelineEvent name [] = 0"
| "timelineEvent name (ev # evs) = (if Name ev = name then NS ev else timelineEvent name evs)"

record migrationResult =
  MAgent :: agentReport
  Observed :: probeStats
  MGuest :: guestStatus
  DurationNS :: int
  SwitchoverNS :: int
  ServiceMap :: "string option"

text \<open>\<open>net.SplitHostPort\<close>: host and port around the last colon, an IPv6 host in brackets.\<close>

definition addr_error :: "string \<Rightarrow> string \<Rightarrow> gerror + 'a" where
  "addr_error addr why = Inl (Err ''address %s: %s'' [AStr addr, AStr why])"

definition before :: "char \<Rightarrow> string \<Rightarrow> string" where
  "before c s = takeWhile (\<lambda>x. x \<noteq> c) s"

definition SplitHostPort :: "string \<Rightarrow> gerror + string \<times> string" where
  "SplitHostPort hp =
     (let rport = before (CHR '':'') (rev hp); i = length hp - length rport - 1; port = rev rport
      in if CHR '':'' \<notin> set hp then addr_error hp ''missing port in address''
      else if hd hp = CHR ''['' then
        (let e = length (before (CHR '']'') hp)
         in if CHR '']'' \<notin> set hp then addr_error hp ''missing ']' in address''
         else if e + 1 \<noteq> i then
           addr_error hp (if e + 1 < length hp \<and> hp ! (e + 1) = CHR '':'' then ''too many colons in address'' else ''missing port in address'')
         else if CHR ''['' \<in> set (drop 1 hp) then addr_error hp ''unexpected '[' in address''
         else if CHR '']'' \<in> set (drop (e + 1) hp) then addr_error hp ''unexpected ']' in address''
         else Inr (drop 1 (take e hp), port))
      else if CHR '':'' \<in> set (take i hp) then addr_error hp ''too many colons in address''
      else if CHR ''['' \<in> set hp then addr_error hp ''unexpected '[' in address''
      else if CHR '']'' \<in> set hp then addr_error hp ''unexpected ']' in address''
      else Inr (take i hp, port))"

text \<open>\<open>get\<close> is the guest's HTTP server as seen by the poll: the body it answers for a URL.\<close>

definition fetchGuestStatus :: "string \<Rightarrow> (string \<Rightarrow> gerror + json) \<Rightarrow> gerror + guestStatus" where
  "fetchGuestStatus addr get =
     (case SplitHostPort addr of
        Inl er \<Rightarrow> Inl er
      | Inr (hostname, _) \<Rightarrow> then_dec (get (''http://'' @ hostname @ '':7780/status'')) unmarshal_guestStatus)"

text \<open>\<open>waits\<close> is how many times the deadline was still ahead when a poll had failed.\<close>

fun waitGuestStatus :: "string \<Rightarrow> (nat \<Rightarrow> string \<Rightarrow> gerror + json) \<Rightarrow> nat \<Rightarrow> nat \<Rightarrow> gerror + guestStatus" where
  "waitGuestStatus g f 0 i = (case fetchGuestStatus g (f i) of Inr gs \<Rightarrow> Inr gs
     | Inl er \<Rightarrow> Inl (Wrap ''guest %s did not answer within %v of resume: %w'' [AStr g, AInt (20 * 10 ^ 9)] er))"
| "waitGuestStatus g f (Suc waits) i = (case fetchGuestStatus g (f i) of Inr gs \<Rightarrow> Inr gs | Inl _ \<Rightarrow> waitGuestStatus g f waits (Suc i))"

text \<open>
  The answer is decoded into \<open>agentReport\<close>, which gives \<open>as_agentReport\<close> of the agent's report
  (\<open>Wire_Client\<close>).
\<close>

definition oneMigration :: "'p lab_env \<Rightarrow> nat \<Rightarrow> nat \<Rightarrow> string \<Rightarrow> ('p, migrationResult) lab_act" where
  "oneMigration B s d vmID = bindE labTick (\<lambda>t0.
     let start = lclk B t0
     in bindE (ctrlDo B (onPair s (handleMigrate (agent_env B s) (agent_env B d) vmID (Inr \<lparr>Target = xfer (ends B d)\<rparr>)))) (\<lambda>resp.
        if code resp \<noteq> 200 then failE (Err ''agent %s: HTTP %d: %s'' [AStr (ctrl (ends B s)), AInt (code resp),
          (case abody resp of AText er \<Rightarrow> AErr er | _ \<Rightarrow> AStr '''')])
        else case abody resp of
          AReport rep \<Rightarrow> bindE labTick (\<lambda>t1.
            let ag = as_agentReport rep; finish = lclk B t1; p = seen B t1;
                win = window (start - 200 * 10 ^ 6) (finish + 10 ^ 9) p;
                pauseNS = timelineEvent ''blackout.pause'' (AgTimeline ag);
                resumeNS = timelineEvent ''target.resumed'' (AgTimeline ag)
            in bindE labTick (\<lambda>t2.
               case waitGuestStatus (guestAddr B) (gstat B t2) (gwaits B t2) 0 of
                 Inl er \<Rightarrow> failE er
               | Inr gs \<Rightarrow> retE \<lparr>MAgent = ag, Observed = prober_stats (srt B) win p, MGuest = gs,
                    DurationNS = finish - start, SwitchoverNS = switchoverBlackout pauseNS resumeNS p,
                    ServiceMap = serviceMap win (250 * 10 ^ 6)\<rparr>))
        | _ \<Rightarrow> failE (Err ''invalid character'' [])))"

definition blackout_of :: "migrationResult \<Rightarrow> int" where
  "blackout_of res = max (SwitchoverNS res) (AgBlackoutNS (MAgent res))"

text \<open>The verdict that \<open>printMigration\<close> prints.\<close>

definition verdict :: "migrationResult \<Rightarrow> int \<Rightarrow> string" where
  "verdict res budget =
     (if blackout_of res > budget \<or> GIntegrityErrors (MGuest res) > 0 then ''FAIL'' else ''PASS'')"

section \<open>The benchmark\<close>

record csv_row =
  row_run :: nat
  row_source :: string
  row_blackout :: int
  row_agent :: int
  row_brownout :: int
  row_rounds :: nat
  row_final :: int
  row_integrity :: int

record bench_state =
  cur :: "nat \<times> nat"
  observed :: "int list"
  fails :: nat
  rows :: "csv_row list"

definition csv_of :: "nat \<Rightarrow> string \<Rightarrow> migrationResult \<Rightarrow> csv_row" where
  "csv_of i source res = \<lparr>row_run = i, row_source = source, row_blackout = blackout_of res,
     row_agent = AgBlackoutNS (MAgent res), row_brownout = MaxGapNS (Observed res), row_rounds = length (AgRounds (MAgent res)),
     row_final = AgFinalBytes (MAgent res), row_integrity = GIntegrityErrors (MGuest res)\<rparr>"

definition bench_ok :: "'p lab_env \<Rightarrow> int \<Rightarrow> nat \<Rightarrow> migrationResult \<Rightarrow> bench_state \<Rightarrow> bench_state" where
  "bench_ok B budget i res st =
     (case cur st of (s, d) \<Rightarrow>
        st\<lparr>observed := observed st @ [blackout_of res], rows := rows st @ [csv_of i (ctrl (ends B s)) res],
           fails := fails st + (if blackout_of res > budget then 1 else 0) + (if GIntegrityErrors (MGuest res) > 0 then 1 else 0),
           cur := (d, s)\<rparr>)"

definition bench_run :: "'p lab_env \<Rightarrow> string \<Rightarrow> int \<Rightarrow> nat \<Rightarrow> bench_state \<Rightarrow> ('p, bench_state) lab_act" where
  "bench_run B vmID budget i st =
     bindE (tryE (oneMigration B (fst (cur st)) (snd (cur st)) vmID)) (\<lambda>r.
     case r of
       Inl er \<Rightarrow> bindE (rebootVM B vmID) (\<lambda>rb.
         bindE (case rb of Some sd \<Rightarrow> retE sd | None \<Rightarrow> orderAgents B vmID) (\<lambda>sd.
         retE (st\<lparr>fails := fails st + 1, cur := sd\<rparr>)))
     | Inr res \<Rightarrow> retE (bench_ok B budget i res st))"

fun bench_loop :: "'p lab_env \<Rightarrow> string \<Rightarrow> int \<Rightarrow> nat \<Rightarrow> nat \<Rightarrow> bench_state \<Rightarrow> ('p, bench_state) lab_act" where
  "bench_loop B vmID budget 0 i st = retE st"
| "bench_loop B vmID budget (Suc n) i st =
     bindE (bench_run B vmID budget i st) (\<lambda>st'. bench_loop B vmID budget n (Suc i) st')"

definition bench_passes :: "int \<Rightarrow> bench_state \<Rightarrow> bool" where
  "bench_passes budget st \<longleftrightarrow> fails st = 0 \<and> last (sort (observed st)) \<le> budget"

text \<open>The rows, the quantiles p50, p90, p99 and max of the blackouts, and whether it prints \<open>PASS\<close>.\<close>

definition runBench :: "'p lab_env \<Rightarrow> string \<Rightarrow> nat \<Rightarrow> int \<Rightarrow> ('p, bench_state \<times> int list \<times> bool) lab_act" where
  "runBench B vmID n budget = bindE (orderAgents B vmID) (\<lambda>sd.
     case mkdir_err B of Some er \<Rightarrow> failE er | None \<Rightarrow>
     (case create_err B of Some er \<Rightarrow> failE er | None \<Rightarrow>
      bindE (bench_loop B vmID budget n 1 \<lparr>cur = sd, observed = [], fails = 0, rows = []\<rparr>) (\<lambda>st.
      if observed st = [] then failE (Err ''no successful migrations'' [])
      else retE (st, quantiles (sort (observed st)), bench_passes budget st))))"

fun dirOf_rev :: "string \<Rightarrow> string" where
  "dirOf_rev [] = ''.''"
| "dirOf_rev (c # cs) = (if c = CHR ''/'' then rev cs else dirOf_rev cs)"

definition dirOf :: "string \<Rightarrow> string" where
  "dirOf p = dirOf_rev (rev p)"

section \<open>Two sample agents\<close>

definition s_lab_env :: "sproc lab_env" where
  "s_lab_env = \<lparr>guestAddr = ''172.30.0.50:7777'', agent_env = \<lambda>_. s_env, ends = (\<lambda>_. \<lparr>ctrl = ''host:7000'', xfer = ''host-b:7000''\<rparr>),
     net = \<lambda>_. Delivered, lclk = int, seen = \<lambda>_. \<lparr>interval = 1000000, samples = []\<rparr>,
     gstat = \<lambda>_ _ _. Inr (guest_status_page 0 0 0 \<lparr>buf = [], Iterations = 1, PagesVerified = 1, IntegrityErrors = 0\<rparr>), gwaits = \<lambda>_. 0, srt = id,
     mkdir_err = None, create_err = None\<rparr>"

definition s_lab :: "sproc lab" where
  "s_lab = \<lparr>at0 = s_busy True, at1 = s_idle True, lt = 0\<rparr>"

lemma s_fetch: "waitGuestStatus ''172.30.0.50:7777''
    (\<lambda>_ _. Inr (guest_status_page 0 0 0 \<lparr>buf = [], Iterations = 1, PagesVerified = 1, IntegrityErrors = 0\<rparr>)) 0 0 =
  Inr \<lparr>Counter = 0, GIntegrityErrors = 0, GPagesVerified = 1\<rparr>"
  by code_simp

lemma s_bench: obtains res l' where "runBench s_lab_env ''vm0'' 1 budget s_lab = (Inr res, l')"
proof -
  let ?m = "oneMigration s_lab_env 0 1 ''vm0''"
  have "\<exists>rep w'. migrate s_env s_env 0 ''host-b:7000'' (s_world True) = (Inr rep, w')"
    using migrate_runs [OF s_contract s_contract _ s_happy s_happy s_wf(1) _ _ s_base, of True] s_clean s_procs s_reg
    by (simp add: s_vm_def) blast
  then obtain rep w' where "migrate s_env s_env 0 ''host-b:7000'' \<lparr>src = s_busy True, dst = s_idle True\<rparr> = (Inr rep, w')"
    by (auto simp: s_world_def)
  then have "\<exists>res l'. ?m (s_lab\<lparr>lt := 1\<rparr>) = (Inr res, l')"
    by (simp add: oneMigration_def bindE_def labTick_def ctrlDo_def s_lab_env_def s_lab_def onPair_def host_at_def
        handleMigrate_def onSrc_def askE_def getVM_def tryE_def api_reply_def retE_def s_busy_def s_idle_def s_fetch Let_def del: waitGuestStatus.simps)
  then obtain res l' where m: "?m (s_lab\<lparr>lt := 1\<rparr>) = (Inr res, l')" by blast
  have o: "orderAgents s_lab_env ''vm0'' s_lab = (Inr (0, 1), s_lab\<lparr>lt := 1\<rparr>)"
    by (simp add: orderAgents_def Let_def bindE_def labTick_def ctrlDo_def s_lab_env_def s_lab_def onHost_def host_at_def
        set_host_def handleGetVM_def askE_def getVM_def tryE_def retE_def s_busy_def s_idle_def s_vm_def state_name_def
        writeVMStatus_def vmE_def api_reply_def)
  let ?s0 = "\<lparr>cur = (0, 1), observed = [], fails = 0, rows = []\<rparr>"
  have "bench_loop s_lab_env ''vm0'' budget 1 1 ?s0 (s_lab\<lparr>lt := 1\<rparr>) = (Inr (bench_ok s_lab_env budget 1 res ?s0), l')"
    using m by (simp add: bench_run_def bindE_def tryE_def retE_def)
  moreover have "observed (bench_ok s_lab_env budget 1 res ?s0) \<noteq> []" "mkdir_err s_lab_env = None" "create_err s_lab_env = None"
    by (simp_all add: bench_ok_def s_lab_env_def)
  ultimately have "\<exists>st. runBench s_lab_env ''vm0'' 1 budget s_lab = (Inr st, l')"
    unfolding runBench_def bindE_def [of "orderAgents s_lab_env ''vm0''"] o
    by (simp del: bench_loop.simps add: bindE_def [of "bench_loop B v n i j st" for B v n i j st] retE_def)
  then show ?thesis using that by blast
qed

section \<open>The verdict of the benchmark\<close>

lemma bench_run_counts:
  assumes "bench_run B vmID budget i st l = (Inr st', l')"
  shows "(\<exists>sd. st' = st\<lparr>fails := fails st + 1, cur := sd\<rparr>) \<or> (\<exists>res. st' = bench_ok B budget i res st)"
proof -
  obtain r :: "gerror + migrationResult" and l1 where k: "(case r of
       Inl er \<Rightarrow> bindE (rebootVM B vmID) (\<lambda>rb.
         bindE (case rb of Some sd \<Rightarrow> retE sd | None \<Rightarrow> orderAgents B vmID) (\<lambda>sd.
         retE (st\<lparr>fails := fails st + 1, cur := sd\<rparr>)))
     | Inr res \<Rightarrow> retE (bench_ok B budget i res st)) l1 = (Inr st', l')"
    using assms unfolding bench_run_def bindE_ok by blast
  then show ?thesis by (cases r) (auto simp: act_simps)
qed

definition over :: "int \<Rightarrow> bench_state \<Rightarrow> nat" where
  "over budget st = length (filter (\<lambda>r. row_blackout r > budget) (rows st))"

definition broken :: "bench_state \<Rightarrow> nat" where
  "broken st = length (filter (\<lambda>r. row_integrity r > 0) (rows st))"

lemma bench_loop_counts:
  assumes "bench_loop B vmID budget n i st l = (Inr st', l')" and "observed st = map row_blackout (rows st)"
    and "fails st + length (rows st) = k + over budget st + broken st"
  shows "observed st' = map row_blackout (rows st') \<and> fails st' + length (rows st') = k + n + over budget st' + broken st'"
  using assms
proof (induction n arbitrary: i st l k)
  case 0
  then show ?case by (simp add: act_simps)
next
  case (Suc n)
  obtain st1 l1 where r: "bench_run B vmID budget i st l = (Inr st1, l1)" "bench_loop B vmID budget n (Suc i) st1 l1 = (Inr st', l')"
    using Suc.prems(1) by (auto simp: act_simps)
  have "observed st1 = map row_blackout (rows st1) \<and> fails st1 + length (rows st1) = Suc k + over budget st1 + broken st1"
    using bench_run_counts [OF r(1)] Suc.prems(2,3)
    by (auto simp: bench_ok_def over_def broken_def csv_of_def case_prod_beta)
  then show ?case using Suc.IH [OF r(2), of "Suc k"] by simp
qed

lemma bench_loop_rows:
  "bench_loop B vmID budget n i st l = (Inr st', l') \<Longrightarrow> length (rows st) \<le> k \<Longrightarrow> length (rows st') \<le> k + n"
proof (induction n arbitrary: i st l k)
  case (Suc n)
  obtain st1 l1 where r: "bench_run B vmID budget i st l = (Inr st1, l1)" "bench_loop B vmID budget n (Suc i) st1 l1 = (Inr st', l')"
    using Suc.prems(1) by (auto simp: act_simps)
  have "length (rows st1) \<le> Suc k"
    using bench_run_counts [OF r(1)] Suc.prems(2) by (auto simp: bench_ok_def case_prod_beta)
  then show ?case using Suc.IH [OF r(2)] by fastforce
qed (simp add: act_simps)

text \<open>
  C35: The benchmark reports what it measured. It passes exactly when all of its runs did: \<open>PASS\<close>
  means that each of the \<open>n\<close> migrations produced a row, with a blackout within the budget and no
  integrity error in the guest. The quantiles, whose ranks the code computes in doubles, are the
  values at the exact ranks of the sorted blackouts of the rows. The failure count adds to the runs without a result one for each row over budget and
  one for each row with integrity errors, so a row with both counts twice.
\<close>

theorem bench_passes_iff:
  assumes "runBench B vmID n budget l = (Inr (st, qs, passes), l')" and "n \<le> 2 ^ 40"
  shows "fails st = (n - length (rows st)) + over budget st + broken st \<and> length (rows st) \<le> n \<and>
    (passes \<longleftrightarrow> length (rows st) = n \<and> (\<forall>r\<in>set (rows st). row_blackout r \<le> budget \<and> row_integrity r \<le> 0)) \<and>
    qs = map (\<lambda>P. sort (map row_blackout (rows st)) ! (P * (length (rows st) - 1) div 100)) [50, 90, 99, 100]"
proof -
  obtain sd l1 where lp: "bench_loop B vmID budget n 1 \<lparr>cur = sd, observed = [], fails = 0, rows = []\<rparr> l1 = (Inr st, l')"
    and ne: "observed st \<noteq> []" and ps: "passes = bench_passes budget st" "qs = quantiles (sort (observed st))"
    using assms(1) by (auto simp: runBench_def act_simps split: option.splits if_splits)
  have ob: "observed st = map row_blackout (rows st)" and c: "fails st + length (rows st) = n + over budget st + broken st"
    using bench_loop_counts [OF lp, of 0] by (simp_all add: over_def broken_def)
  have le: "length (rows st) \<le> n" by (rule bench_loop_rows [OF lp, of 0, simplified])
  have zero: "fails st = 0 \<longleftrightarrow> length (rows st) = n \<and> over budget st = 0 \<and> broken st = 0" using c le by auto
  have "over budget st = 0 \<longleftrightarrow> (\<forall>r\<in>set (rows st). row_blackout r \<le> budget)"
    "broken st = 0 \<longleftrightarrow> (\<forall>r\<in>set (rows st). row_integrity r \<le> 0)"
    by (auto simp: over_def broken_def filter_empty_conv not_less)
  moreover have "last (sort (observed st)) \<in> set (observed st)" using ne by (metis last_in_set set_empty set_sort)
  ultimately have "bench_passes budget st \<longleftrightarrow> length (rows st) = n \<and> (\<forall>r\<in>set (rows st). row_blackout r \<le> budget \<and> row_integrity r \<le> 0)"
    unfolding bench_passes_def zero using ob by auto
  moreover have "qs = map (\<lambda>P. sort (map row_blackout (rows st)) ! (P * (length (rows st) - 1) div 100)) [50, 90, 99, 100]"
    using quantiles_exact [of "sort (observed st)"] ob le assms(2) by (simp add: ps(2))
  ultimately show ?thesis using c le ps(1) by simp
qed

theorem bench_passes_iff_witness:
  "\<exists>st qs passes l'. runBench s_lab_env ''vm0'' 1 100 s_lab = (Inr (st, qs, passes), l') \<and>
     (passes \<longleftrightarrow> length (rows st) = 1 \<and> (\<forall>r\<in>set (rows st). row_blackout r \<le> 100 \<and> row_integrity r \<le> 0))"
proof -
  obtain res l' where "runBench s_lab_env ''vm0'' 1 100 s_lab = (Inr res, l')" by (rule s_bench)
  then obtain st qs passes where r: "runBench s_lab_env ''vm0'' 1 100 s_lab = (Inr (st, qs, passes), l')" by (cases res) simp
  then show ?thesis using bench_passes_iff [OF r] by simp
qed

section \<open>Rebooting a guest\<close>

lemma host_at_set: "host_at k (set_host j h l) = (if (k = 0) = (j = 0) then h else host_at k l)"
  by (auto simp: host_at_def set_host_def)

lemma host_at_tick [simp]: "host_at k (l\<lparr>lt := t\<rparr>) = host_at k l"
  by (simp add: host_at_def)

lemma ctrlDo_delivered:
  assumes "\<forall>t. net B t = Delivered" and "ctrlDo B (onHost k m) l = (r, l')"
  shows "\<exists>h. m (host_at k l) = (r, h) \<and> (\<forall>j. host_at j l' = (if (j = 0) = (k = 0) then h else host_at j l))"
  using assms by (auto simp: ctrlDo_def bindE_def labTick_def onHost_def host_at_set split: prod.splits)

lemma del_step:
  assumes net: "\<forall>t. net B t = Delivered" and inv: "\<forall>j. agent_inv (host_at j l)"
    and d: "tryE (ctrlDo B (onHost k (handleDeleteVM e i))) l = (r, l')"
  shows "(\<exists>x. r = Inr x) \<and> (\<forall>j. agent_inv (host_at j l') \<and>
    absm (host_at j l') = (if (j = 0) = (k = 0) then (absm (host_at j l))(i := None) else absm (host_at j l)))"
proof -
  obtain r' where r: "r = Inr r'" "ctrlDo B (onHost k (handleDeleteVM e i)) l = (r', l')" using d by (auto simp: act_simps)
  obtain h where h: "handleDeleteVM e i (host_at k l) = (r', h)" "\<And>j. host_at j l' = (if (j = 0) = (k = 0) then h else host_at j l)"
    using ctrlDo_delivered [OF net r(2)] by blast
  have "simulates (\<lambda>m m'. m' = m(i := None)) (host_at k l) h" by (rule delete_simulates [OF _ h(1)]) (use inv in simp)
  then have s: "agent_inv h" "absm h = (absm (host_at k l))(i := None)" by (simp_all add: simulates_def)
  have "agent_inv (host_at j l') \<and>
      absm (host_at j l') = (if (j = 0) = (k = 0) then (absm (host_at j l))(i := None) else absm (host_at j l))" for j
  proof (cases "(j = 0) = (k = 0)")
    case True
    then have "host_at j l = host_at k l" by (simp add: host_at_def)
    then show ?thesis using True s by (simp only: h(2) if_True simp_thms)
  next
    case False
    then show ?thesis using inv by (simp only: h(2) if_False simp_thms)
  qed
  then show ?thesis using r(1) by simp
qed

text \<open>Rebooting never fails: every request error is passed over.\<close>

lemma reboot_returns: obtains r l' where "rebootVM B vmID l = (Inr r, l')"
proof -
  have "never_fails (rebootVM B vmID)"
    unfolding rebootVM_def Let_def by (intro nf_rules) (auto intro!: nf_rules split: sum.split)
  then show ?thesis using that by (auto simp: never_fails_def succ_def)
qed

definition two_hosts :: "string \<Rightarrow> 'p lab \<Rightarrow> bool" where
  "two_hosts i l \<longleftrightarrow> (\<forall>j. agent_inv (host_at j l) \<and> settled (absm (host_at j l) i))"

lemma post_step:
  assumes net: "\<forall>t. net B t = Delivered" and ok: "two_hosts vmID l" and ne: "vmID \<noteq> ''''"
    and p: "bindE (tryE (ctrlDo B (onHost k (handleCreateVM e (Inr (reboot_req vmID)))))) (\<lambda>r.
        case r of Inr resp \<Rightarrow> if code resp = 200 then retE (Some (k, 1 - k)) else nxt | Inl _ \<Rightarrow> nxt) l = (Inr res, l')"
  shows "res = Some (k, 1 - k) \<and> (\<exists>vc. absm (host_at k l') vmID = Some (StateRunning, vc)) \<and>
      (\<forall>j. (j = 0) \<noteq> (k = 0) \<longrightarrow> settled (absm (host_at j l') vmID)) \<or>
    (\<exists>l1. two_hosts vmID l1 \<and> nxt l1 = (Inr res, l'))"
proof -
  obtain r' l1 where r: "ctrlDo B (onHost k (handleCreateVM e (Inr (reboot_req vmID)))) l = (r', l1)" by fastforce
  have k: "(case r' of Inr resp \<Rightarrow> if code resp = 200 then retE (Some (k, 1 - k)) else nxt | Inl _ \<Rightarrow> nxt) l1 = (Inr res, l')"
    using p r by (simp add: bindE_def tryE_def)
  obtain h where h: "handleCreateVM e (Inr (reboot_req vmID)) (host_at k l) = (r', h)"
    and h': "\<And>j. host_at j l1 = (if (j = 0) = (k = 0) then h else host_at j l)"
    using ctrlDo_delivered [OF net r] by blast
  have inv: "agent_inv (host_at k l)" and st: "settled (absm (host_at k l) vmID)" using ok by (simp_all add: two_hosts_def)
  have id: "ReqID (reboot_req vmID) = vmID" by (simp add: reboot_req_def)
  note cs = create_settled [OF inv _ h, unfolded id, OF ne st]
  show ?thesis
  proof (cases "created r'")
    case True
    then have "res = Some (k, 1 - k)" "l' = l1" using k by (auto simp: created_def act_simps)
    moreover have "\<exists>vc. absm h vmID = Some (StateRunning, vc)" using cs(3) True by simp
    ultimately show ?thesis using h' ok by (auto simp: two_hosts_def)
  next
    case False
    then have "two_hosts vmID l1" using cs(1,3) ok h' by (auto simp: two_hosts_def settled_def)
    moreover have "nxt l1 = (Inr res, l')" using k False by (auto simp: created_def split: sum.splits if_splits)
    ultimately show ?thesis by blast
  qed
qed



end
