(* ===== verification/Fcprobe_Main.thy ===== *)
theory Fcprobe_Main
  imports Fcprobe_Bench
begin

text \<open>
  The command line of \<open>cmd/fcprobe\<close>: its options, the three commands and the lines they print. A
  line is its format and the arguments; durations are given in nanoseconds and sizes in bytes, as
  they are before the conversion to milliseconds and KiB.
\<close>

section \<open>Characters outside ASCII\<close>

definition quoted_dot :: string where
  "quoted_dot = [CHR 0x27, char_of (194 :: nat), char_of (183 :: nat), CHR 0x27]"

definition arrow :: string where
  "arrow = [char_of (226 :: nat), char_of (134 :: nat), char_of (146 :: nat)]"

definition em_dash :: string where
  "em_dash = [char_of (226 :: nat), char_of (128 :: nat), char_of (148 :: nat)]"

section \<open>The report of one migration\<close>

text \<open>The time of the last \<open>migrate.start\<close>, 0 if there is none.\<close>

definition start_time :: "Event list \<Rightarrow> int" where
  "start_time evs = fold (\<lambda>ev t. if Name ev = ''migrate.start'' then NS ev else t) evs 0"

definition gap_line :: "string \<Rightarrow> int \<Rightarrow> gap \<Rightarrow> msg" where
  "gap_line fmt t0 g = (fmt, [AInt (gStart g - t0), AInt (gap_len g)])"

definition printMigration :: "migrationResult \<Rightarrow> int \<Rightarrow> msg list" where
  "printMigration res budget =
     (let ag = MAgent res; ob = Observed res; t0 = start_time (AgTimeline ag)
      in [(''migration finished in %.1fms total (pre-copy + blackout)'', [AInt (DurationNS res)])] @
         map (\<lambda>ev. (''  t+%7.1fms  %s'', [AInt (NS ev - t0), AStr (Name ev)])) (AgTimeline ag) @
         map (\<lambda>r. (''  t+%7.1fms  round %d: %6.1f KiB dirty (snapshot %.1fms + transfer %.1fms)'',
           [AInt (AgStartNS r - t0), AInt (AgRound r), AInt (AgDirtyBytes r), AInt (AgSnapshotNS r), AInt (AgTransferNS r)])) (AgRounds ag) @
         map (gap_line ''  t+%7.1fms  degraded window %.2fms'' t0) (TopGaps ob) @
         map (gap_line ''  t+%7.1fms  lost run %.2fms'' t0) (TopLostRuns ob) @
         [(''service timeline (250ms bins: answered/sent, '' @ quoted_dot @ ''=100%%, digit=fraction, X=dead):'', []),
          (''  %s'', [AStr (case ServiceMap res of None \<Rightarrow> '''' | Some m \<Rightarrow> m)]),
          (''  final round: %.1f KiB inside blackout'', [AInt (AgFinalBytes ag)]),
          (''BLACKOUT (stop-the-world downtime):'', []),
          (''  agent  pause'' @ arrow @ ''resume    : %8.2f ms  (VM provably not executing)'', [AInt (AgBlackoutNS ag)]),
          (''  client bracketing probe: %8.2f ms  (unanswered run overlapping pause'' @ arrow @ ''resume)'', [AInt (SwitchoverNS res)]),
          (''pre-copy brownout (VM running, network degraded '' @ em_dash @ '' NOT blackout):'', []),
          (''  worst degraded window  : %8.2f ms  (probes answered slower than %v)'', [AInt (MaxGapNS ob), AInt badRTT]),
          (''guest integrity          : %d errors over %d pages verified'', [AInt (GIntegrityErrors (MGuest res)), AInt (GPagesVerified (MGuest res))]),
          (''prober self-check        : %8.2f ms  worst send-loop stall (measurement noise floor)'', [AInt (MaxSendStallNS ob)]),
          (''blackout budget %.0fms '' @ arrow @ '' %s'', [AInt budget, AStr (verdict res budget)])])"

text \<open>One migration is judged as a run of the benchmark is.\<close>

lemma verdicts_agree:
  "verdict res budget = ''PASS'' \<longleftrightarrow> fails (bench_ok B budget i res st) = fails st"
  by (auto simp: verdict_def bench_ok_def split: prod.split)

section \<open>Options\<close>

record options =
  o_guest :: string
  o_agentA :: string
  o_agentB :: string
  o_xferA :: string
  o_xferB :: string
  o_vm :: string
  o_interval :: int
  o_runs :: int
  o_csv :: string
  o_budget :: int

definition default_options :: options where
  "default_options = \<lparr>o_guest = ''172.30.0.50:7777'', o_agentA = ''host-a:8500'', o_agentB = ''host-b:8500'',
     o_xferA = ''172.31.0.11:8500'', o_xferB = ''172.31.0.12:8500'', o_vm = ''vm0'', o_interval = 10 ^ 6, o_runs = 100,
     o_csv = ''bench-results/blackout.csv'', o_budget = 30 * 10 ^ 6\<rparr>"

definition option_hosts :: "options \<Rightarrow> nat \<Rightarrow> endpoint" where
  "option_hosts opt k =
     (if k = 0 then \<lparr>ctrl = o_agentA opt, xfer = o_xferA opt\<rparr> else \<lparr>ctrl = o_agentB opt, xfer = o_xferB opt\<rparr>)"

section \<open>The commands\<close>

definition probe_lines :: "probeStats \<Rightarrow> msg list" where
  "probe_lines st = [(''5s probe: sent=%d recv=%d lost=%d lostrun=%.2fms degraded=%.2fms sendstall=%.2fms'',
     [AInt (int (Sent st)), AInt (int (Received st)), AInt (Lost st), AInt (LostRunNS st), AInt (MaxGapNS st), AInt (MaxSendStallNS st)])]"

definition bench_lines :: "int \<Rightarrow> bench_state \<times> int list \<times> bool \<Rightarrow> msg list" where
  "bench_lines budget outcome =
     (case outcome of (st, qs, passes) \<Rightarrow>
        [(''---'', []),
         (''%d migrations, %d failures'', [AInt (int (length (observed st))), AInt (int (fails st))]),
         (''client-observed blackout: p50=%.2fms p90=%.2fms p99=%.2fms max=%.2fms'', map AInt qs),
         (if passes then ''ALL runs within %.0fms budget: PASS'' else ''budget %.0fms: FAIL'', [AInt budget])])"

text \<open>\<open>main\<close> after the flags: \<open>log.Fatal\<close> ends the program with the error it prints.\<close>

definition with_options :: "options \<Rightarrow> 'p lab_env \<Rightarrow> 'p lab_env" where
  "with_options opt B = B\<lparr>guestAddr := o_guest opt, ends := option_hosts opt, seen := (\<lambda>t. (seen B t)\<lparr>interval := o_interval opt\<rparr>)\<rparr>"

definition fcprobe_main :: "'p lab_env \<Rightarrow> options \<Rightarrow> string \<Rightarrow> ('p, msg list) lab_act" where
  "fcprobe_main B0 opt cmd =
     (let B = with_options opt B0; c = (if cmd = '''' then ''probe'' else cmd)
      in if c = ''probe'' then
           bindE labTick (\<lambda>t. let p = seen B t
             in retE (probe_lines (prober_stats (srt B) (windowAll p) p)))
         else if c = ''migrate'' then
           bindE (orderAgents B (o_vm opt)) (\<lambda>(s, d).
           bindE (tryE (oneMigration B s d (o_vm opt))) (\<lambda>r.
             case r of Inl er \<Rightarrow> failE (Wrap ''migration failed: %v'' [] er) | Inr res \<Rightarrow> retE (printMigration res (o_budget opt))))
         else if c = ''bench'' then
           bindE (runBench B (o_vm opt) (nat (o_runs opt)) (o_budget opt)) (\<lambda>outcome. retE (bench_lines (o_budget opt) outcome))
         else failE (Err ''unknown command %q (want probe|migrate|bench)'' [AStr c]))"

lemma unknown_command:
  "cmd \<notin> {'''', ''probe'', ''migrate'', ''bench''} \<Longrightarrow>
   fcprobe_main B opt cmd l = (Inl (Err ''unknown command %q (want probe|migrate|bench)'' [AStr cmd]), l)"
  by (simp add: fcprobe_main_def failE_def)

text \<open>The benchmark prints \<open>PASS\<close> only for what \<open>bench_passes\<close> accepts.\<close>

lemma bench_prints_pass:
  assumes "fcprobe_main B opt ''bench'' l = (Inr lines, l')"
  shows "\<exists>st qs passes. runBench (with_options opt B) (o_vm opt) (nat (o_runs opt)) (o_budget opt) l =
      (Inr (st, qs, passes), l') \<and>
    last lines = (if passes then ''ALL runs within %.0fms budget: PASS'' else ''budget %.0fms: FAIL'', [AInt (o_budget opt)])"
proof -
  obtain st qs passes where "runBench (with_options opt B) (o_vm opt) (nat (o_runs opt)) (o_budget opt) l = (Inr (st, qs, passes), l')"
    "lines = bench_lines (o_budget opt) (st, qs, passes)"
    using assms by (auto simp: fcprobe_main_def act_simps Let_def)
  then show ?thesis by (auto simp: bench_lines_def)
qed

end
